(* ===== verification/Key_Rules.thy ===== *)
theory Key_Rules
  imports Py_Prelude "HOL-Library.Multiset" "HOL-Library.List_Lexorder" "HOL-Library.Char_ord"
begin

text \<open>
  The pure part of \<^verbatim>\<open>particles/api/_keys.py\<close>: the key's printed form and its parser, the record, the
  minting rules, the rules a record in the file is held to, and the file's JSON form
  (\<open>serialise\<close> and \<open>parse_keys\<close>). The constants some reader trusts by name come from
  \<^verbatim>\<open>corpus/harvest_marks.py\<close>, \<^verbatim>\<open>corpus/fetch.py\<close>, \<^verbatim>\<open>corpus/deposit.py\<close> and the writers' own modules.

  Parameters: \<open>core_lib\<close> holds the functions of the client package the module calls (project
  keys) with the SHA-256 digest, and \<open>key_config\<close> the settings it reads with the writer labels
  that package defines. The theorems: a minted token parses back to its parts, the file's JSON
  form reads back the records that were written, normalised roots are fixed points of the
  normaliser, and a record the mint accepts is never refused by the rules at lookup.
\<close>

section \<open>Roles and tokens\<close>

datatype role = READER | AGENT | OPERATOR

fun role_value :: "role \<Rightarrow> string" where
  "role_value READER = ''reader''"
| "role_value AGENT = ''agent''"
| "role_value OPERATOR = ''operator''"

fun role_prefix :: "role \<Rightarrow> string" where
  "role_prefix READER = ''read''"
| "role_prefix AGENT = ''agent''"
| "role_prefix OPERATOR = ''op''"

definition KEY_PREFIX :: string where
  "KEY_PREFIX = ''ptk_''"

definition is_lower_hex :: "char \<Rightarrow> bool" where
  "is_lower_hex c = (let n = code_of c in (48 \<le> n \<and> n \<le> 57) \<or> (97 \<le> n \<and> n \<le> 102))"

definition is_secret_char :: "char \<Rightarrow> bool" where
  "is_secret_char c =
     (let n = code_of c in
      (65 \<le> n \<and> n \<le> 90) \<or> (97 \<le> n \<and> n \<le> 122) \<or> (48 \<le> n \<and> n \<le> 57) \<or> n = 95 \<or> n = 45)"

text \<open>
  The rest of a token after \<^verbatim>\<open>ptk_<role>_\<close>: 12 lowercase hex characters, an underscore and 43
  secret characters. The pattern ends in \<^verbatim>\<open>$\<close>, which also matches before one final newline.
\<close>

definition parse_token_tail :: "string \<Rightarrow> (string \<times> string) option" where
  "parse_token_tail s =
     (let key_id = take 12 s; secret = take 43 (drop 13 s) in
      if length key_id = 12 \<and> list_all is_lower_hex key_id \<and> take 1 (drop 12 s) = ''_''
         \<and> length secret = 43 \<and> list_all is_secret_char secret
         \<and> (drop 56 s = [] \<or> drop 56 s = [char_of (10 :: nat)])
      then Some (key_id, secret) else None)"

definition parse_token_as :: "role \<Rightarrow> string \<Rightarrow> (role \<times> string \<times> string) option" where
  "parse_token_as r token =
     (let head = KEY_PREFIX @ role_prefix r @ ''_'' in
      if startswith head token
      then map_option (\<lambda>(key_id, secret). (r, key_id, secret)) (parse_token_tail (drop (length head) token))
      else None)"

definition parse_token :: "string \<Rightarrow> (role \<times> string \<times> string) option" where
  "parse_token token =
     (case parse_token_as READER token of
        Some t \<Rightarrow> Some t
      | None \<Rightarrow> (case parse_token_as AGENT token of
                  Some t \<Rightarrow> Some t
                | None \<Rightarrow> parse_token_as OPERATOR token))"

definition role_from_prefix :: "string \<Rightarrow> role option" where
  "role_from_prefix token = map_option fst (parse_token token)"

datatype token_warning = EQUALS_LEGACY_KEY | NOT_A_CLIENT_KEY | OPERATOR_KEY_ON_AGENT_SIDE

definition client_token_warning ::
  "string option \<Rightarrow> string option \<Rightarrow> bool \<Rightarrow> token_warning option"
where
  "client_token_warning token legacy_key agent_side =
     (case token of
        None \<Rightarrow> None
      | Some t \<Rightarrow>
          if legacy_key \<noteq> None \<and> legacy_key = Some t then Some EQUALS_LEGACY_KEY
          else (case role_from_prefix t of
                  None \<Rightarrow> Some NOT_A_CLIENT_KEY
                | Some r \<Rightarrow> if agent_side \<and> r = OPERATOR then Some OPERATOR_KEY_ON_AGENT_SIDE else None))"

text \<open>The random parts: \<^verbatim>\<open>secrets.token_hex(6)\<close> and unpadded URL-safe base64 of 32 bytes.\<close>

type_synonym byte = "8 word"

definition token_hex :: "byte list \<Rightarrow> string" where
  "token_hex bs = concat (map (\<lambda>b. [digit_char (nat (uint b div 16)), digit_char (nat (uint b mod 16))]) bs)"

definition B64_ALPHABET :: string where
  "B64_ALPHABET = ''ABCDEFGHIJKLMNOPQRSTUVWXYZabcdefghijklmnopqrstuvwxyz0123456789-_''"

definition b64_char :: "int \<Rightarrow> char" where
  "b64_char v = B64_ALPHABET ! nat v"

fun urlsafe_b64 :: "byte list \<Rightarrow> string" where
  "urlsafe_b64 [] = []"
| "urlsafe_b64 [a] = [b64_char (uint a div 4), b64_char (uint a mod 4 * 16)]"
| "urlsafe_b64 [a, b] =
     [b64_char (uint a div 4), b64_char (uint a mod 4 * 16 + uint b div 16), b64_char (uint b mod 16 * 4)]"
| "urlsafe_b64 (a # b # c # rest) =
     [b64_char (uint a div 4), b64_char (uint a mod 4 * 16 + uint b div 16),
      b64_char (uint b mod 16 * 4 + uint c div 64), b64_char (uint c mod 64)] @ urlsafe_b64 rest"

definition make_token :: "role \<Rightarrow> string \<Rightarrow> string \<Rightarrow> string" where
  "make_token r key_id secret = KEY_PREFIX @ role_prefix r @ ''_'' @ key_id @ ''_'' @ secret"

section \<open>JSON values\<close>

text \<open>A parsed JSON document; a float is kept as Python prints it. Objects have distinct names.\<close>

datatype json =
    JNull | JBool bool | JInt int | JFloat string | JStr string
  | JList "json list" | JObj "(string \<times> json) list"

definition hex2 :: "nat \<Rightarrow> string" where
  "hex2 n = [digit_char (n div 16), digit_char (n mod 16)]"

definition repr_char :: "char \<Rightarrow> char \<Rightarrow> string" where
  "repr_char quote c =
     (let n = code_of c; bs = char_of (92 :: nat) in
      if c = bs \<or> c = quote then [bs, c]
      else if n = 10 then [bs, CHR ''n''] else if n = 13 then [bs, CHR ''r'']
      else if n = 9 then [bs, CHR ''t'']
      else if n < 32 \<or> (127 \<le> n \<and> n \<le> 160) \<or> n = 173 then [bs, CHR ''x''] @ hex2 n
      else [c])"

definition repr_str :: "string \<Rightarrow> string" where
  "repr_str s =
     (let apo = char_of (39 :: nat); dq = char_of (34 :: nat);
          quote = (if apo \<in> set s \<and> dq \<notin> set s then dq else apo)
      in [quote] @ concat (map (repr_char quote) s) @ [quote])"

fun py_repr :: "json \<Rightarrow> string" where
  "py_repr JNull = ''None''"
| "py_repr (JBool b) = (if b then ''True'' else ''False'')"
| "py_repr (JInt i) = show_int i"
| "py_repr (JFloat s) = s"
| "py_repr (JStr s) = repr_str s"
| "py_repr (JList xs) = ''['' @ join_with '', '' (map py_repr xs) @ '']''"
| "py_repr (JObj kvs) =
     ''{'' @ join_with '', '' (map (\<lambda>kv. repr_str (fst kv) @ '': '' @ py_repr (snd kv)) kvs) @ ''}''"

definition py_str :: "json \<Rightarrow> string" where
  "py_str v = (case v of JStr s \<Rightarrow> s | _ \<Rightarrow> py_repr v)"

text \<open>What a \<^verbatim>\<open>for\<close> loop over a value visits; \<^const>\<open>None\<close> when the value cannot be iterated.\<close>

definition py_iter :: "json \<Rightarrow> json list option" where
  "py_iter v =
     (case v of
        JList xs \<Rightarrow> Some xs
      | JStr s \<Rightarrow> Some (map (\<lambda>c. JStr [c]) s)
      | JObj kvs \<Rightarrow> Some (map (\<lambda>kv. JStr (fst kv)) kvs)
      | _ \<Rightarrow> None)"

text \<open>\<^verbatim>\<open>value == 1\<close> holds of the integer, of \<^verbatim>\<open>True\<close> and of \<^verbatim>\<open>1.0\<close>.\<close>

definition equals_one :: "json \<Rightarrow> bool" where
  "equals_one v = (v \<in> {JInt 1, JBool True, JFloat ''1.0''})"

definition get_or_none :: "(string \<times> json) list \<Rightarrow> string \<Rightarrow> json" where
  "get_or_none item name = (case map_of item name of None \<Rightarrow> JNull | Some v \<Rightarrow> v)"

section \<open>Records\<close>

text \<open>
  Python's \<^verbatim>\<open>None\<close> and JSON's \<^verbatim>\<open>null\<close> are both \<^const>\<open>JNull\<close>. The file's \<^verbatim>\<open>label\<close> and \<^verbatim>\<open>revoked_at\<close>
  are taken as they are, so a record carries them as JSON values.
\<close>

record key_record =
  key_id :: string
  principal :: string
  krole :: role
  project :: "string option"
  label :: json
  created_at :: string
  revoked_at :: json
  digest :: string
  reserved_ok :: bool
  memory_roots :: "string list option"
  archive_roots :: "string list option"

definition live :: "key_record \<Rightarrow> bool" where
  "live r = (revoked_at r = JNull)"

record core_lib =
  names_a_project :: "string \<Rightarrow> bool"
  hides_a_character :: "string \<Rightarrow> bool"
  lookalike_reason :: "string \<Rightarrow> string option"
  canonical_project_key :: "string \<Rightarrow> string"
  sha256_hex :: "string \<Rightarrow> string"

record key_config =
  operator_identity :: string
  memory_compat_asserter :: string
  extractor_ids :: "string list"
  core_actor_labels :: "string list" \<comment> \<open>\<^verbatim>\<open>DISCLOSURE_ACTOR\<close>, \<^verbatim>\<open>REANCHOR_ACTOR\<close>, \<^verbatim>\<open>CASCADE_ACTOR\<close>\<close>

section \<open>Reserved names\<close>

definition HARVEST_DEPOSITORS :: "string list" where
  "HARVEST_DEPOSITORS = [''claude-code-hook'', ''audit'']"

definition RESERVED_DEPOSITORS :: "string list" where
  "RESERVED_DEPOSITORS = HARVEST_DEPOSITORS @ [''rule-sync'', ''init'']"

definition LOCAL_LAZY_DEPOSITORS :: "string list" where
  "LOCAL_LAZY_DEPOSITORS = [''rule-sync'', ''init'', ''claude-code-hook'', ''operator'']"

definition MEMORY_FILE_DEPOSITORS :: "string list" where
  "MEMORY_FILE_DEPOSITORS = LOCAL_LAZY_DEPOSITORS @ [''audit'']"

definition CAPTURE_DEPOSITORS :: "string list" where
  "CAPTURE_DEPOSITORS = [''web-clipper'']"

definition PIPELINE_ACTOR :: string where
  "PIPELINE_ACTOR = ''extract-pipeline''"

definition store_writer_labels :: "key_config \<Rightarrow> string list" where
  "store_writer_labels cfg =
     extractor_ids cfg
     @ [PIPELINE_ACTOR, ''interchange-import'', ''interchange-restore'', ''memory-consolidate'',
        ''consolidation:abstraction'', ''update-sweep'', ''inbox'']
     @ core_actor_labels cfg @ CAPTURE_DEPOSITORS"

definition reserved_principals :: "key_config \<Rightarrow> string list" where
  "reserved_principals cfg =
     [operator_identity cfg, ''operator'', ''api-user'', memory_compat_asserter cfg]
     @ RESERVED_DEPOSITORS @ LOCAL_LAZY_DEPOSITORS @ MEMORY_FILE_DEPOSITORS @ CAPTURE_DEPOSITORS
     @ store_writer_labels cfg"

section \<open>Minting rules\<close>

datatype root_error = NOT_ABSOLUTE | CONTROL_CHARACTER | FILESYSTEM_ROOT | BAD_SEGMENT

datatype rule_error =
    BLANK_PRINCIPAL | NOT_THE_OPERATOR_PRINCIPAL | OPERATORS_NAME | ANONYMOUS_LABEL | RESERVED_NAME
  | PROJECT_ON_OTHER_ROLE | BLANK_PROJECT | LOOKALIKE_PROJECT string
  | ROOTS_NOT_A_HARVESTER | NO_ROOTS | BAD_ROOT root_error
  | NOT_FILE_OWNER | CREATE_AS_ROOT | LOCK_HELD | NO_SUCH_KEY

definition check_mint ::
  "core_lib \<Rightarrow> key_config \<Rightarrow> role \<Rightarrow> string \<Rightarrow> string option \<Rightarrow> bool \<Rightarrow> rule_error option"
where
  "check_mint core cfg r principal0 proj reserved =
     (let p = strip principal0 in
      if p = [] then Some BLANK_PRINCIPAL
      else if r = OPERATOR \<and> p \<noteq> operator_identity cfg then Some NOT_THE_OPERATOR_PRINCIPAL
      else if r \<noteq> OPERATOR \<and> p \<in> {operator_identity cfg, ''operator''} then Some OPERATORS_NAME
      else if p = ''api-user'' then Some ANONYMOUS_LABEL
      else if r \<noteq> OPERATOR \<and> p \<in> set (reserved_principals cfg) \<and> \<not> reserved then Some RESERVED_NAME
      else (case proj of
              None \<Rightarrow> None
            | Some pr \<Rightarrow>
                if r \<noteq> AGENT then Some PROJECT_ON_OTHER_ROLE
                else if \<not> names_a_project core pr then Some BLANK_PROJECT
                else map_option LOOKALIKE_PROJECT (lookalike_reason core pr)))"

definition is_harvester :: "role \<Rightarrow> string \<Rightarrow> bool" where
  "is_harvester r p = (r = AGENT \<and> p \<in> set HARVEST_DEPOSITORS)"

definition is_control :: "char \<Rightarrow> bool" where
  "is_control c = (code_of c < 32 \<or> code_of c = 127)"

definition normalised_root :: "string \<Rightarrow> root_error + string" where
  "normalised_root raw =
     (if \<not> startswith ''/'' raw then Inl NOT_ABSOLUTE
      else if list_ex is_control raw then Inl CONTROL_CHARACTER
      else
        let segments0 = tl (split_on (CHR ''/'') raw);
            segments = (if segments0 \<noteq> [] \<and> last segments0 = [] then butlast segments0 else segments0)
        in if segments = [] then Inl FILESYSTEM_ROOT
           else if list_ex (\<lambda>seg. seg \<in> {[], ''.'', ''..''}) segments then Inl BAD_SEGMENT
           else Inr (''/'' @ join_with ''/'' segments))"

fun add_roots :: "string list \<Rightarrow> string list \<Rightarrow> rule_error + string list" where
  "add_roots acc [] = Inr acc"
| "add_roots acc (raw # raws) =
     (case normalised_root raw of
        Inl e \<Rightarrow> Inl (BAD_ROOT e)
      | Inr root \<Rightarrow> add_roots (if root \<in> set acc then acc else acc @ [root]) raws)"

definition mint_roots :: "role \<Rightarrow> string \<Rightarrow> string list option \<Rightarrow> rule_error + string list option" where
  "mint_roots r p roots =
     (case roots of
        None \<Rightarrow> Inr None
      | Some raws \<Rightarrow>
          if \<not> is_harvester r p then Inl ROOTS_NOT_A_HARVESTER
          else if raws = [] then Inl NO_ROOTS
          else (case add_roots [] raws of Inl e \<Rightarrow> Inl e | Inr out \<Rightarrow> Inr (Some out)))"

section \<open>The rules a record in the file is held to\<close>

definition unacknowledged_reserved :: "key_config \<Rightarrow> key_record \<Rightarrow> bool" where
  "unacknowledged_reserved cfg r =
     (krole r \<noteq> OPERATOR \<and> \<not> reserved_ok r \<and> principal r \<in> set (reserved_principals cfg))"

datatype record_refusal =
    PADDED_PRINCIPAL | OPERATOR_UNDER_ANOTHER_NAME | HOLDS_OPERATORS_NAME | HOLDS_ANONYMOUS_LABEL
  | BINDS_PROJECT | ROOTS_OF_NON_HARVESTER | EMPTY_ROOTS | ROOT_NOT_NORMALISED | ROOT_INVALID root_error

fun root_entries_refusal :: "string list \<Rightarrow> record_refusal option" where
  "root_entries_refusal [] = None"
| "root_entries_refusal (root # roots) =
     (case normalised_root root of
        Inl e \<Rightarrow> Some (ROOT_INVALID e)
      | Inr n \<Rightarrow> if n \<noteq> root then Some ROOT_NOT_NORMALISED else root_entries_refusal roots)"

definition roots_refusal :: "key_record \<Rightarrow> string list option \<Rightarrow> record_refusal option" where
  "roots_refusal r roots =
     (case roots of
        None \<Rightarrow> None
      | Some rs \<Rightarrow>
          if \<not> is_harvester (krole r) (strip (principal r)) then Some ROOTS_OF_NON_HARVESTER
          else if rs = [] then Some EMPTY_ROOTS
          else root_entries_refusal rs)"

definition record_rule_refusal :: "key_config \<Rightarrow> key_record \<Rightarrow> record_refusal option" where
  "record_rule_refusal cfg r =
     (let p = strip (principal r) in
      if p = [] \<or> p \<noteq> principal r then Some PADDED_PRINCIPAL
      else if krole r = OPERATOR \<and> p \<noteq> operator_identity cfg then Some OPERATOR_UNDER_ANOTHER_NAME
      else if krole r \<noteq> OPERATOR \<and> p \<in> {operator_identity cfg, ''operator''} then Some HOLDS_OPERATORS_NAME
      else if p = ''api-user'' then Some HOLDS_ANONYMOUS_LABEL
      else if project r \<noteq> None \<and> krole r \<noteq> AGENT then Some BINDS_PROJECT
      else (case roots_refusal r (memory_roots r) of
              Some e \<Rightarrow> Some e
            | None \<Rightarrow> roots_refusal r (archive_roots r)))"

section \<open>The file's JSON form\<close>

definition role_of_json :: "json \<Rightarrow> role option" where
  "role_of_json v =
     (if v = JStr ''reader'' then Some READER else if v = JStr ''agent'' then Some AGENT
      else if v = JStr ''operator'' then Some OPERATOR else None)"

fun all_strings :: "json list \<Rightarrow> string list option" where
  "all_strings [] = Some []"
| "all_strings (v # vs) =
     (case v of JStr s \<Rightarrow> map_option (\<lambda>ss. s # ss) (all_strings vs) | _ \<Rightarrow> None)"

text \<open>
  Every way the parser raises is caught and becomes \<^verbatim>\<open>KeyFileUnusable\<close>, so a failed step is
  \<^const>\<open>None\<close> here; \<open>parse_roots\<close> gives the roots of one field.
\<close>

definition parse_roots :: "(string \<times> json) list \<Rightarrow> string \<Rightarrow> string list option option" where
  "parse_roots item name =
     (case get_or_none item name of
        JNull \<Rightarrow> Some None
      | JList vs \<Rightarrow> map_option Some (all_strings vs)
      | _ \<Rightarrow> None)"

definition parse_project :: "core_lib \<Rightarrow> json \<Rightarrow> string option option" where
  "parse_project core v =
     (case v of
        JNull \<Rightarrow> Some None
      | JStr p \<Rightarrow>
          if \<not> names_a_project core p then None
          else if hides_a_character core p then None
          else Some (Some (canonical_project_key core p))
      | _ \<Rightarrow> None)"

definition parse_reserved_ok :: "(string \<times> json) list \<Rightarrow> bool option" where
  "parse_reserved_ok item =
     (case map_of item ''reserved_ok'' of None \<Rightarrow> Some False | Some (JBool b) \<Rightarrow> Some b | _ \<Rightarrow> None)"

definition parse_record :: "core_lib \<Rightarrow> (string \<times> json) list \<Rightarrow> key_record option" where
  "parse_record core item =
     do {
       res \<leftarrow> parse_reserved_ok item;
       proj \<leftarrow> parse_project core (get_or_none item ''project'');
       mem \<leftarrow> parse_roots item ''memory_roots'';
       arch \<leftarrow> parse_roots item ''archive_roots'';
       kid \<leftarrow> map_of item ''key_id'';
       prin \<leftarrow> map_of item ''principal'';
       rl \<leftarrow> Option.bind (map_of item ''role'') role_of_json;
       cre \<leftarrow> map_of item ''created_at'';
       dig \<leftarrow> map_of item ''digest'';
       Some \<lparr>key_id = py_str kid, principal = py_str prin, krole = rl, project = proj,
             label = get_or_none item ''label'', created_at = py_str cre,
             revoked_at = get_or_none item ''revoked_at'', digest = py_str dig, reserved_ok = res,
             memory_roots = mem, archive_roots = arch\<rparr>
     }"

fun parse_items :: "core_lib \<Rightarrow> (string, key_record) dict \<Rightarrow> json list \<Rightarrow> (string, key_record) dict option" where
  "parse_items core out [] = Some out"
| "parse_items core out (item # items) =
     (case item of
        JObj kvs \<Rightarrow>
          (case parse_record core kvs of
             None \<Rightarrow> None
           | Some r \<Rightarrow> parse_items core (AList.update (key_id r) r out) items)
      | _ \<Rightarrow> None)"

definition parse_keys :: "core_lib \<Rightarrow> json \<Rightarrow> (string, key_record) dict option" where
  "parse_keys core data =
     (case data of
        JObj kvs \<Rightarrow>
          if \<not> equals_one (get_or_none kvs ''version'') then None
          else Option.bind (Option.bind (map_of kvs ''keys'') py_iter) (parse_items core [])
      | _ \<Rightarrow> None)"

definition json_of_option :: "string option \<Rightarrow> json" where
  "json_of_option v = (case v of None \<Rightarrow> JNull | Some s \<Rightarrow> JStr s)"

definition roots_field :: "string \<Rightarrow> string list option \<Rightarrow> (string \<times> json) list" where
  "roots_field name roots = (case roots of None \<Rightarrow> [] | Some rs \<Rightarrow> [(name, JList (map JStr rs))])"

definition item_of :: "key_record \<Rightarrow> (string \<times> json) list" where
  "item_of r =
     [(''key_id'', JStr (key_id r)), (''principal'', JStr (principal r)),
      (''role'', JStr (role_value (krole r))), (''project'', json_of_option (project r)),
      (''label'', label r), (''created_at'', JStr (created_at r)), (''revoked_at'', revoked_at r),
      (''digest'', JStr (digest r)), (''reserved_ok'', JBool (reserved_ok r))]
     @ roots_field ''memory_roots'' (memory_roots r) @ roots_field ''archive_roots'' (archive_roots r)"

definition serialise :: "(string, key_record) dict \<Rightarrow> json" where
  "serialise records =
     JObj [(''version'', JInt 1),
       (''keys'', JList (map (\<lambda>r. JObj (item_of r)) (sort_key created_at (map snd records))))]"

section \<open>Tokens read back\<close>

lemma code_of_char_of [simp]: "n < 256 \<Longrightarrow> code_of (char_of n) = n"
  by (simp add: code_of_def)

lemma byte_bounds: "0 \<le> uint (b :: byte)" "uint (b :: byte) < 256"
  using uint_bounded [of b] by simp_all

lemma lower_hex_digit_char: "d < 16 \<Longrightarrow> is_lower_hex (digit_char d)"
  by (cases "d < 10") (simp_all add: is_lower_hex_def digit_char_def Let_def)

lemma token_hex_chars: "list_all is_lower_hex (token_hex bs)"
proof -
  have "nat (uint b div 16) < 16" "nat (uint b mod 16) < 16" for b :: byte
    using byte_bounds [of b] by (auto simp: nat_less_iff)
  then show ?thesis
    by (auto simp: token_hex_def list_all_iff lower_hex_digit_char)
qed

lemma token_hex_length: "length (token_hex bs) = 2 * length bs"
  by (induction bs) (auto simp: token_hex_def)

lemma secret_char_b64:
  assumes "0 \<le> v" "v < 64"
  shows "is_secret_char (b64_char v)"
proof -
  have "list_all is_secret_char B64_ALPHABET" "length B64_ALPHABET = 64" by code_simp+
  then show ?thesis using assms by (simp add: b64_char_def list_all_length)
qed

text \<open>Every sextet cut out of the bytes is in the alphabet.\<close>

lemma secret_mix:
  assumes "0 \<le> x" "x \<le> 3 \<and> k = 16 \<or> x \<le> 15 \<and> k = 4" "0 \<le> y" "y < k"
  shows "is_secret_char (b64_char (x * k + y))"
  using assms by (intro secret_char_b64) auto

lemma byte_parts:
  fixes a :: byte
  shows "0 \<le> uint a div 4" "uint a div 4 < 64" "0 \<le> uint a div 16" "uint a div 16 < 16"
    "0 \<le> uint a div 64" "uint a div 64 < 4" "uint a mod 4 \<le> 3" "uint a mod 16 \<le> 15" "uint a mod 64 < 64"
    "0 \<le> uint a mod 4" "0 \<le> uint a mod 16" "0 \<le> uint a mod 64"
  using byte_bounds [of a] pos_mod_bound [of 4 "uint a"] pos_mod_bound [of 16 "uint a"]
  by (simp_all add: div_int_pos_iff)

lemma secret_sextets [simp]:
  fixes a b :: byte
  shows "is_secret_char (b64_char (uint a div 4))" "is_secret_char (b64_char (uint a mod 64))"
    "is_secret_char (b64_char (uint a mod 4 * 16 + uint b div 16))"
    "is_secret_char (b64_char (uint a mod 16 * 4 + uint b div 64))"
    "is_secret_char (b64_char (uint a mod 4 * 16))" "is_secret_char (b64_char (uint a mod 16 * 4))"
proof -
  note p = byte_parts [of a] byte_parts [of b]
  show "is_secret_char (b64_char (uint a div 4))" "is_secret_char (b64_char (uint a mod 64))"
    by (simp_all add: secret_char_b64 p)
  show "is_secret_char (b64_char (uint a mod 4 * 16 + uint b div 16))"
    by (rule secret_mix) (simp_all add: p)
  show "is_secret_char (b64_char (uint a mod 16 * 4 + uint b div 64))"
    by (rule secret_mix) (simp_all add: p)
  have "is_secret_char (b64_char (uint a mod 4 * 16 + 0))"
    "is_secret_char (b64_char (uint a mod 16 * 4 + 0))"
    by (rule secret_mix; simp add: p)+
  then show "is_secret_char (b64_char (uint a mod 4 * 16))" "is_secret_char (b64_char (uint a mod 16 * 4))"
    by simp_all
qed

lemma urlsafe_b64_chars: "list_all is_secret_char (urlsafe_b64 bs)"
  by (induction bs rule: urlsafe_b64.induct) simp_all

lemma urlsafe_b64_length: "length (urlsafe_b64 bs) = (4 * length bs + 2) div 3"
  by (induction bs rule: urlsafe_b64.induct) auto

lemma startswith_same_head: "startswith (p @ a) (p @ b) = startswith a b"
  by (auto simp: startswith_def)

lemma parse_token_tail_make:
  assumes "length kid = 12" "list_all is_lower_hex kid" "length sec = 43" "list_all is_secret_char sec"
  shows "parse_token_tail (kid @ ''_'' @ sec) = Some (kid, sec)"
  using assms by (simp add: parse_token_tail_def Let_def)

lemma parse_token_as_make:
  assumes "parse_token_tail (kid @ ''_'' @ sec) = Some (kid, sec)"
  shows "parse_token_as r (make_token r' kid sec) = (if r = r' then Some (r, kid, sec) else None)"
proof (cases "r = r'")
  case True
  have "make_token r kid sec = (KEY_PREFIX @ role_prefix r @ ''_'') @ kid @ ''_'' @ sec"
    by (simp add: make_token_def)
  with True assms show ?thesis
    by (simp add: parse_token_as_def Let_def del: append_assoc)
next
  case False
  then have "\<not> startswith (KEY_PREFIX @ role_prefix r @ ''_'') (make_token r' kid sec)"
    by (cases r; cases r') (auto simp: make_token_def KEY_PREFIX_def startswith_def)
  with False show ?thesis by (simp add: parse_token_as_def Let_def)
qed

lemma parse_make_token:
  assumes "length kid = 12" "list_all is_lower_hex kid" "length sec = 43" "list_all is_secret_char sec"
  shows "parse_token (make_token r kid sec) = Some (r, kid, sec)"
  using parse_token_as_make [OF parse_token_tail_make [OF assms]]
  by (cases r) (simp_all add: parse_token_def)

lemma parse_token_role: "parse_token t = Some (r, kid, sec) \<Longrightarrow> startswith KEY_PREFIX t"
  by (auto simp: parse_token_def parse_token_as_def Let_def startswith_iff split: option.splits if_splits)

section \<open>The JSON form reads back\<close>

lemma py_str_JStr [simp]: "py_str (JStr s) = s"
  by (simp add: py_str_def)

lemma role_of_role_value [simp]: "role_of_json (JStr (role_value r)) = Some r"
  by (cases r) (auto simp: role_of_json_def)

lemma all_strings_map_JStr [simp]: "all_strings (map JStr ss) = Some ss"
  by (induction ss) auto

text \<open>One record: reading back canonicalises its project, and fails only on a bad project.\<close>

definition reread_project :: "core_lib \<Rightarrow> key_record \<Rightarrow> key_record" where
  "reread_project core r = r\<lparr>project := map_option (canonical_project_key core) (project r)\<rparr>"

definition project_readable :: "core_lib \<Rightarrow> key_record \<Rightarrow> bool" where
  "project_readable core r =
     (\<forall>p. project r = Some p \<longrightarrow> names_a_project core p \<and> \<not> hides_a_character core p)"

lemma item_of_fields [simp]:
  "map_of (item_of r) ''key_id'' = Some (JStr (key_id r))"
  "map_of (item_of r) ''principal'' = Some (JStr (principal r))"
  "map_of (item_of r) ''role'' = Some (JStr (role_value (krole r)))"
  "map_of (item_of r) ''created_at'' = Some (JStr (created_at r))"
  "map_of (item_of r) ''digest'' = Some (JStr (digest r))"
  "map_of (item_of r) ''reserved_ok'' = Some (JBool (reserved_ok r))"
  "get_or_none (item_of r) ''project'' = json_of_option (project r)"
  "get_or_none (item_of r) ''label'' = label r"
  "get_or_none (item_of r) ''revoked_at'' = revoked_at r"
  by (simp_all add: item_of_def get_or_none_def)

lemma parse_roots_item_of [simp]:
  "parse_roots (item_of r) ''memory_roots'' = Some (memory_roots r)"
  "parse_roots (item_of r) ''archive_roots'' = Some (archive_roots r)"
  by (simp_all add: item_of_def parse_roots_def get_or_none_def roots_field_def split: option.splits)

lemma parse_project_json_of_option:
  "parse_project core (json_of_option p) =
     (if \<forall>x. p = Some x \<longrightarrow> names_a_project core x \<and> \<not> hides_a_character core x
      then Some (map_option (canonical_project_key core) p) else None)"
  by (cases p) (auto simp: parse_project_def json_of_option_def)

lemma parse_record_item_of:
  "parse_record core (item_of r) =
     (if project_readable core r then Some (reread_project core r) else None)"
  by (auto simp: parse_record_def parse_reserved_ok_def parse_project_json_of_option project_readable_def
      reread_project_def)

lemma key_id_reread [simp]: "key_id (reread_project core r) = key_id r"
  by (simp add: reread_project_def)

lemma parse_items_items_of:
  "parse_items core out (map (\<lambda>r. JObj (item_of r)) rs) =
     (if \<forall>r \<in> set rs. project_readable core r
      then Some (foldl (\<lambda>d r. AList.update (key_id r) (reread_project core r) d) out rs) else None)"
  by (induction rs arbitrary: out) (auto simp: parse_record_item_of)

lemma foldl_update_absent:
  "k \<notin> key_id ` set rs \<Longrightarrow>
     map_of (foldl (\<lambda>d r. AList.update (key_id r) (reread_project core r) d) out rs) k = map_of out k"
  by (induction rs arbitrary: out) auto

lemma foldl_update_present:
  "distinct (map key_id rs) \<Longrightarrow> r \<in> set rs \<Longrightarrow>
     map_of (foldl (\<lambda>d r. AList.update (key_id r) (reread_project core r) d) out rs) (key_id r)
       = Some (reread_project core r)"
proof (induction rs arbitrary: out)
  case (Cons x rs)
  then show ?case
    by (cases "r = x") (auto simp: foldl_update_absent)
qed simp

text \<open>A dictionary as the module keeps it: every record under its own id.\<close>

definition dict_ok :: "(string, key_record) dict \<Rightarrow> bool" where
  "dict_ok d = (distinct (map fst d) \<and> (\<forall>(k, r) \<in> set d. key_id r = k))"

lemma dict_okD: "dict_ok d \<Longrightarrow> map_of d k = Some r \<Longrightarrow> key_id r = k"
  by (auto simp: dict_ok_def dest!: map_of_SomeD)

lemma in_set_update: "kv \<in> set (AList.update k v d) \<Longrightarrow> kv = (k, v) \<or> kv \<in> set d"
  by (induction d) (auto split: if_splits)

lemma dict_ok_update [inv_intros]: "dict_ok d \<Longrightarrow> dict_ok (AList.update (key_id r) r d)"
  by (auto simp: dict_ok_def dest!: in_set_update)

lemma dict_ok_values:
  assumes "dict_ok d"
  shows "distinct (map key_id (sort_key created_at (map snd d)))"
    and "r \<in> set (sort_key created_at (map snd d)) \<longleftrightarrow> map_of d (key_id r) = Some r"
proof -
  have keys: "map key_id (map snd d) = map fst d"
    using assms by (auto simp: dict_ok_def)
  have "mset (map key_id (sort_key created_at (map snd d))) = mset (map key_id (map snd d))"
    by (simp only: mset_map mset_sort)
  then show "distinct (map key_id (sort_key created_at (map snd d)))"
    using assms keys mset_eq_imp_distinct_iff by (metis dict_ok_def)
  show "r \<in> set (sort_key created_at (map snd d)) \<longleftrightarrow> map_of d (key_id r) = Some r"
    using assms by (force simp: dict_ok_def dest: map_of_SomeD intro: map_of_is_SomeI)
qed

lemma parse_serialise:
  assumes "dict_ok d"
  shows "parse_keys core (serialise d) \<noteq> None \<longleftrightarrow> (\<forall>r \<in> ran (map_of d). project_readable core r)"
    and "parse_keys core (serialise d) = Some d' \<Longrightarrow>
      map_of d' k = map_option (reread_project core) (map_of d k)"
proof -
  let ?rs = "sort_key created_at (map snd d)"
  have parsed: "parse_keys core (serialise d) =
      (if \<forall>r \<in> set ?rs. project_readable core r
       then Some (foldl (\<lambda>d r. AList.update (key_id r) (reread_project core r) d) [] ?rs) else None)"
    by (simp add: parse_keys_def serialise_def get_or_none_def equals_one_def py_iter_def
        parse_items_items_of del: set_sort)
  have ran: "ran (map_of d) = set ?rs"
    using dict_ok_values(2) [OF assms] dict_okD [OF assms] by (auto simp: ran_def)
  show "parse_keys core (serialise d) \<noteq> None \<longleftrightarrow> (\<forall>r \<in> ran (map_of d). project_readable core r)"
    unfolding parsed ran by simp
  show "map_of d' k = map_option (reread_project core) (map_of d k)"
    if some: "parse_keys core (serialise d) = Some d'"
  proof (cases "map_of d k")
    case None
    then have "k \<notin> key_id ` set ?rs"
      using dict_ok_values(2) [OF assms] by (metis imageE option.distinct(1))
    with some parsed None show ?thesis
      by (auto simp: foldl_update_absent simp del: set_sort split: if_splits)
  next
    case (Some r)
    then have "key_id r = k" "r \<in> set ?rs"
      using dict_ok_values(2) [OF assms] dict_okD [OF assms] by metis+
    with some parsed Some foldl_update_present [OF dict_ok_values(1) [OF assms], of r core "[]"]
    show ?thesis by (auto simp del: set_sort split: if_splits)
  qed
qed

lemma dict_ok_parse_items: "dict_ok out \<Longrightarrow> parse_items core out items = Some d \<Longrightarrow> dict_ok d"
  by (induction core out items rule: parse_items.induct)
    (auto split: json.splits option.splits intro: dict_ok_update)

lemma dict_ok_parse [inv_intros]: "parse_keys core data = Some d \<Longrightarrow> dict_ok d"
  using dict_ok_parse_items [of "[]" core _ d]
  by (auto simp: parse_keys_def bind_eq_Some_conv dict_ok_def split: json.splits if_splits)

section \<open>Roots\<close>

lemma split_on_chars: "p \<in> set (split_on c s) \<Longrightarrow> set p \<subseteq> set s"
  by (induction s arbitrary: p) (fastforce split: list.splits if_splits)+

lemma set_join_with: "set (join_with sep ps) \<subseteq> set sep \<union> (\<Union>p \<in> set ps. set p)"
  by (induction sep ps rule: join_with.induct) auto

definition good_segment :: "string \<Rightarrow> bool" where
  "good_segment seg = (seg \<notin> {[], ''.'', ''..''} \<and> CHR ''/'' \<notin> set seg \<and> \<not> list_ex is_control seg)"

lemma normalised_root_Inr:
  assumes "normalised_root raw = Inr root"
  obtains segments where "segments \<noteq> []" "root = ''/'' @ join_with ''/'' segments"
    "\<forall>seg \<in> set segments. good_segment seg"
proof -
  from assms obtain rest where raw: "raw = CHR ''/'' # rest"
    by (auto simp: normalised_root_def startswith_iff split: if_splits)
  define segments where "segments = (let s0 = split_on (CHR ''/'') rest in
    if last s0 = [] then butlast s0 else s0)"
  have sub: "set segments \<subseteq> set (split_on (CHR ''/'') rest)"
    by (auto simp: segments_def Let_def dest: in_set_butlastD)
  from assms raw have n: "\<not> list_ex is_control raw" "segments \<noteq> []"
    "\<not> list_ex (\<lambda>seg. seg \<in> {[], ''.'', ''..''}) segments" "root = ''/'' @ join_with ''/'' segments"
    by (auto simp: normalised_root_def segments_def Let_def split: if_splits)
  have "\<forall>seg \<in> set segments. good_segment seg"
    using sub n(1,3) raw split_on_chars split_on_parts_free
    by (fastforce simp: good_segment_def list_ex_iff)
  with n that show ?thesis by blast
qed

lemma normalised_root_good:
  assumes "segments \<noteq> []" "\<forall>seg \<in> set segments. good_segment seg"
  shows "normalised_root (''/'' @ join_with ''/'' segments) = Inr (''/'' @ join_with ''/'' segments)"
proof -
  have "split_on (CHR ''/'') (join_with ''/'' segments) = segments"
    using assms by (intro split_join) (auto simp: good_segment_def)
  moreover have "\<not> list_ex is_control (''/'' @ join_with ''/'' segments)"
    using assms(2) set_join_with [of "''/''" segments]
    by (fastforce simp: list_ex_iff good_segment_def is_control_def code_of_def)
  moreover have "last segments \<noteq> []" "\<not> list_ex (\<lambda>seg. seg \<in> {[], ''.'', ''..''}) segments"
    using assms last_in_set [OF assms(1)] by (auto simp: list_ex_iff good_segment_def)
  ultimately show ?thesis
    using assms(1) by (simp add: normalised_root_def startswith_def Let_def)
qed

lemma normalised_root_idem: "normalised_root raw = Inr root \<Longrightarrow> normalised_root root = Inr root"
  by (metis normalised_root_Inr normalised_root_good)

lemma add_roots_normal:
  "add_roots acc raws = Inr out \<Longrightarrow> \<forall>root \<in> set acc. normalised_root root = Inr root \<Longrightarrow>
     \<forall>root \<in> set out. normalised_root root = Inr root"
proof (induction acc raws rule: add_roots.induct)
  case (2 acc raw raws)
  from "2.prems"(1) obtain root where root: "normalised_root raw = Inr root"
    and rest: "add_roots (if root \<in> set acc then acc else acc @ [root]) raws = Inr out"
    by (auto split: sum.splits)
  from "2.prems"(2) normalised_root_idem [OF root] show ?case
    by (intro "2.IH" [OF root rest]) auto
qed simp

lemma add_roots_not_Nil: "add_roots acc raws = Inr out \<Longrightarrow> acc \<noteq> [] \<or> raws \<noteq> [] \<Longrightarrow> out \<noteq> []"
proof (induction acc raws rule: add_roots.induct)
  case (2 acc raw raws)
  from "2.prems"(1) obtain root where root: "normalised_root raw = Inr root"
    and rest: "add_roots (if root \<in> set acc then acc else acc @ [root]) raws = Inr out"
    by (auto split: sum.splits)
  show ?case by (rule "2.IH" [OF root rest]) (auto split: if_splits)
qed simp

lemma root_entries_refusal_None:
  "root_entries_refusal roots = None \<longleftrightarrow> (\<forall>root \<in> set roots. normalised_root root = Inr root)"
  by (induction roots) (auto split: sum.splits)

lemma mint_roots_accepted:
  assumes "mint_roots r p roots = Inr out" "krole rec = r" "strip (principal rec) = p"
  shows "roots_refusal rec out = None"
  using assms add_roots_normal [of "[]"] add_roots_not_Nil [of "[]"]
  by (fastforce simp: mint_roots_def roots_refusal_def root_entries_refusal_None
      split: option.splits sum.splits if_splits)

section \<open>A minted record passes the rules at lookup\<close>

lemma hd_prefix_not_space:
  assumes "t = [] \<or> \<not> py_isspace (hd t)"
  shows "rstrip t = [] \<or> \<not> py_isspace (hd (rstrip t))"
proof -
  have "t = rstrip t @ rev (takeWhile py_isspace (rev t))"
    unfolding rstrip_def by (metis rev_append rev_rev_ident takeWhile_dropWhile_id)
  with assms show ?thesis by (metis append_is_Nil_conv hd_append2)
qed

lemma strip_idem [simp]: "strip (strip s) = strip s"
proof -
  have "lstrip s = [] \<or> \<not> py_isspace (hd (lstrip s))"
    using hd_dropWhile [of py_isspace s] by (auto simp: lstrip_def)
  then have "lstrip (strip s) = strip s"
    using hd_prefix_not_space by (simp add: strip_def lstrip_def dropWhile_fixed)
  moreover have "rstrip (rstrip t) = rstrip t" for t
    by (simp add: rstrip_def)
  ultimately show ?thesis by (simp add: strip_def)
qed

lemma minted_record_passes:
  assumes "check_mint core cfg (krole r) (principal r) (project r) reserved = None"
    and "strip (principal r) = principal r"
    and "mint_roots (krole r) (principal r) mem = Inr (memory_roots r)"
    and "mint_roots (krole r) (principal r) arch = Inr (archive_roots r)"
  shows "record_rule_refusal cfg r = None"
proof -
  let ?p = "strip (principal r)"
  have mint: "?p \<noteq> []" "krole r = OPERATOR \<Longrightarrow> ?p = operator_identity cfg"
    "krole r \<noteq> OPERATOR \<Longrightarrow> ?p \<notin> {operator_identity cfg, ''operator''}" "?p \<noteq> ''api-user''"
    "project r = None \<or> krole r = AGENT"
    using assms(1) by (simp_all add: check_mint_def Let_def split: if_splits option.splits)
  have roots: "roots_refusal r (memory_roots r) = None" "roots_refusal r (archive_roots r) = None"
    using mint_roots_accepted [OF assms(3) refl assms(2)] mint_roots_accepted [OF assms(4) refl assms(2)]
    by simp_all
  show ?thesis
    using mint assms(2) roots by (cases "krole r") (simp_all add: record_rule_refusal_def Let_def)
qed

end
