(* ===== verification/Operator_Only.thy ===== *)
theory Operator_Only
  imports Py_Prelude
begin

text \<open>
  \<^verbatim>\<open>particles/corpus/operator_only.py\<close>: whether a file is one only the operator can write.
  \<open>gather_write_facts\<close> resolves a name component by component and records a node for the file,
  its sidecars and every directory met; \<open>judge_write_facts\<close> decides from those records alone.

  The operating system is a parameter, the record \<open>fs_world\<close>: what \<^verbatim>\<open>lstat\<close>, \<^verbatim>\<open>readlink\<close> and
  \<^verbatim>\<open>open\<close> answer at each path, and \<^verbatim>\<open>is_broad_root\<close> of the configuration package. A path is the
  list of its components from the root, so \<^verbatim>\<open>Path.parent\<close> is \<^const>\<open>butlast\<close>; mode bits are a
  \<^typ>\<open>32 word\<close>. The theorems: the resolution terminates and records exactly the directories and links a
  resolution by single steps meets, every such directory outside a broad root is judged, and the judge answers
  \<^const>\<open>None\<close> exactly when the abstract property \<open>operator_only\<close> holds of the facts.
\<close>

unbundle bit_operations_syntax

type_synonym path = "string list"

section \<open>Facts\<close>

definition WRITABLE_BY_OTHERS :: "32 word" where
  "WRITABLE_BY_OTHERS = 0x10 OR 0x02" \<comment> \<open>\<^verbatim>\<open>S_IWGRP | S_IWOTH\<close>\<close>

definition ACL_WRITE_PERMS :: "string list" where
  "ACL_WRITE_PERMS = [''write'', ''append'', ''delete_child'', ''writesecurity'', ''chown'']"

definition MNT_IGNORE_OWNERSHIP :: "32 word" where
  "MNT_IGNORE_OWNERSHIP = 0x00200000"

definition S_ISVTX :: "32 word" where
  "S_ISVTX = 0x200"

datatype acl_state = ACL_NONE | ACL_TEXT | ACL_UNREADABLE | ACL_UNAVAILABLE

record node_facts =
  node_path :: path
  node_exists :: bool
  node_opened :: bool
  node_uid :: "int option"
  node_mode :: "32 word option"
  node_acl :: acl_state
  node_acl_text :: string
  node_owners_ignored :: bool

record link_facts =
  link_path :: path
  link_uid :: "int option"

record write_facts =
  wf_file :: node_facts
  wf_sidecars :: "node_facts list"
  wf_holding :: node_facts
  wf_above :: "node_facts list"
  wf_named :: "node_facts list"
  wf_links :: "link_facts list"

datatype exposure_kind = FILE_NOT_OWNED | FILE_WRITABLE | FILE_UNJUDGEABLE | PLACE_OPEN

record exposure =
  ex_kind :: exposure_kind
  ex_at :: path
  ex_sidecar :: bool
  ex_owner :: "int option"
  ex_no_uid :: bool
  ex_owners_ignored :: bool

section \<open>The operating system's answers\<close>

text \<open>What the C library's ACL calls did on a descriptor, on a host that has them.\<close>

datatype acl_call =
    NO_LIBRARY
  | GET_FAILED bool \<comment> \<open>whether \<^verbatim>\<open>errno\<close> is one of \<^verbatim>\<open>_NO_ACL_ERRNOS\<close>\<close>
  | TO_TEXT_FAILED
  | PRINTED string

record fd_facts =
  fd_uid :: int
  fd_mode :: "32 word"
  fd_acl :: acl_call
  fd_volume_flags :: "32 word option" \<comment> \<open>\<^verbatim>\<open>volume_statfs\<close>; \<^const>\<open>None\<close> when it cannot be read\<close>

datatype open_outcome =
    NOT_FOUND
  | OPEN_FAILED
  | OPENED "fd_facts option" \<comment> \<open>\<^const>\<open>None\<close> when \<^verbatim>\<open>fstat\<close> raises\<close>

record lstat_facts =
  ls_is_link :: bool
  ls_uid :: int
  ls_mode :: "32 word"

record fs_world =
  fs_darwin :: bool
  fs_cwd :: path
  fs_lstat :: "path \<Rightarrow> lstat_facts option"
  fs_readlink :: "path \<Rightarrow> bool \<times> string list" \<comment> \<open>whether the target is absolute, its parts\<close>
  fs_open :: "path \<Rightarrow> bool \<Rightarrow> open_outcome" \<comment> \<open>the flag asks for a directory\<close>
  fs_broad_root :: "path \<Rightarrow> bool"

section \<open>ACLs and volumes\<close>

fun read_acl :: "bool \<Rightarrow> acl_call \<Rightarrow> acl_state \<times> string" where
  "read_acl darwin call =
     (if \<not> darwin then (ACL_NONE, [])
      else case call of
        NO_LIBRARY \<Rightarrow> (ACL_UNAVAILABLE, [])
      | GET_FAILED no_acl \<Rightarrow> (if no_acl then (ACL_NONE, []) else (ACL_UNREADABLE, []))
      | TO_TEXT_FAILED \<Rightarrow> (ACL_UNREADABLE, [])
      | PRINTED text \<Rightarrow> (ACL_TEXT, text))"

definition acl_line_grants_write :: "string \<Rightarrow> int \<Rightarrow> bool" where
  "acl_line_grants_write line owner_uid =
     (let fields = split_on (CHR '':'') line; n = length fields in
      if n < 6 then False
      else
        let kind_flags = split_on (CHR '','') (fields ! (n - 2)); kind = hd kind_flags; flags = tl kind_flags
        in if kind \<noteq> ''allow'' \<or> ''only_inherit'' \<in> set flags then False
           else if fields ! 0 = ''user'' \<and> fields ! 3 = show_int owner_uid then False
           else list_ex (\<lambda>perm. perm \<in> set (split_on (CHR '','') (fields ! (n - 1)))) ACL_WRITE_PERMS)"

definition acl_grants_write :: "node_facts \<Rightarrow> bool" where
  "acl_grants_write node =
     (case node_acl node of
        ACL_NONE \<Rightarrow> False
      | ACL_TEXT \<Rightarrow>
          (case node_uid node of
             None \<Rightarrow> True
           | Some uid \<Rightarrow>
               list_ex (\<lambda>line. acl_line_grants_write line uid) (tl (splitlines (node_acl_text node))))
      | _ \<Rightarrow> True)"

definition acl_lets_others_write :: "bool \<Rightarrow> acl_call \<Rightarrow> int \<Rightarrow> bool" where
  "acl_lets_others_write darwin call owner_uid =
     (case read_acl darwin call of (st, text) \<Rightarrow>
        acl_grants_write
          \<lparr>node_path = [], node_exists = True, node_opened = True, node_uid = Some owner_uid,
           node_mode = Some 0, node_acl = st, node_acl_text = text, node_owners_ignored = False\<rparr>)"

definition ownership_ignored :: "bool \<Rightarrow> fd_facts \<Rightarrow> bool" where
  "ownership_ignored darwin fd =
     (if \<not> darwin then False
      else case fd_volume_flags fd of
             None \<Rightarrow> True
           | Some flags \<Rightarrow> flags AND MNT_IGNORE_OWNERSHIP \<noteq> 0)"

section \<open>Gather\<close>

definition bare_node :: "path \<Rightarrow> bool \<Rightarrow> node_facts" where
  "bare_node p ex =
     \<lparr>node_path = p, node_exists = ex, node_opened = False, node_uid = None, node_mode = None,
      node_acl = ACL_NONE, node_acl_text = [], node_owners_ignored = False\<rparr>"

definition node_from_fd :: "bool \<Rightarrow> path \<Rightarrow> fd_facts \<Rightarrow> node_facts" where
  "node_from_fd darwin p fd =
     (case read_acl darwin (fd_acl fd) of (st, text) \<Rightarrow>
        \<lparr>node_path = p, node_exists = True, node_opened = True, node_uid = Some (fd_uid fd),
         node_mode = Some (fd_mode fd), node_acl = st, node_acl_text = text,
         node_owners_ignored = ownership_ignored darwin fd\<rparr>)"

definition node_at :: "fs_world \<Rightarrow> path \<Rightarrow> bool \<Rightarrow> node_facts" where
  "node_at w p directory =
     (case fs_open w p directory of
        NOT_FOUND \<Rightarrow> bare_node p False
      | OPEN_FAILED \<Rightarrow>
          (case fs_lstat w p of
             None \<Rightarrow> bare_node p True
           | Some st \<Rightarrow> (bare_node p True)\<lparr>node_uid := Some (ls_uid st), node_mode := Some (ls_mode st)\<rparr>)
      | OPENED None \<Rightarrow> bare_node p True
      | OPENED (Some fd) \<Rightarrow> node_from_fd (fs_darwin w) p fd)"

definition MAX_SYMLINK_HOPS :: nat where
  "MAX_SYMLINK_HOPS = 40"

record lookup =
  lk_resolved :: path
  lk_looked :: "path list"
  lk_named :: "path list"
  lk_links :: "link_facts list"

definition add_once :: "'a \<Rightarrow> 'a list \<Rightarrow> 'a list" where
  "add_once x xs = (if x \<in> set xs then xs else xs @ [x])"

text \<open>Each component carries whether it names the file itself: the last one does.\<close>

definition mark_final :: "bool \<Rightarrow> string list \<Rightarrow> (string \<times> bool) list" where
  "mark_final final parts = map (\<lambda>i. (parts ! i, final \<and> i = length parts - 1)) [0..<length parts]"

function lookup_walk ::
  "fs_world \<Rightarrow> path \<Rightarrow> (string \<times> bool) list \<Rightarrow> path list \<Rightarrow> path list \<Rightarrow> link_facts list \<Rightarrow> nat \<Rightarrow> lookup"
where
  "lookup_walk w current [] looked named links hops =
     \<lparr>lk_resolved = current, lk_looked = looked, lk_named = named, lk_links = links\<rparr>"
| "lookup_walk w current ((name, final) # pending) looked named links hops =
     (if name = [] \<or> name = ''.'' then lookup_walk w current pending looked named links hops
      else if name = ''..'' then lookup_walk w (butlast current) pending looked named links hops
      else
        let looked' = add_once current looked;
            named' = (if final then add_once current named else named);
            candidate = current @ [name];
            rest = candidate @ map fst pending
        in case fs_lstat w candidate of
             None \<Rightarrow> \<lparr>lk_resolved = rest, lk_looked = looked', lk_named = named', lk_links = links\<rparr>
           | Some st \<Rightarrow>
               if ls_is_link st then
                 let links' = links @ [\<lparr>link_path = candidate, link_uid = Some (ls_uid st)\<rparr>]
                 in if hops + 1 > MAX_SYMLINK_HOPS then
                      \<lparr>lk_resolved = rest, lk_looked = looked', lk_named = named', lk_links = links'\<rparr>
                    else
                      (case fs_readlink w candidate of (absolute, inner) \<Rightarrow>
                         lookup_walk w (if absolute then [] else current)
                           (mark_final final inner @ pending) looked' named' links' (hops + 1))
               else lookup_walk w candidate pending looked' named' links hops)"
  by pat_completeness auto
termination
  by (relation "measures [\<lambda>(w, c, pending, l, n, k, hops). Suc MAX_SYMLINK_HOPS - hops,
        \<lambda>(w, c, pending, l, n, k, hops). length pending]") (auto simp: MAX_SYMLINK_HOPS_def)

definition lookup_directories :: "fs_world \<Rightarrow> bool \<Rightarrow> path \<Rightarrow> lookup" where
  "lookup_directories w absolute p =
     (let parts = (if absolute then p else fs_cwd w @ p)
      in lookup_walk w [] (mark_final True parts) [] [] [] 0)"

definition lexists :: "fs_world \<Rightarrow> path \<Rightarrow> bool" where
  "lexists w p = (fs_lstat w p \<noteq> None)"

function nearest_existing :: "fs_world \<Rightarrow> path \<Rightarrow> path" where
  "nearest_existing w p = (if lexists w p \<or> p = [] then p else nearest_existing w (butlast p))"
  by pat_completeness auto
termination
  by (relation "measure (\<lambda>(w, p). length p)") auto

declare nearest_existing.simps [simp del]

text \<open>\<^verbatim>\<open>Path.parents\<close>: the proper ancestors, nearest first.\<close>

definition parents :: "path \<Rightarrow> path list" where
  "parents p = map (\<lambda>k. take k p) (rev [0..<length p])"

fun append_unmet :: "(path \<Rightarrow> bool) \<Rightarrow> path list \<Rightarrow> path list \<Rightarrow> path list" where
  "append_unmet P met [] = met"
| "append_unmet P met (d # ds) =
     append_unmet P (if P d \<and> d \<notin> set met then met @ [d] else met) ds"

text \<open>
  The directories \<^verbatim>\<open>gather_write_facts\<close> records: the one that holds the resolved file, those where
  a name for the file itself was looked up, and the rest, the file's own ancestors first.
\<close>

definition place_dirs :: "fs_world \<Rightarrow> lookup \<Rightarrow> path \<Rightarrow> path \<times> path list \<times> path list" where
  "place_dirs w lk real =
     (let holding = nearest_existing w (butlast real);
          named = filter (\<lambda>d. d \<noteq> holding \<and> \<not> fs_broad_root w d) (lk_named lk);
          ancestors = filter (\<lambda>d. d \<notin> set named)
                        (takeWhile (\<lambda>d. \<not> fs_broad_root w d) (parents holding));
          higher = append_unmet (\<lambda>d. d \<noteq> holding \<and> d \<notin> set named \<and> \<not> fs_broad_root w d)
                     ancestors (lk_looked lk)
      in (holding, named, higher))"

datatype path_error = ValueError

text \<open>
  \<^verbatim>\<open>Path.with_name\<close> raises at the root, which has no name; only a call that names sidecars
  makes it. \<open>resolved\<close> and \<open>fd\<close> are the caller's own descriptor and its path, when it holds one.
\<close>

definition gather_write_facts ::
  "fs_world \<Rightarrow> bool \<Rightarrow> path \<Rightarrow> string list \<Rightarrow> fd_facts option option \<Rightarrow> path option
     \<Rightarrow> path_error + write_facts"
where
  "gather_write_facts w absolute p sidecars fd resolved =
     (let lk = lookup_directories w absolute p;
          real = (case resolved of Some r \<Rightarrow> r | None \<Rightarrow> lk_resolved lk);
          file = (case fd of
                    Some (Some d) \<Rightarrow> node_from_fd (fs_darwin w) real d
                  | Some None \<Rightarrow> bare_node real True
                  | None \<Rightarrow> node_at w real False)
      in if sidecars \<noteq> [] \<and> real = [] then Inl ValueError
         else
           let sides = map (\<lambda>suffix. node_at w (butlast real @ [last real @ suffix]) False) sidecars
           in case place_dirs w lk real of (holding, named, higher) \<Rightarrow>
             Inr \<lparr>wf_file = file, wf_sidecars = sides, wf_holding = node_at w holding True,
                wf_above = map (\<lambda>d. node_at w d True) higher,
                wf_named = map (\<lambda>d. node_at w d True) named,
                wf_links = filter (\<lambda>l. \<not> fs_broad_root w (butlast (link_path l))) (lk_links lk)\<rparr>)"

section \<open>Judge\<close>

definition exposure_at :: "exposure_kind \<Rightarrow> path \<Rightarrow> exposure" where
  "exposure_at k p =
     \<lparr>ex_kind = k, ex_at = p, ex_sidecar = False, ex_owner = None, ex_no_uid = False,
      ex_owners_ignored = False\<rparr>"

definition judge_file :: "node_facts \<Rightarrow> int option \<Rightarrow> bool \<Rightarrow> exposure option" where
  "judge_file node operator_uid sidecar =
     (let found = (\<lambda>k. (exposure_at k (node_path node))\<lparr>ex_sidecar := sidecar, ex_owner := node_uid node\<rparr>)
      in if operator_uid \<noteq> None \<and> node_uid node \<noteq> None \<and> node_uid node \<noteq> operator_uid
         then Some (found FILE_NOT_OWNED)
         else if \<not> node_opened node then Some (found FILE_UNJUDGEABLE)
         else if node_owners_ignored node then Some ((found FILE_UNJUDGEABLE)\<lparr>ex_owners_ignored := True\<rparr>)
         else if (case node_mode node of None \<Rightarrow> 0 | Some m \<Rightarrow> m) AND WRITABLE_BY_OTHERS \<noteq> 0
                 \<or> acl_grants_write node
         then Some (found FILE_WRITABLE)
         else None)"

definition directory_open :: "node_facts \<Rightarrow> int \<Rightarrow> bool \<Rightarrow> bool" where
  "directory_open node operator_uid sticky_closes =
     (case node_mode node of
        None \<Rightarrow> True
      | Some mode \<Rightarrow>
          if \<not> node_opened node \<or> node_owners_ignored node then True
          else if node_uid node \<notin> {Some operator_uid, Some 0} then True
          else
            let sticky = (sticky_closes \<and> mode AND S_ISVTX \<noteq> 0)
            in if mode AND WRITABLE_BY_OTHERS \<noteq> 0 \<and> \<not> sticky then True
               else acl_grants_write node)"

fun first_exposure :: "('a \<Rightarrow> exposure option) \<Rightarrow> 'a list \<Rightarrow> exposure option" where
  "first_exposure f [] = None"
| "first_exposure f (x # xs) = (case f x of Some e \<Rightarrow> Some e | None \<Rightarrow> first_exposure f xs)"

definition judge_write_facts :: "write_facts \<Rightarrow> int option \<Rightarrow> bool \<Rightarrow> exposure option" where
  "judge_write_facts facts operator_uid named_ahead =
     (case operator_uid of
        None \<Rightarrow> Some ((exposure_at FILE_UNJUDGEABLE (node_path (wf_file facts)))\<lparr>ex_no_uid := True\<rparr>)
      | Some op \<Rightarrow> first_some
          [if node_exists (wf_file facts) then judge_file (wf_file facts) operator_uid False else None,
           first_exposure (\<lambda>side. if node_exists side then judge_file side operator_uid True else None)
             (wf_sidecars facts),
           first_exposure (\<lambda>node. if directory_open node op (\<not> named_ahead)
                                 then Some (exposure_at PLACE_OPEN (node_path node)) else None)
             (wf_holding facts # wf_named facts),
           first_exposure (\<lambda>link. if link_uid link \<notin> {Some op, Some 0}
                                 then Some (exposure_at PLACE_OPEN (butlast (link_path link))) else None)
             (wf_links facts),
           first_exposure (\<lambda>node. if directory_open node op True
                                 then Some (exposure_at PLACE_OPEN (node_path node)) else None)
             (wf_above facts)])"

definition writable_only_by_operator ::
  "fs_world \<Rightarrow> bool \<Rightarrow> path \<Rightarrow> bool \<Rightarrow> int option \<Rightarrow> string list \<Rightarrow> fd_facts option option \<Rightarrow> path option
     \<Rightarrow> path_error + exposure option"
where
  "writable_only_by_operator w absolute p named_ahead operator_uid sidecars fd resolved =
     (case gather_write_facts w absolute p sidecars fd resolved of
        Inl e \<Rightarrow> Inl e
      | Inr facts \<Rightarrow> Inr (judge_write_facts facts operator_uid named_ahead))"

section \<open>The resolution\<close>

lemma set_add_once [simp]: "set (add_once x xs) = insert x (set xs)"
  by (auto simp: add_once_def)

lemma distinct_add_once [simp]: "distinct (add_once x xs) = distinct xs"
  by (auto simp: add_once_def)

text \<open>What the walk keeps: names were looked up only where a lookup was recorded, and so were links.\<close>

definition lookup_inv :: "lookup \<Rightarrow> bool" where
  "lookup_inv lk =
     (distinct (lk_looked lk) \<and> distinct (lk_named lk) \<and> set (lk_named lk) \<subseteq> set (lk_looked lk) \<and>
      (\<forall>l \<in> set (lk_links lk). butlast (link_path l) \<in> set (lk_looked lk) \<and> link_uid l \<noteq> None) \<and>
      length (lk_links lk) \<le> Suc MAX_SYMLINK_HOPS)"

lemma lookup_walk_inv [inv_intros]:
  assumes "distinct looked" "distinct named" "set named \<subseteq> set looked" "length links \<le> hops" "hops \<le> MAX_SYMLINK_HOPS"
    and "\<forall>l \<in> set links. butlast (link_path l) \<in> set looked \<and> link_uid l \<noteq> None"
  shows "lookup_inv (lookup_walk w current pending looked named links hops)"
  using assms
proof (induction w current pending looked named links hops rule: lookup_walk.induct)
  case (1 w current looked named links hops)
  then show ?case by (simp add: lookup_inv_def)
next
  case (2 w current name final pending looked named links hops)
  note IH = "2.IH" and prems = "2.prems"
  consider (skip) "name = [] \<or> name = ''.''" | (up) "name = ''..''"
    | (name) "name \<noteq> []" "name \<noteq> ''.''" "name \<noteq> ''..''" by blast
  then show ?case
  proof cases
    case skip
    with IH(1) prems show ?thesis by simp
  next
    case up
    with IH(2) prems show ?thesis by simp
  next
    case name
    have sub: "set named \<subseteq> insert current (set looked)" using prems(3) by blast
    show ?thesis
    proof (cases "fs_lstat w (current @ [name])")
      case None
      with name prems sub show ?thesis by (auto simp: lookup_inv_def Let_def)
    next
      case (Some st)
      show ?thesis
      proof (cases "ls_is_link st \<and> \<not> hops + 1 > MAX_SYMLINK_HOPS")
        case True
        obtain a inner where rl: "fs_readlink w (current @ [name]) = (a, inner)" by force
        have "lookup_inv (lookup_walk w (if a then [] else current) (mark_final final inner @ pending)
          (add_once current looked) (if final then add_once current named else named)
          (links @ [\<lparr>link_path = current @ [name], link_uid = Some (ls_uid st)\<rparr>]) (hops + 1))"
          by (rule IH(3)[OF _ _ refl refl refl refl Some _ refl _ rl[symmetric]])
            (use name True prems sub in auto)
        with name Some True rl show ?thesis by (simp add: Let_def)
      next
        case no_follow: False
        show ?thesis
        proof (cases "ls_is_link st")
          case True
          with name Some no_follow prems sub show ?thesis by (auto simp: lookup_inv_def Let_def)
        next
          case False
          have "lookup_inv (lookup_walk w (current @ [name]) pending (add_once current looked)
            (if final then add_once current named else named) links hops)"
            by (rule IH(4)[OF _ _ refl refl refl refl Some]) (use name False prems sub in auto)
          with name Some False show ?thesis by (simp add: Let_def)
        qed
      qed
    qed
  qed
qed

lemma lookup_directories_inv: "lookup_inv (lookup_directories w absolute p)"
  unfolding lookup_directories_def Let_def by (rule lookup_walk_inv) auto

text \<open>
  Resolution as the kernel does it, one component at a time: a state is the directory reached, the components still to
  come (each with whether it stands for the file) and the links followed. The steps record nothing; what a
  resolution meets is read off the states it goes through.
\<close>

type_synonym walk_state = "path \<times> (string \<times> bool) list \<times> nat"

definition proper_name :: "string \<Rightarrow> bool" where
  "proper_name name = (name \<notin> {[], ''.'', ''..''})"

inductive resolve_step :: "fs_world \<Rightarrow> walk_state \<Rightarrow> walk_state \<Rightarrow> bool" for w :: fs_world
where
  stay: "name \<in> {[], ''.''} \<Longrightarrow> resolve_step w (cur, (name, fin) # rest, n) (cur, rest, n)"
| up: "resolve_step w (cur, (''..'', fin) # rest, n) (butlast cur, rest, n)"
| enter: "proper_name name \<Longrightarrow> fs_lstat w (cur @ [name]) = Some st \<Longrightarrow> \<not> ls_is_link st \<Longrightarrow>
    resolve_step w (cur, (name, fin) # rest, n) (cur @ [name], rest, n)"
| follow: "proper_name name \<Longrightarrow> fs_lstat w (cur @ [name]) = Some st \<Longrightarrow> ls_is_link st \<Longrightarrow> n < 40 \<Longrightarrow>
    fs_readlink w (cur @ [name]) = (a, inner) \<Longrightarrow>
    resolve_step w (cur, (name, fin) # rest, n) (if a then [] else cur, mark_final fin inner @ rest, Suc n)"

inductive_simps resolve_step_simps: "resolve_step w (cur, (name, fin) # rest, n) s'" "resolve_step w (cur, [], n) s'"

definition meets :: "fs_world \<Rightarrow> (walk_state \<Rightarrow> 'a set) \<Rightarrow> walk_state \<Rightarrow> 'a set" where
  "meets w what s = (\<Union>t \<in> {t. (resolve_step w)\<^sup>*\<^sup>* s t}. what t)"

text \<open>What there is to meet in a state: the directory a name is looked up in, the same for the file's own name, a link.\<close>

fun looked_at :: "walk_state \<Rightarrow> path set" where
  "looked_at (cur, (name, fin) # rest, n) = (if proper_name name then {cur} else {})"
| "looked_at (cur, [], n) = {}"

fun named_at :: "walk_state \<Rightarrow> path set" where
  "named_at (cur, (name, fin) # rest, n) = (if proper_name name \<and> fin then {cur} else {})"
| "named_at (cur, [], n) = {}"

fun link_at :: "fs_world \<Rightarrow> walk_state \<Rightarrow> link_facts set" where
  "link_at w (cur, (name, fin) # rest, n) =
     (case fs_lstat w (cur @ [name]) of
        None \<Rightarrow> {}
      | Some st \<Rightarrow> if proper_name name \<and> ls_is_link st
                   then {\<lparr>link_path = cur @ [name], link_uid = Some (ls_uid st)\<rparr>} else {})"
| "link_at w (cur, [], n) = {}"

lemma resolve_step_det: "resolve_step w s t \<Longrightarrow> resolve_step w s u \<Longrightarrow> t = u"
  by (induction rule: resolve_step.induct) (auto simp: resolve_step_simps proper_name_def)

lemma meets_step:
  assumes "resolve_step w s s'"
  shows "meets w what s = what s \<union> meets w what s'"
proof -
  have "(resolve_step w)\<^sup>*\<^sup>* s t \<longleftrightarrow> t = s \<or> (resolve_step w)\<^sup>*\<^sup>* s' t" for t
    using assms resolve_step_det by (metis converse_rtranclpE converse_rtranclp_into_rtranclp rtranclp.rtrancl_refl)
  then show ?thesis by (auto simp: meets_def)
qed

lemma meets_stuck: "\<nexists>t. resolve_step w s t \<Longrightarrow> meets w what s = what s"
  by (auto simp: meets_def elim: converse_rtranclpE)

text \<open>What a record says of the resolution from a state on, given what had been recorded before.\<close>

definition walk_spec ::
  "fs_world \<Rightarrow> walk_state \<Rightarrow> path set \<Rightarrow> path set \<Rightarrow> link_facts set \<Rightarrow> nat \<Rightarrow> lookup \<Rightarrow> bool" where
  "walk_spec w s looked named links count lk =
     (set (lk_looked lk) = looked \<union> meets w looked_at s \<and> set (lk_named lk) = named \<union> meets w named_at s \<and>
      set (lk_links lk) = links \<union> meets w (link_at w) s \<and>
      (\<exists>cur rest n. (resolve_step w)\<^sup>*\<^sup>* s (cur, rest, n) \<and> (\<nexists>t. resolve_step w (cur, rest, n) t) \<and> n \<le> 40 \<and>
         lk_resolved lk = cur @ map fst rest \<and>
         length (lk_links lk) + snd (snd s) = count + n + card (link_at w (cur, rest, n))))"

lemma walk_spec_step:
  assumes "resolve_step w s s'"
    and "walk_spec w s' (looked \<union> looked_at s) (named \<union> named_at s) (links \<union> link_at w s) count' lk"
    and "count' + snd (snd s) = count + snd (snd s')"
  shows "walk_spec w s looked named links count lk"
proof -
  from assms(2) obtain cur rest n where t: "(resolve_step w)\<^sup>*\<^sup>* s' (cur, rest, n)" "\<nexists>t. resolve_step w (cur, rest, n) t" "n \<le> 40"
      "lk_resolved lk = cur @ map fst rest"
      "length (lk_links lk) + snd (snd s') = count' + n + card (link_at w (cur, rest, n))"
    unfolding walk_spec_def by blast
  have "length (lk_links lk) + snd (snd s) = count + n + card (link_at w (cur, rest, n))"
    using t(5) assms(3) by linarith
  moreover have "(resolve_step w)\<^sup>*\<^sup>* s (cur, rest, n)" using assms(1) t(1) by (rule converse_rtranclp_into_rtranclp)
  ultimately show ?thesis
    using assms(2) t(2-4) unfolding walk_spec_def meets_step [OF assms(1)] by blast
qed

lemma walk_spec_stuck:
  assumes "\<nexists>t. resolve_step w (cur, rest, n) t" "n \<le> 40"
    and "lk = \<lparr>lk_resolved = cur @ map fst rest, lk_looked = ls, lk_named = ns, lk_links = ks\<rparr>"
    and "set ls = looked \<union> looked_at (cur, rest, n)" "set ns = named \<union> named_at (cur, rest, n)"
    and "set ks = links \<union> link_at w (cur, rest, n)" "length ks = count + card (link_at w (cur, rest, n))"
  shows "walk_spec w (cur, rest, n) looked named links count lk"
  unfolding walk_spec_def meets_stuck [OF assms(1)] using assms
  by (intro conjI exI [of _ cur] exI [of _ rest] exI [of _ n]) simp_all

lemma lookup_walk_spec:
  assumes "hops \<le> 40"
  shows "walk_spec w (current, pending, hops) (set looked) (set named) (set links) (length links)
           (lookup_walk w current pending looked named links hops)"
  using assms
proof (induction w current pending looked named links hops rule: lookup_walk.induct)
  case (1 w current looked named links hops)
  then show ?case by (intro walk_spec_stuck) (simp_all add: resolve_step_simps)
next
  case (2 w current name final pending looked named links hops)
  note IH = "2.IH" and hops = "2.prems"
  let ?s = "(current, (name, final) # pending, hops)"
  consider (skip) "name \<in> {[], ''.''}" | (up) "name = ''..''" | (name) "proper_name name" by (auto simp: proper_name_def)
  then show ?case
  proof cases
    case skip
    have "walk_spec w (current, pending, hops) (set looked) (set named) (set links) (length links)
        (lookup_walk w current pending looked named links hops)" using IH(1) skip hops by auto
    then show ?thesis
      using skip by (intro walk_spec_step [OF stay [OF skip]]) (auto simp: proper_name_def split: option.splits)
  next
    case up
    have "walk_spec w (butlast current, pending, hops) (set looked) (set named) (set links) (length links)
        (lookup_walk w (butlast current) pending looked named links hops)" using IH(2) up hops by auto
    then show ?thesis
      unfolding up by (intro walk_spec_step [OF resolve_step.up]) (auto simp: proper_name_def split: option.splits)
  next
    case name
    then have proper: "name \<noteq> []" "name \<noteq> ''.''" "name \<noteq> ''..''" by (auto simp: proper_name_def)
    show ?thesis
    proof (cases "fs_lstat w (current @ [name])")
      case None
      then show ?thesis
        using name proper hops by (intro walk_spec_stuck) (auto simp: resolve_step_simps Let_def)
    next
      case (Some st)
      consider (entered) "\<not> ls_is_link st" | (followed) "ls_is_link st" "hops < 40" | (stopped) "ls_is_link st" "hops = 40"
        using hops by linarith
      then show ?thesis
      proof cases
        case entered
        have "walk_spec w (current @ [name], pending, hops) (set (add_once current looked))
            (set (if final then add_once current named else named)) (set links) (length links)
            (lookup_walk w (current @ [name]) pending (add_once current looked)
              (if final then add_once current named else named) links hops)"
          by (rule IH(4) [OF _ _ refl refl refl refl Some]) (use proper entered hops in auto)
        then show ?thesis
          using name proper entered Some
          by (intro walk_spec_step [OF enter [OF name Some entered]]) (simp_all add: Let_def split: if_splits)
      next
        case followed
        obtain a inner where rl: "fs_readlink w (current @ [name]) = (a, inner)" by force
        let ?links = "links @ [\<lparr>link_path = current @ [name], link_uid = Some (ls_uid st)\<rparr>]"
        have "walk_spec w (if a then [] else current, mark_final final inner @ pending, hops + 1) (set (add_once current looked))
            (set (if final then add_once current named else named)) (set ?links) (length ?links)
            (lookup_walk w (if a then [] else current) (mark_final final inner @ pending) (add_once current looked)
              (if final then add_once current named else named) ?links (hops + 1))"
          by (rule IH(3) [OF _ _ refl refl refl refl Some _ refl _ rl [symmetric]])
            (use proper followed hops in \<open>auto simp: MAX_SYMLINK_HOPS_def\<close>)
        then show ?thesis
          using name proper followed Some rl
          by (intro walk_spec_step [OF follow [OF name Some followed rl]])
            (simp_all add: Let_def MAX_SYMLINK_HOPS_def split: if_splits)
      next
        case stopped
        then show ?thesis
          using name proper Some by (intro walk_spec_stuck) (auto simp: resolve_step_simps Let_def MAX_SYMLINK_HOPS_def)
      qed
    qed
  qed
qed

section \<open>Every directory met is judged\<close>

lemma set_append_unmet:
  "set (append_unmet P met ds) = set met \<union> {d \<in> set ds. P d}"
  by (induction P met ds rule: append_unmet.induct) auto

lemma node_at_path [simp]: "node_path (node_at w p dir) = p"
  by (auto simp: node_at_def bare_node_def node_from_fd_def
      split: open_outcome.splits option.splits prod.splits)

text \<open>The directories the facts judge: the holding one, the named ones, those above.\<close>

definition judged_dirs :: "write_facts \<Rightarrow> path set" where
  "judged_dirs facts = node_path ` set (wf_holding facts # wf_named facts @ wf_above facts)"

lemma place_dirs_cover:
  assumes "place_dirs w lk real = (holding, named, higher)"
    and "d \<in> set (lk_looked lk)" and "\<not> fs_broad_root w d"
  shows "d \<in> insert holding (set named \<union> set higher)"
  using assms by (auto simp: place_dirs_def Let_def set_append_unmet)

lemma gather_judges_looked:
  assumes "gather_write_facts w absolute p sidecars fd resolved = Inr facts"
    and "d \<in> set (lk_looked (lookup_directories w absolute p))" and "\<not> fs_broad_root w d"
  shows "d \<in> judged_dirs facts"
proof -
  define lk where "lk = lookup_directories w absolute p"
  define real where "real = (case resolved of Some r \<Rightarrow> r | None \<Rightarrow> lk_resolved lk)"
  obtain holding named higher where pd: "place_dirs w lk real = (holding, named, higher)"
    by (cases "place_dirs w lk real") auto
  have "d \<in> insert holding (set named \<union> set higher)"
    using place_dirs_cover [OF pd] assms(2,3) by (simp add: lk_def)
  moreover have "wf_holding facts = node_at w holding True"
    "wf_named facts = map (\<lambda>d. node_at w d True) named"
    "wf_above facts = map (\<lambda>d. node_at w d True) higher"
    using assms(1) pd
    by (auto simp: gather_write_facts_def Let_def simp flip: lk_def real_def split: if_splits)
  then have "judged_dirs facts = insert holding (set named \<union> set higher)"
    by (simp add: judged_dirs_def image_Un image_image)
  ultimately show ?thesis by simp
qed

lemma gather_nodes:
  assumes "gather_write_facts w absolute p sidecars fd resolved = Inr facts"
    and "node \<in> set (wf_holding facts # wf_named facts @ wf_above facts)"
  shows "node = node_at w (node_path node) True"
  using assms by (auto simp: gather_write_facts_def Let_def split: if_splits prod.splits)

section \<open>The judge against its specification\<close>

text \<open>
  The property, as the module states it: the file and its sidecars are the operator's and no
  other user can change them; no user but the operator and root can change a directory the name
  resolves through, nor owns a symbolic link on the way.
\<close>

definition closed_file :: "int \<Rightarrow> node_facts \<Rightarrow> bool" where
  "closed_file op node =
     (node_opened node \<and> node_uid node \<in> {None, Some op} \<and> \<not> node_owners_ignored node \<and>
      (\<forall>m. node_mode node = Some m \<longrightarrow> m AND WRITABLE_BY_OTHERS = 0) \<and> \<not> acl_grants_write node)"

definition closed_directory :: "int \<Rightarrow> bool \<Rightarrow> node_facts \<Rightarrow> bool" where
  "closed_directory op sticky_closes node =
     (node_opened node \<and> node_uid node \<in> {Some op, Some 0} \<and> \<not> node_owners_ignored node \<and>
      \<not> acl_grants_write node \<and>
      (\<exists>m. node_mode node = Some m \<and>
         (m AND WRITABLE_BY_OTHERS = 0 \<or> sticky_closes \<and> m AND S_ISVTX \<noteq> 0)))"

definition operator_only :: "int \<Rightarrow> bool \<Rightarrow> write_facts \<Rightarrow> bool" where
  "operator_only op named_ahead facts =
     ((\<forall>node \<in> set (wf_file facts # wf_sidecars facts). node_exists node \<longrightarrow> closed_file op node) \<and>
      (\<forall>node \<in> set (wf_holding facts # wf_named facts). closed_directory op (\<not> named_ahead) node) \<and>
      (\<forall>l \<in> set (wf_links facts). link_uid l \<in> {Some op, Some 0}) \<and>
      (\<forall>node \<in> set (wf_above facts). closed_directory op True node))"

lemma first_exposure_None: "first_exposure f xs = None \<longleftrightarrow> (\<forall>x \<in> set xs. f x = None)"
  by (induction xs) (auto split: option.splits)

lemma judge_file_None: "judge_file node (Some op) sidecar = None \<longleftrightarrow> closed_file op node"
  by (cases "node_mode node") (auto simp: judge_file_def closed_file_def Let_def)

lemma directory_open_iff: "directory_open node op sticky \<longleftrightarrow> \<not> closed_directory op sticky node"
  by (cases "node_mode node") (auto simp: directory_open_def closed_directory_def Let_def)

lemma judge_write_facts_iff:
  "judge_write_facts facts (Some op) named_ahead = None \<longleftrightarrow> operator_only op named_ahead facts"
  by (simp add: judge_write_facts_def operator_only_def first_exposure_None judge_file_None
      directory_open_iff del: first_some.simps)

lemma closed_directory_sticky: "closed_directory op sticky node \<Longrightarrow> closed_directory op True node"
  by (auto simp: closed_directory_def)

section \<open>What the module promises\<close>

text \<open>
  C28. The judge is exactly its specification: it reports nothing if and only if the host has an
  effective uid and, for that uid, the file and its sidecars are closed to every other user, and so
  are the directories and links on the way (\<^const>\<open>operator_only\<close>).
\<close>

theorem judge_meets_spec:
  "judge_write_facts facts operator_uid named_ahead = None \<longleftrightarrow>
     (\<exists>op. operator_uid = Some op \<and> operator_only op named_ahead facts)"
  by (cases operator_uid) (simp_all add: judge_write_facts_iff, simp add: judge_write_facts_def)

text \<open>
  C30. Name resolution ends and records exactly what it met. The directories recorded are those in which the
  kernel's own resolution of the name (\<open>resolve_step\<close>, which stops at a missing component or in front of a 41st link)
  looks up a component, each once; those recorded as naming the file are those where a component that stands for the
  file is looked up, each once; the links recorded are the links met, with their owners, one record for each time one
  is met, the one it stops at included; and the resolved path is where resolution stops, the rest taken as named.
\<close>

theorem lookup_records_the_resolution:
  "(let lk = lookup_directories w absolute p;
        s0 = ([], mark_final True (if absolute then p else fs_cwd w @ p), 0)
    in distinct (lk_looked lk) \<and> set (lk_looked lk) = meets w looked_at s0
     \<and> distinct (lk_named lk) \<and> set (lk_named lk) = meets w named_at s0
     \<and> set (lk_links lk) = meets w (link_at w) s0
     \<and> (\<exists>cur rest n. (resolve_step w)\<^sup>*\<^sup>* s0 (cur, rest, n) \<and> (\<nexists>t. resolve_step w (cur, rest, n) t) \<and> n \<le> 40
          \<and> lk_resolved lk = cur @ map fst rest \<and> length (lk_links lk) = n + card (link_at w (cur, rest, n))))"
  using lookup_directories_inv [of w absolute p]
    lookup_walk_spec [of 0 w "[]" "mark_final True (if absolute then p else fs_cwd w @ p)" "[]" "[]" "[]"]
  by (simp add: lookup_directories_def lookup_inv_def walk_spec_def Let_def)

lemma gather_links:
  assumes "gather_write_facts w absolute p sidecars fd resolved = Inr facts"
  shows "wf_links facts =
    filter (\<lambda>l. \<not> fs_broad_root w (butlast (link_path l))) (lk_links (lookup_directories w absolute p))"
  using assms by (auto simp: gather_write_facts_def Let_def split: if_splits prod.splits)

text \<open>
  C29. When the check passes, the file is closed: if it exists, nobody but the operator can write it;
  every directory the resolution of its name went through, outside the broad roots, is owned by the
  operator or root and nobody else can rename or create there past the sticky bit; every symbolic
  link followed outside them belongs to the operator or root. No directory met is left unjudged.
\<close>

theorem writable_only_by_operator_sound:
  assumes "writable_only_by_operator w absolute p named_ahead (Some op) sidecars fd resolved = Inr None"
  shows "(\<exists>facts. gather_write_facts w absolute p sidecars fd resolved = Inr facts \<and>
      (\<forall>node \<in> set (wf_file facts # wf_sidecars facts). node_exists node \<longrightarrow> closed_file op node)) \<and>
    (\<forall>d. d \<in> set (lk_looked (lookup_directories w absolute p)) \<and> \<not> fs_broad_root w d \<longrightarrow>
      closed_directory op True (node_at w d True)) \<and>
    (\<forall>l. l \<in> set (lk_links (lookup_directories w absolute p)) \<and> \<not> fs_broad_root w (butlast (link_path l)) \<longrightarrow>
      link_uid l \<in> {Some op, Some 0})"
proof -
  from assms obtain facts where g: "gather_write_facts w absolute p sidecars fd resolved = Inr facts"
    and j: "operator_only op named_ahead facts"
    by (auto simp: writable_only_by_operator_def judge_write_facts_iff split: sum.splits)
  have dirs: "closed_directory op True (node_at w d True)"
    if d: "d \<in> set (lk_looked (lookup_directories w absolute p))" "\<not> fs_broad_root w d" for d
  proof -
    from gather_judges_looked [OF g d] obtain node where
      node: "node \<in> set (wf_holding facts # wf_named facts @ wf_above facts)" "d = node_path node"
      by (auto simp: judged_dirs_def)
    with j have "closed_directory op True node"
      by (auto simp: operator_only_def intro: closed_directory_sticky)
    with gather_nodes [OF g node(1)] node(2) show ?thesis by simp
  qed
  have links: "link_uid l \<in> {Some op, Some 0}"
    if "l \<in> set (lk_links (lookup_directories w absolute p))" "\<not> fs_broad_root w (butlast (link_path l))" for l
    using j that gather_links [OF g] by (simp add: operator_only_def)
  have "\<forall>node \<in> set (wf_file facts # wf_sidecars facts). node_exists node \<longrightarrow> closed_file op node"
    using j by (simp add: operator_only_def)
  with g dirs links show ?thesis by blast
qed

definition sample_host :: fs_world where
  "sample_host = \<lparr>fs_darwin = False, fs_cwd = [],
     fs_lstat = (\<lambda>p. if p = [''home''] then Some \<lparr>ls_is_link = False, ls_uid = 7, ls_mode = 0x41C0\<rparr> else None),
     fs_readlink = (\<lambda>p. (False, [])),
     fs_open = (\<lambda>p directory. if p = [''home''] then
        OPENED (Some \<lparr>fd_uid = 7, fd_mode = 0x41C0, fd_acl = NO_LIBRARY, fd_volume_flags = None\<rparr>) else NOT_FOUND),
     fs_broad_root = (\<lambda>p. p = [])\<rparr>"

lemma sample_writable:
  "writable_only_by_operator sample_host True [''home'', ''store.db''] True (Some 7) [''-wal''] None None = Inr None"
  by code_simp

theorem writable_only_by_operator_sound_witness:
  "writable_only_by_operator sample_host True [''home'', ''store.db''] True (Some 7) [''-wal''] None None = Inr None \<and>
   [''home''] \<in> set (lk_looked (lookup_directories sample_host True [''home'', ''store.db''])) \<and>
   closed_directory 7 True (node_at sample_host [''home''] True)"
proof -
  have met: "[''home''] \<in> set (lk_looked (lookup_directories sample_host True [''home'', ''store.db'']))"
    "\<not> fs_broad_root sample_host [''home'']"
    by code_simp+
  with writable_only_by_operator_sound [OF sample_writable] sample_writable show ?thesis by blast
qed

end
