(* ===== verification/Key_File.thy ===== *)
theory Key_File
  imports Key_Rules Operator_Only Complex_Main
begin

text \<open>
  The key file of \<^verbatim>\<open>particles/api/_keys.py\<close>: the checks on the place it lies in, the cached read
  (\<open>load\<close>), what the engine reads from it (\<open>live_keys\<close>, \<open>has_live_keys\<close>, \<open>has_usable_live_keys\<close>,
  \<open>lookup\<close>) and the two commands that rewrite it under its lock (\<open>mint\<close>, \<open>revoke\<close>).

  The host is a parameter, the record \<open>key_world\<close>: the file system's answers (\<open>fs_world\<close>), the
  account database, the outcome of opening the key file, and the clock. The process keeps
  \<open>key_proc\<close>, the module's cache and the set of files it has read a live key from. Each function
  takes both and returns the new process state, and the commands the new world. \<^const>\<open>None\<close> as
  a command's result means it has not returned: the inputs the environment gave so far (lock
  attempts, random identifiers) were not enough for it to finish. Times are rationals.
\<close>

unbundle bit_operations_syntax

section \<open>The host\<close>

record account =
  acc_uid :: int
  acc_gid :: int

record host =
  h_euid :: int
  h_egid :: int
  h_groups :: "int list"
  h_my_name :: "string option"
  h_accounts :: "account list option" \<comment> \<open>\<^const>\<open>None\<close>: the database cannot be listed\<close>
  h_group_members :: "int \<Rightarrow> string list option" \<comment> \<open>\<^const>\<open>None\<close>: no such group\<close>
  h_dir_gid :: "path \<Rightarrow> int"

record key_stat =
  ks_ino :: int
  ks_size :: int
  ks_mtime :: int
  ks_ctime :: int

datatype key_content = UNREADABLE | NOT_JSON | JSON json

record key_file =
  kf_stat :: key_stat
  kf_fd :: fd_facts
  kf_content :: key_content

datatype key_open = KO_MISSING | KO_OSERROR bool \<comment> \<open>whether it is a link\<close> | KO_OPENED key_file

datatype lstat_outcome = LSTAT_OK | LSTAT_MISSING | LSTAT_DENIED

record key_world =
  kw_fs :: fs_world
  kw_host :: host
  kw_setting :: "bool \<times> path" \<comment> \<open>\<^verbatim>\<open>api.keys_file\<close>, \<^verbatim>\<open>~\<close> expanded: absolute or not, its parts\<close>
  kw_dir_group :: "int option" \<comment> \<open>\<^verbatim>\<open>api.keys_dir_group\<close>\<close>
  kw_lstat :: lstat_outcome
  kw_open :: key_open
  kw_now :: rat

type_synonym stamp = "key_stat \<times> 32 word \<times> int"

record key_proc =
  cache_path :: "path option"
  cache_stamp :: "stamp option"
  cache_read_at :: rat
  cache_records :: "(string, key_record) dict option"
  seen_with_keys :: "path list"

definition RELOAD_SECONDS :: rat where
  "RELOAD_SECONDS = 10"

definition LOCK_WAIT_SECONDS :: rat where
  "LOCK_WAIT_SECONDS = 2"

section \<open>The place\<close>

datatype dir_refusal =
    DIR_UNREADABLE | DIR_OWNERS_IGNORED | DIR_OWNER | DIR_ACL | DIR_WORLD_WRITABLE | DIR_GROUP_WRITABLE

datatype unusable =
    RELATIVE_SETTING | DIR_REFUSED dir_refusal | LINK_OWNER | FILE_GONE | FILE_IS_LINK | CANNOT_READ
  | NOT_REGULAR | OWNERS_IGNORED | WRONG_OWNER | MODE_TOO_OPEN | UNPARSEABLE | LOCK_FILE_NOT_PRIVATE

definition keys_file_path :: "key_world \<Rightarrow> unusable + path" where
  "keys_file_path w = (case kw_setting w of (absolute, p) \<Rightarrow> if \<not> absolute then Inl RELATIVE_SETTING else Inr p)"

definition reset_key_cache :: "key_proc \<Rightarrow> key_proc" where
  "reset_key_cache st = st\<lparr>cache_path := None, cache_stamp := None, cache_read_at := 0, cache_records := None\<rparr>"

definition forget_key_files :: "key_proc \<Rightarrow> key_proc" where
  "forget_key_files st = st\<lparr>seen_with_keys := []\<rparr>"

definition group_shared_with_others :: "key_world \<Rightarrow> int \<Rightarrow> bool" where
  "group_shared_with_others w gid =
     (let h = kw_host w in
      if fs_darwin (kw_fs w) then True
      else case h_accounts h of
             None \<Rightarrow> True
           | Some accounts \<Rightarrow>
               let unlisted = (h_group_members h gid = None \<and> \<not> list_ex (\<lambda>a. acc_gid a = gid) accounts);
                   members = (case h_group_members h gid of None \<Rightarrow> [] | Some ms \<Rightarrow> ms)
               in if unlisted then True
                  else if list_ex (\<lambda>m. Some m \<noteq> h_my_name h \<and> m \<noteq> ''root'') members then True
                  else list_ex (\<lambda>a. acc_gid a = gid \<and> acc_uid a \<notin> {h_euid h, 0}) accounts)"

definition key_acl_lets_others_write :: "node_facts \<Rightarrow> bool" where
  "key_acl_lets_others_write node =
     (if node_acl node = ACL_NONE then False
      else if node_acl node \<noteq> ACL_TEXT then True
      else case node_uid node of
             None \<Rightarrow> True
           | Some uid \<Rightarrow>
               list_ex (\<lambda>line. acl_line_grants_write line uid) (tl (splitlines (node_acl_text node))))"

definition directory_refusal :: "key_world \<Rightarrow> node_facts \<Rightarrow> bool \<Rightarrow> dir_refusal option" where
  "directory_refusal w node holding =
     (let h = kw_host w in
      case node_mode node of
        None \<Rightarrow> Some DIR_UNREADABLE
      | Some mode \<Rightarrow>
          if \<not> node_opened node then Some DIR_UNREADABLE
          else if node_owners_ignored node then Some DIR_OWNERS_IGNORED
          else if node_uid node \<notin> {Some (h_euid h), Some 0} then Some DIR_OWNER
          else if key_acl_lets_others_write node then Some DIR_ACL
          else
            let sticky = (mode AND S_ISVTX \<noteq> 0 \<and> (\<not> holding \<or> node_uid node = Some (h_euid h)));
                gid = h_dir_gid h (node_path node);
                private_group = (mode AND 0x400 \<noteq> 0 \<and> node_uid node \<noteq> None \<and> kw_dir_group w = Some gid
                                 \<and> gid \<in> set (h_egid h # h_groups h) \<and> \<not> group_shared_with_others w gid)
            in if sticky \<or> mode AND (0x10 OR 0x02) = 0 then None
               else if mode AND 0x02 \<noteq> 0 then Some DIR_WORLD_WRITABLE
               else if private_group then None
               else Some DIR_GROUP_WRITABLE)"

fun links_refusal :: "key_world \<Rightarrow> link_facts list \<Rightarrow> unusable option" where
  "links_refusal w [] = None"
| "links_refusal w (l # ls) =
     (if link_uid l \<notin> {Some (h_euid (kw_host w)), Some 0} then Some LINK_OWNER else links_refusal w ls)"

fun above_refusal :: "key_world \<Rightarrow> node_facts list \<Rightarrow> unusable option" where
  "above_refusal w [] = None"
| "above_refusal w (node # nodes) =
     (case directory_refusal w node False of
        Some e \<Rightarrow> Some (DIR_REFUSED e)
      | None \<Rightarrow> above_refusal w nodes)"

definition check_dir_safe :: "key_world \<Rightarrow> path \<Rightarrow> unusable option" where
  "check_dir_safe w p =
     (case gather_write_facts (kw_fs w) True p [] None None of
        Inl _ \<Rightarrow> None
      | Inr facts \<Rightarrow>
          if \<not> node_exists (wf_holding facts) then None
          else first_some
            [map_option DIR_REFUSED (directory_refusal w (wf_holding facts) True),
             links_refusal w (wf_links facts),
             above_refusal w (wf_above facts)])"

definition check_safe :: "key_world \<Rightarrow> fd_facts \<Rightarrow> unusable option" where
  "check_safe w fd =
     (if fd_uid fd \<noteq> h_euid (kw_host w) then Some WRONG_OWNER
      else if fd_mode fd AND 0x3F \<noteq> 0 then Some MODE_TOO_OPEN
      else None)"

section \<open>Reading\<close>

definition known_absent :: "key_world \<Rightarrow> bool" where
  "known_absent w = (kw_lstat w = LSTAT_MISSING)"

definition is_regular :: "32 word \<Rightarrow> bool" where
  "is_regular mode = (mode AND 0xF000 = 0x8000)"

definition stamp_of :: "key_file \<Rightarrow> stamp" where
  "stamp_of f = (kf_stat f, fd_mode (kf_fd f), fd_uid (kf_fd f))"

definition no_keys_here :: "path \<Rightarrow> key_proc \<Rightarrow> key_proc" where
  "no_keys_here p st = st\<lparr>cache_path := Some p, cache_stamp := None, cache_records := Some []\<rparr>"

definition parse_content :: "core_lib \<Rightarrow> key_content \<Rightarrow> unusable + (string, key_record) dict" where
  "parse_content core c =
     (case c of
        UNREADABLE \<Rightarrow> Inl CANNOT_READ
      | NOT_JSON \<Rightarrow> Inl UNPARSEABLE
      | JSON j \<Rightarrow> (case parse_keys core j of None \<Rightarrow> Inl UNPARSEABLE | Some d \<Rightarrow> Inr d))"

text \<open>The file is there: judged on its descriptor, then read from the cache or from the bytes.\<close>

definition load_opened ::
  "core_lib \<Rightarrow> key_world \<Rightarrow> path \<Rightarrow> key_file \<Rightarrow> key_proc \<Rightarrow> (unusable + (string, key_record) dict) \<times> key_proc"
where
  "load_opened core w p f st =
     (if \<not> is_regular (fd_mode (kf_fd f)) then (Inl NOT_REGULAR, st)
      else if ownership_ignored (fs_darwin (kw_fs w)) (kf_fd f) then (Inl OWNERS_IGNORED, st)
      else case check_safe w (kf_fd f) of
        Some e \<Rightarrow> (Inl e, st)
      | None \<Rightarrow>
          if cache_path st = Some p \<and> cache_stamp st = Some (stamp_of f) \<and> cache_records st \<noteq> None
             \<and> kw_now w - cache_read_at st < RELOAD_SECONDS
          then (Inr (the (cache_records st)), st)
          else (case parse_content core (kf_content f) of
                  Inl e \<Rightarrow> (Inl e, st)
                | Inr records \<Rightarrow>
                    (Inr records,
                     st\<lparr>cache_path := Some p, cache_stamp := Some (stamp_of f), cache_read_at := kw_now w,
                       cache_records := Some records,
                       seen_with_keys := (if list_ex live (map snd records) \<and> p \<notin> set (seen_with_keys st)
                                          then p # seen_with_keys st else seen_with_keys st)\<rparr>)))"

definition load ::
  "core_lib \<Rightarrow> key_world \<Rightarrow> path \<Rightarrow> key_proc \<Rightarrow> (unusable + (string, key_record) dict) \<times> key_proc"
where
  "load core w p st =
     (case check_dir_safe w p of
        Some e \<Rightarrow>
          if p \<in> set (seen_with_keys st) \<or> \<not> known_absent w then (Inl e, st)
          else (Inr [], no_keys_here p st)
      | None \<Rightarrow>
          (case kw_open w of
             KO_MISSING \<Rightarrow>
               if p \<in> set (seen_with_keys st) then (Inl FILE_GONE, st) else (Inr [], no_keys_here p st)
           | KO_OSERROR is_link \<Rightarrow> (Inl (if is_link then FILE_IS_LINK else CANNOT_READ), st)
           | KO_OPENED f \<Rightarrow> load_opened core w p f st))"

definition all_keys ::
  "core_lib \<Rightarrow> key_world \<Rightarrow> key_proc \<Rightarrow> (unusable + (string, key_record) dict) \<times> key_proc"
where
  "all_keys core w st =
     (case keys_file_path w of Inl e \<Rightarrow> (Inl e, st) | Inr p \<Rightarrow> load core w p st)"

definition live_keys ::
  "core_lib \<Rightarrow> key_world \<Rightarrow> key_proc \<Rightarrow> (unusable + key_record list) \<times> key_proc"
where
  "live_keys core w st =
     (case all_keys core w st of
        (Inl e, st') \<Rightarrow> (Inl e, st')
      | (Inr d, st') \<Rightarrow> (Inr (filter live (map snd d)), st'))"

definition has_live_keys :: "core_lib \<Rightarrow> key_world \<Rightarrow> key_proc \<Rightarrow> bool \<times> key_proc" where
  "has_live_keys core w st =
     (case live_keys core w st of
        (Inl e, st') \<Rightarrow> (True, st')
      | (Inr ks, st') \<Rightarrow>
          (case keys_file_path w of
             Inl e \<Rightarrow> (True, st')
           | Inr p \<Rightarrow> (ks \<noteq> [] \<or> p \<in> set (seen_with_keys st'), st')))"

definition has_usable_live_keys :: "core_lib \<Rightarrow> key_world \<Rightarrow> key_proc \<Rightarrow> bool \<times> key_proc" where
  "has_usable_live_keys core w st =
     (case live_keys core w st of (Inl e, st') \<Rightarrow> (False, st') | (Inr ks, st') \<Rightarrow> (ks \<noteq> [], st'))"

text \<open>The part of \<^verbatim>\<open>lookup\<close> after the records were read.\<close>

definition lookup_in ::
  "core_lib \<Rightarrow> key_config \<Rightarrow> (string, key_record) dict \<Rightarrow> role \<times> string \<times> string \<Rightarrow> key_record option"
where
  "lookup_in core cfg d parsed =
     (case parsed of (r, kid, secret) \<Rightarrow>
        case map_of d kid of
          None \<Rightarrow> None
        | Some rec \<Rightarrow>
            if \<not> live rec then None
            else if digest rec \<noteq> sha256_hex core secret then None
            else if krole rec \<noteq> r then None
            else if unacknowledged_reserved cfg rec then None
            else if record_rule_refusal cfg rec \<noteq> None then None
            else Some rec)"

definition lookup ::
  "core_lib \<Rightarrow> key_config \<Rightarrow> key_world \<Rightarrow> key_proc \<Rightarrow> string \<Rightarrow> (unusable + key_record option) \<times> key_proc"
where
  "lookup core cfg w st token =
     (case parse_token token of
        None \<Rightarrow> (Inr None, st)
      | Some parsed \<Rightarrow>
          (case all_keys core w st of
             (Inl e, st') \<Rightarrow> (Inl e, st')
           | (Inr d, st') \<Rightarrow> (Inr (lookup_in core cfg d parsed), st')))"

section \<open>Writing\<close>

datatype key_error = UNUSABLE unusable | RULE rule_error | OS_ERROR

datatype lock_open = LOCK_OPEN_RAISES | LOCK_OPENED "32 word" int \<comment> \<open>its mode and owner\<close>

text \<open>
  The wait for the lock: each attempt says whether \<^verbatim>\<open>flock\<close> succeeded and what the clock read
  after it failed. \<^const>\<open>None\<close>: the attempts so far neither got the lock nor passed the deadline.
\<close>

fun lock_wait :: "rat \<Rightarrow> (bool \<times> rat) list \<Rightarrow> bool option" where
  "lock_wait deadline [] = None"
| "lock_wait deadline ((acquired, t) # attempts) =
     (if acquired then Some True else if t \<ge> deadline then Some False else lock_wait deadline attempts)"

definition file_lock ::
  "key_world \<Rightarrow> path \<Rightarrow> lock_open \<Rightarrow> (bool \<times> rat) list \<Rightarrow> (key_error + unit) option"
where
  "file_lock w p lock attempts =
     (case check_dir_safe w p of
        Some e \<Rightarrow> Some (Inl (UNUSABLE e))
      | None \<Rightarrow>
          (case lock of
             LOCK_OPEN_RAISES \<Rightarrow> Some (Inl OS_ERROR)
           | LOCK_OPENED mode uid \<Rightarrow>
               if \<not> is_regular mode \<or> uid \<noteq> h_euid (kw_host w) \<or> mode AND 0x3F \<noteq> 0
               then Some (Inl (UNUSABLE LOCK_FILE_NOT_PRIVATE))
               else (case lock_wait (kw_now w + LOCK_WAIT_SECONDS) attempts of
                       None \<Rightarrow> None
                     | Some acquired \<Rightarrow> Some (if acquired then Inr () else Inl (RULE LOCK_HELD)))))"

text \<open>What the host gives a new file: its stat, its ACL and its volume's flags; or the write raises.\<close>

datatype write_outcome = WRITE_RAISES | WRITTEN key_stat acl_call "32 word option"

definition written_file :: "key_world \<Rightarrow> json \<Rightarrow> key_stat \<Rightarrow> acl_call \<Rightarrow> 32 word option \<Rightarrow> key_file" where
  "written_file w j stat acl flags =
     \<lparr>kf_stat = stat,
      kf_fd = \<lparr>fd_uid = h_euid (kw_host w), fd_mode = 0x8180, fd_acl = acl, fd_volume_flags = flags\<rparr>,
      kf_content = JSON j\<rparr>"

definition write_keys ::
  "key_world \<Rightarrow> key_proc \<Rightarrow> (string, key_record) dict \<Rightarrow> write_outcome
     \<Rightarrow> (key_error + unit) \<times> key_world \<times> key_proc"
where
  "write_keys w st records out =
     (let raised = (\<lambda>e. (Inl e, w, st));
          proceed = (case out of
            WRITE_RAISES \<Rightarrow> (Inl OS_ERROR, w, st)
          | WRITTEN stat acl flags \<Rightarrow>
              (Inr (), w\<lparr>kw_open := KO_OPENED (written_file w (serialise records) stat acl flags),
                         kw_lstat := LSTAT_OK\<rparr>, reset_key_cache st))
      in case kw_open w of
           KO_MISSING \<Rightarrow> if h_euid (kw_host w) = 0 then raised (RULE CREATE_AS_ROOT) else proceed
         | KO_OSERROR _ \<Rightarrow> raised OS_ERROR
         | KO_OPENED f \<Rightarrow>
             if fd_uid (kf_fd f) \<noteq> h_euid (kw_host w) then raised (RULE NOT_FILE_OWNER) else proceed)"

fun fresh_id :: "(string, key_record) dict \<Rightarrow> byte list list \<Rightarrow> string option" where
  "fresh_id records [] = None"
| "fresh_id records (bs # draws) =
     (if map_of records (token_hex bs) \<noteq> None then fresh_id records draws else Some (token_hex bs))"

record mint_args =
  m_role :: role
  m_principal :: string
  m_project :: "string option"
  m_label :: "string option"
  m_reserved_ok :: bool
  m_memory_roots :: "string list option"
  m_archive_roots :: "string list option"

text \<open>What a command meets while it runs.\<close>

record command_env =
  ce_lock :: lock_open
  ce_attempts :: "(bool \<times> rat) list"
  ce_ids :: "byte list list" \<comment> \<open>the draws of \<^verbatim>\<open>secrets.token_hex(6)\<close>\<close>
  ce_secret :: "byte list" \<comment> \<open>\<^verbatim>\<open>secrets.token_bytes(32)\<close>\<close>
  ce_now :: string
  ce_write :: write_outcome

definition minted_record ::
  "core_lib \<Rightarrow> key_config \<Rightarrow> mint_args \<Rightarrow> string list option \<Rightarrow> string list option \<Rightarrow> string \<Rightarrow> string
     \<Rightarrow> string \<Rightarrow> key_record"
where
  "minted_record core cfg args memory archive kid secret now =
     (let p = strip (m_principal args) in
      \<lparr>key_id = kid, principal = p, krole = m_role args,
       project = map_option (canonical_project_key core) (m_project args),
       label = json_of_option (m_label args), created_at = now, revoked_at = JNull,
       digest = sha256_hex core secret,
       reserved_ok = (m_role args \<noteq> OPERATOR \<and> p \<in> set (reserved_principals cfg)),
       memory_roots = memory, archive_roots = archive\<rparr>)"

text \<open>The body of \<^verbatim>\<open>mint\<close> once the lock is held: read, draw an unused id, record, write.\<close>

definition mint_locked ::
  "core_lib \<Rightarrow> key_config \<Rightarrow> key_world \<Rightarrow> key_proc \<Rightarrow> path \<Rightarrow> mint_args \<Rightarrow> string list option \<Rightarrow> string list option
     \<Rightarrow> command_env \<Rightarrow> ((key_error + string \<times> key_record) \<times> key_world \<times> key_proc) option"
where
  "mint_locked core cfg w st p args memory archive env =
     (case load core w p (reset_key_cache st) of
        (Inl e, st1) \<Rightarrow> Some (Inl (UNUSABLE e), w, st1)
      | (Inr records, st1) \<Rightarrow>
          (case fresh_id records (ce_ids env) of
             None \<Rightarrow> None
           | Some kid \<Rightarrow>
               let secret = urlsafe_b64 (ce_secret env);
                   rec = minted_record core cfg args memory archive kid secret (ce_now env)
               in (case write_keys w st1 (AList.update kid rec records) (ce_write env) of
                     (Inl e, w', st2) \<Rightarrow> Some (Inl e, w', st2)
                   | (Inr _, w', st2) \<Rightarrow> Some (Inr (make_token (m_role args) kid secret, rec), w', st2))))"

definition mint ::
  "core_lib \<Rightarrow> key_config \<Rightarrow> key_world \<Rightarrow> key_proc \<Rightarrow> mint_args \<Rightarrow> command_env
     \<Rightarrow> ((key_error + string \<times> key_record) \<times> key_world \<times> key_proc) option"
where
  "mint core cfg w st args env =
     (let p = strip (m_principal args);
          proj = map_option (canonical_project_key core) (m_project args);
          raised = (\<lambda>e. Some (Inl e, w, st))
      in case check_mint core cfg (m_role args) p proj (m_reserved_ok args) of
           Some e \<Rightarrow> raised (RULE e)
         | None \<Rightarrow>
      (case mint_roots (m_role args) p (m_memory_roots args) of
         Inl e \<Rightarrow> raised (RULE e)
       | Inr memory \<Rightarrow>
      (case mint_roots (m_role args) p (m_archive_roots args) of
         Inl e \<Rightarrow> raised (RULE e)
       | Inr archive \<Rightarrow>
      (case keys_file_path w of
         Inl e \<Rightarrow> raised (UNUSABLE e)
       | Inr path \<Rightarrow>
      (case file_lock w path (ce_lock env) (ce_attempts env) of
         None \<Rightarrow> None
       | Some (Inl e) \<Rightarrow> raised e
       | Some (Inr _) \<Rightarrow> mint_locked core cfg w st path args memory archive env)))))"

definition revoke_locked ::
  "core_lib \<Rightarrow> key_world \<Rightarrow> key_proc \<Rightarrow> path \<Rightarrow> string \<Rightarrow> command_env
     \<Rightarrow> (key_error + key_record) \<times> key_world \<times> key_proc"
where
  "revoke_locked core w st p kid env =
     (case load core w p (reset_key_cache st) of
        (Inl e, st1) \<Rightarrow> (Inl (UNUSABLE e), w, st1)
      | (Inr records, st1) \<Rightarrow>
          (case map_of records kid of
             None \<Rightarrow> (Inl (RULE NO_SUCH_KEY), w, st1)
           | Some rec \<Rightarrow>
               if \<not> live rec then (Inr rec, w, st1)
               else
                 let revoked = rec\<lparr>revoked_at := JStr (ce_now env)\<rparr>
                 in (case write_keys w st1 (AList.update kid revoked records) (ce_write env) of
                       (Inl e, w', st2) \<Rightarrow> (Inl e, w', st2)
                     | (Inr _, w', st2) \<Rightarrow> (Inr revoked, w', st2))))"

definition revoke ::
  "core_lib \<Rightarrow> key_world \<Rightarrow> key_proc \<Rightarrow> string \<Rightarrow> command_env
     \<Rightarrow> ((key_error + key_record) \<times> key_world \<times> key_proc) option"
where
  "revoke core w st kid env =
     (case keys_file_path w of
        Inl e \<Rightarrow> Some (Inl (UNUSABLE e), w, st)
      | Inr p \<Rightarrow>
          (case file_lock w p (ce_lock env) (ce_attempts env) of
             None \<Rightarrow> None
           | Some (Inl e) \<Rightarrow> Some (Inl e, w, st)
           | Some (Inr _) \<Rightarrow> Some (revoke_locked core w st p kid env)))"

section \<open>Lookup\<close>

lemma lookup_in_iff:
  "lookup_in core cfg d (r, kid, secret) = Some rec \<longleftrightarrow>
     map_of d kid = Some rec \<and> live rec \<and> digest rec = sha256_hex core secret \<and> krole rec = r \<and>
     \<not> unacknowledged_reserved cfg rec \<and> record_rule_refusal cfg rec = None"
  by (auto simp: lookup_in_def split: option.splits)

lemma lookup_Some:
  assumes "lookup core cfg w st token = (Inr (Some rec), st')"
  obtains kid secret d where "parse_token token = Some (krole rec, kid, secret)"
    "all_keys core w st = (Inr d, st')" "lookup_in core cfg d (krole rec, kid, secret) = Some rec"
proof -
  from assms obtain r kid secret d where t: "parse_token token = Some (r, kid, secret)"
    and d: "all_keys core w st = (Inr d, st')" and rec: "lookup_in core cfg d (r, kid, secret) = Some rec"
    by (auto simp: lookup_def split: option.splits prod.splits sum.splits)
  from rec have "krole rec = r" by (simp add: lookup_in_iff)
  with t d rec that show ?thesis by blast
qed

lemma lookup_principal_rules:
  assumes "record_rule_refusal cfg rec = None"
  shows "strip (principal rec) = principal rec" "principal rec \<noteq> []"
    "krole rec = OPERATOR \<longleftrightarrow> principal rec = operator_identity cfg"
    "principal rec \<noteq> ''api-user''" "project rec \<noteq> None \<longrightarrow> krole rec = AGENT"
    "memory_roots rec \<noteq> None \<or> archive_roots rec \<noteq> None \<longrightarrow> is_harvester (krole rec) (principal rec)"
  using assms
  by (auto simp: record_rule_refusal_def roots_refusal_def Let_def split: if_splits option.splits)

section \<open>The cached read\<close>

lemma load_seen_mono: "set (seen_with_keys st) \<subseteq> set (seen_with_keys (snd (load core w p st)))"
  by (auto simp: load_def load_opened_def no_keys_here_def
      split: option.splits key_open.splits sum.splits)

text \<open>A second read at the same instant gives the same answer, so one request sees one key set.\<close>

lemma load_again: "fst (load core w p (snd (load core w p st))) = fst (load core w p st)"
proof (cases "check_dir_safe w p")
  case (Some e)
  then show ?thesis by (auto simp: load_def no_keys_here_def)
next
  case None
  show ?thesis
  proof (cases "kw_open w")
    case (KO_OPENED f)
    with None show ?thesis
      by (auto simp: load_def load_opened_def RELOAD_SECONDS_def split: option.splits sum.splits)
  qed (use None in \<open>auto simp: load_def no_keys_here_def\<close>)
qed

text \<open>The cache agrees with the file when its stamp is the file's.\<close>

definition cache_coherent :: "core_lib \<Rightarrow> key_world \<Rightarrow> path \<Rightarrow> key_proc \<Rightarrow> bool" where
  "cache_coherent core w p st =
     (\<forall>f d. kw_open w = KO_OPENED f \<and> cache_path st = Some p \<and> cache_stamp st = Some (stamp_of f)
        \<and> cache_records st = Some d \<longrightarrow> parse_content core (kf_content f) = Inr d)"

lemma cache_coherent_reset [simp]: "cache_coherent core w p (reset_key_cache st)"
  by (simp add: cache_coherent_def reset_key_cache_def)

lemma load_coherent [inv_intros]:
  "cache_coherent core w p st \<Longrightarrow> cache_coherent core w p (snd (load core w p st))"
  by (auto simp: cache_coherent_def load_def load_opened_def no_keys_here_def
      split: option.splits key_open.splits sum.splits)

text \<open>The file was there, private and readable, and these are its records.\<close>

definition safely_read :: "core_lib \<Rightarrow> key_world \<Rightarrow> path \<Rightarrow> (string, key_record) dict \<Rightarrow> bool" where
  "safely_read core w p d =
     (check_dir_safe w p = None \<and>
      (\<exists>f. kw_open w = KO_OPENED f \<and> is_regular (fd_mode (kf_fd f)) \<and> fd_uid (kf_fd f) = h_euid (kw_host w) \<and>
         fd_mode (kf_fd f) AND 0x3F = 0 \<and> \<not> ownership_ignored (fs_darwin (kw_fs w)) (kf_fd f) \<and>
         parse_content core (kf_content f) = Inr d))"

lemma load_Inr_iff:
  assumes "cache_coherent core w p st"
  shows "fst (load core w p st) = Inr d \<longleftrightarrow>
    safely_read core w p d \<or>
    d = [] \<and> p \<notin> set (seen_with_keys st) \<and>
      (check_dir_safe w p \<noteq> None \<and> known_absent w \<or> check_dir_safe w p = None \<and> kw_open w = KO_MISSING)"
proof (cases "check_dir_safe w p")
  case (Some e)
  then show ?thesis by (auto simp: load_def safely_read_def)
next
  case None
  show ?thesis
  proof (cases "kw_open w")
    case (KO_OPENED f)
    with None assms show ?thesis
      by (auto simp: load_def load_opened_def safely_read_def check_safe_def cache_coherent_def
          split: sum.splits)
  qed (use None in \<open>auto simp: load_def safely_read_def\<close>)
qed

lemma safely_read_load:
  assumes "cache_coherent core w p st" "safely_read core w p d"
  shows "fst (load core w p st) = Inr d"
  using assms load_Inr_iff by blast

lemma all_keys_seen_mono: "set (seen_with_keys st) \<subseteq> set (seen_with_keys (snd (all_keys core w st)))"
  using load_seen_mono by (auto simp: all_keys_def split: sum.splits)

lemma has_live_keys_seen:
  assumes "keys_file_path w = Inr p" "p \<in> set (seen_with_keys st)"
  shows "fst (has_live_keys core w st)"
  using assms all_keys_seen_mono [of st core w]
  by (auto simp: has_live_keys_def live_keys_def split: prod.splits sum.splits)

lemma load_marks_seen:
  assumes "load core w p st = (Inr d, st')" "cache_coherent core w p st" "list_ex live (map snd d)"
    and "\<And>r. cache_path st = Some p \<Longrightarrow> cache_records st = Some r \<Longrightarrow> list_ex live (map snd r) \<Longrightarrow>
      p \<in> set (seen_with_keys st)"
  shows "p \<in> set (seen_with_keys st')"
  using assms
  by (auto simp: load_def load_opened_def no_keys_here_def
      split: option.splits key_open.splits sum.splits if_splits)

section \<open>The lock's wait ends\<close>

lemma lock_wait_returns:
  "\<exists>a \<in> set attempts. fst a \<or> deadline \<le> snd a \<Longrightarrow> lock_wait deadline attempts \<noteq> None"
  by (induction deadline attempts rule: lock_wait.induct) auto

section \<open>Fresh identifiers\<close>

lemma fresh_id_Some:
  "fresh_id records draws = Some kid \<Longrightarrow> map_of records kid = None \<and> (\<exists>bs \<in> set draws. kid = token_hex bs)"
  by (induction draws) (auto split: if_splits)

lemma fresh_id_None: "fresh_id records draws = None \<Longrightarrow> token_hex ` set draws \<subseteq> fst ` set records"
  by (induction draws) (auto simp: dom_map_of_conv_image_fst [symmetric] domIff split: if_splits)

lemma fresh_id_returns:
  assumes "card (token_hex ` set draws) > length records"
  shows "fresh_id records draws \<noteq> None"
proof
  assume "fresh_id records draws = None"
  then have "card (token_hex ` set draws) \<le> card (fst ` set records)"
    by (intro card_mono fresh_id_None) auto
  also have "\<dots> \<le> length records"
    by (metis card_image_le card_length finite_set le_trans)
  finally show False using assms by simp
qed

section \<open>What the commands write\<close>

text \<open>The records a world's key file holds; \<^const>\<open>None\<close> when they cannot be read.\<close>

definition file_records :: "core_lib \<Rightarrow> key_open \<Rightarrow> (string, key_record) dict option" where
  "file_records core ko =
     (case ko of
        KO_MISSING \<Rightarrow> Some []
      | KO_OSERROR _ \<Rightarrow> None
      | KO_OPENED f \<Rightarrow> (case parse_content core (kf_content f) of Inl _ \<Rightarrow> None | Inr d \<Rightarrow> Some d))"

lemma parse_content_dict_ok [inv_intros]: "parse_content core c = Inr d \<Longrightarrow> dict_ok d"
  by (cases c) (auto simp: parse_content_def split: option.splits intro: dict_ok_parse)

lemma load_reset_records:
  assumes "load core w p (reset_key_cache st) = (Inr d, st')" "check_dir_safe w p = None"
  shows "file_records core (kw_open w) = Some d" "dict_ok d"
proof -
  have "fst (load core w p (reset_key_cache st)) = Inr d" using assms(1) by simp
  then have cases: "safely_read core w p d \<or> d = [] \<and> kw_open w = KO_MISSING"
    using load_Inr_iff [OF cache_coherent_reset] assms(2) by blast
  then show "file_records core (kw_open w) = Some d"
    by (auto simp: safely_read_def file_records_def)
  show "dict_ok d"
    using cases by (auto simp: safely_read_def dict_ok_def [of "[]"] intro: parse_content_dict_ok)
qed

text \<open>A write that succeeds leaves the serialised records in a private file of the engine's user.\<close>

lemma write_keys_Inr:
  assumes "write_keys w st records out = (Inr u, w', st')"
  obtains stat acl flags where "out = WRITTEN stat acl flags"
    "w' = w\<lparr>kw_open := KO_OPENED (written_file w (serialise records) stat acl flags), kw_lstat := LSTAT_OK\<rparr>"
    "st' = reset_key_cache st"
  using assms
  by (auto simp: write_keys_def Let_def split: key_open.splits write_outcome.splits if_splits)

lemma write_keys_Inl: "write_keys w st records out = (Inl e, w', st') \<Longrightarrow> w' = w"
  by (auto simp: write_keys_def Let_def split: key_open.splits write_outcome.splits if_splits)

lemma file_lock_Inr: "file_lock w p lock attempts = Some (Inr u) \<Longrightarrow> check_dir_safe w p = None"
  by (auto simp: file_lock_def split: option.splits)

lemma mint_Inr:
  assumes "mint core cfg w st args env = Some (Inr (token, rec), w', st')"
  obtains p memory archive d kid stat acl flags where
    "check_mint core cfg (m_role args) (strip (m_principal args))
       (map_option (canonical_project_key core) (m_project args)) (m_reserved_ok args) = None"
    "mint_roots (m_role args) (strip (m_principal args)) (m_memory_roots args) = Inr memory"
    "mint_roots (m_role args) (strip (m_principal args)) (m_archive_roots args) = Inr archive"
    "keys_file_path w = Inr p" "check_dir_safe w p = None"
    "file_records core (kw_open w) = Some d" "dict_ok d"
    "fresh_id d (ce_ids env) = Some kid"
    "rec = minted_record core cfg args memory archive kid (urlsafe_b64 (ce_secret env)) (ce_now env)"
    "token = make_token (m_role args) kid (urlsafe_b64 (ce_secret env))"
    "ce_write env = WRITTEN stat acl flags"
    "w' = w\<lparr>kw_open := KO_OPENED (written_file w (serialise (AList.update kid rec d)) stat acl flags),
            kw_lstat := LSTAT_OK\<rparr>"
    "cache_records st' = None"
proof -
  let ?p = "strip (m_principal args)"
  from assms obtain memory archive p where a:
    "check_mint core cfg (m_role args) ?p (map_option (canonical_project_key core) (m_project args))
       (m_reserved_ok args) = None"
    "mint_roots (m_role args) ?p (m_memory_roots args) = Inr memory"
    "mint_roots (m_role args) ?p (m_archive_roots args) = Inr archive"
    "keys_file_path w = Inr p" "file_lock w p (ce_lock env) (ce_attempts env) = Some (Inr ())"
    "mint_locked core cfg w st p args memory archive env = Some (Inr (token, rec), w', st')"
    by (auto simp: mint_def Let_def split: option.splits sum.splits)
  have safe: "check_dir_safe w p = None" using file_lock_Inr [OF a(5)] .
  from a(6) obtain d st1 kid u st2 where b: "load core w p (reset_key_cache st) = (Inr d, st1)"
    "fresh_id d (ce_ids env) = Some kid"
    "rec = minted_record core cfg args memory archive kid (urlsafe_b64 (ce_secret env)) (ce_now env)"
    "token = make_token (m_role args) kid (urlsafe_b64 (ce_secret env))"
    "write_keys w st1 (AList.update kid rec d) (ce_write env) = (Inr u, w', st2)" "st' = st2"
    by (auto simp: mint_locked_def Let_def split: prod.splits sum.splits option.splits)
  from write_keys_Inr [OF b(5)] obtain stat acl flags where c: "ce_write env = WRITTEN stat acl flags"
    "w' = w\<lparr>kw_open := KO_OPENED (written_file w (serialise (AList.update kid rec d)) stat acl flags),
            kw_lstat := LSTAT_OK\<rparr>" "st2 = reset_key_cache st1" by blast
  show ?thesis
    by (rule that [OF a(1-4) safe load_reset_records [OF b(1) safe] b(2-4) c(1,2)])
      (simp add: b(6) c(3) reset_key_cache_def)
qed

lemma revoke_Inr:
  assumes "revoke core w st kid env = Some (Inr rec, w', st')"
  obtains p d rec0 where "keys_file_path w = Inr p" "check_dir_safe w p = None"
    "file_records core (kw_open w) = Some d" "dict_ok d" "map_of d kid = Some rec0" "\<not> live rec"
    "\<not> live rec0 \<and> rec = rec0 \<and> w' = w \<or>
     live rec0 \<and> rec = rec0\<lparr>revoked_at := JStr (ce_now env)\<rparr> \<and> cache_records st' = None \<and>
       (\<exists>stat acl flags. ce_write env = WRITTEN stat acl flags \<and>
        w' = w\<lparr>kw_open := KO_OPENED (written_file w (serialise (AList.update kid rec d)) stat acl flags),
               kw_lstat := LSTAT_OK\<rparr>)"
proof -
  from assms obtain p where a: "keys_file_path w = Inr p"
    "file_lock w p (ce_lock env) (ce_attempts env) = Some (Inr ())"
    "revoke_locked core w st p kid env = (Inr rec, w', st')"
    by (auto simp: revoke_def split: option.splits sum.splits)
  have safe: "check_dir_safe w p = None" using file_lock_Inr [OF a(2)] .
  from a(3) obtain d st1 rec0 where b: "load core w p (reset_key_cache st) = (Inr d, st1)"
    "map_of d kid = Some rec0"
    "\<not> live rec0 \<and> rec = rec0 \<and> w' = w \<or>
     live rec0 \<and> rec = rec0\<lparr>revoked_at := JStr (ce_now env)\<rparr> \<and>
       (\<exists>u st2. write_keys w st1 (AList.update kid rec d) (ce_write env) = (Inr u, w', st2) \<and> st' = st2)"
    by (auto simp: revoke_locked_def Let_def split: prod.splits sum.splits option.splits if_splits)
  note recs = load_reset_records [OF b(1) safe]
  show ?thesis
  proof (rule that [OF a(1) safe recs b(2)])
    show "\<not> live rec" using b(3) by (auto simp: live_def)
    show "\<not> live rec0 \<and> rec = rec0 \<and> w' = w \<or>
     live rec0 \<and> rec = rec0\<lparr>revoked_at := JStr (ce_now env)\<rparr> \<and> cache_records st' = None \<and>
       (\<exists>stat acl flags. ce_write env = WRITTEN stat acl flags \<and>
        w' = w\<lparr>kw_open := KO_OPENED (written_file w (serialise (AList.update kid rec d)) stat acl flags),
               kw_lstat := LSTAT_OK\<rparr>)"
      using b(3) by (auto elim!: write_keys_Inr simp: reset_key_cache_def)
  qed
qed

section \<open>Reading back what was written\<close>

lemma check_dir_safe_frame [simp]:
  "check_dir_safe (w\<lparr>kw_open := a, kw_lstat := b\<rparr>) p = check_dir_safe w p"
proof -
  have group: "group_shared_with_others (w\<lparr>kw_open := a, kw_lstat := b\<rparr>) = group_shared_with_others w"
    by (intro ext) (simp add: group_shared_with_others_def)
  have fields: "kw_host (w\<lparr>kw_open := a, kw_lstat := b\<rparr>) = kw_host w"
    "kw_dir_group (w\<lparr>kw_open := a, kw_lstat := b\<rparr>) = kw_dir_group w" by simp_all
  have dir: "directory_refusal (w\<lparr>kw_open := a, kw_lstat := b\<rparr>) = directory_refusal w"
    by (intro ext, unfold directory_refusal_def group fields, rule refl)
  have links: "links_refusal (w\<lparr>kw_open := a, kw_lstat := b\<rparr>) ls = links_refusal w ls" for ls
    by (induction ls) auto
  have above: "above_refusal (w\<lparr>kw_open := a, kw_lstat := b\<rparr>) ns = above_refusal w ns" for ns
    by (induction ns) (auto simp: dir split: option.splits)
  show ?thesis by (simp add: check_dir_safe_def dir links above split: sum.splits)
qed

lemma safely_read_written:
  assumes "check_dir_safe w p = None" "parse_keys core (serialise d) = Some d'"
    and "\<not> ownership_ignored (fs_darwin (kw_fs w)) (kf_fd (written_file w (serialise d) stat acl flags))"
  shows "safely_read core
    (w\<lparr>kw_open := KO_OPENED (written_file w (serialise d) stat acl flags), kw_lstat := LSTAT_OK\<rparr>) p d'"
  using assms by (simp add: safely_read_def written_file_def is_regular_def parse_content_def)

end
