(* ===== verification/Key_Store.thy ===== *)
theory Key_Store
  imports Key_File
begin

text \<open>
  What the key file promises its readers: a minted token is found, every other key stays as it was,
  a revoked one is never found again, a file that once held a live key never reads as an engine
  without keys, and a file others could have written is not read at all.

  The project names are judged by \<^verbatim>\<open>particles.core.observer_scope\<close>, which is not in this
  repository; \<open>project_laws\<close> states what the key file relies on: the canonical form is a fixed
  point, it neither loses the name nor gains a hidden character, and a name with no lookalike
  hides none.
\<close>

definition project_laws :: "core_lib \<Rightarrow> bool" where
  "project_laws core =
     (\<forall>p. canonical_project_key core (canonical_project_key core p) = canonical_project_key core p \<and>
          (names_a_project core p \<and> \<not> hides_a_character core p \<longrightarrow>
             names_a_project core (canonical_project_key core p) \<and>
             \<not> hides_a_character core (canonical_project_key core p)) \<and>
          (lookalike_reason core p = None \<longrightarrow> \<not> hides_a_character core p))"

section \<open>Records the file has held\<close>

text \<open>A record as the file gives it: its project is readable and already canonical.\<close>

definition record_settled :: "core_lib \<Rightarrow> key_record \<Rightarrow> bool" where
  "record_settled core r = (project_readable core r \<and> reread_project core r = r)"

lemma project_laws_canonical:
  assumes "project_laws core" "names_a_project core p" "\<not> hides_a_character core p"
  shows "names_a_project core (canonical_project_key core p)"
    "\<not> hides_a_character core (canonical_project_key core p)"
  using assms by (auto simp: project_laws_def)

lemma canonical_idem [simp]:
  "project_laws core \<Longrightarrow>
     canonical_project_key core (canonical_project_key core p) = canonical_project_key core p"
  by (simp add: project_laws_def)

lemma parse_record_project:
  "parse_record core item = Some r \<Longrightarrow> parse_project core (get_or_none item ''project'') = Some (project r)"
  by (auto simp: parse_record_def bind_eq_Some_conv)

lemma parse_project_Some:
  assumes "parse_project core v = Some proj"
  obtains "proj = None"
  | p where "proj = Some (canonical_project_key core p)" "names_a_project core p" "\<not> hides_a_character core p"
  using assms by (auto simp: parse_project_def split: json.splits if_splits)

lemma parse_record_settled:
  assumes laws: "project_laws core" and r: "parse_record core item = Some r"
  shows "record_settled core r"
  using parse_record_project [OF r]
proof (cases rule: parse_project_Some)
  case 1
  then show ?thesis by (simp add: record_settled_def project_readable_def reread_project_def)
next
  case (2 p)
  with project_laws_canonical [OF laws 2(2,3)] laws show ?thesis
    by (simp add: record_settled_def project_readable_def reread_project_def)
qed

lemma parse_items_settled:
  assumes "project_laws core" "\<forall>r \<in> snd ` set out. record_settled core r"
    and "parse_items core out items = Some d"
  shows "\<forall>r \<in> snd ` set d. record_settled core r"
  using assms
proof (induction items arbitrary: out)
  case (Cons item items)
  from Cons.prems(3) obtain kvs r where item: "item = JObj kvs" and r: "parse_record core kvs = Some r"
    and rest: "parse_items core (AList.update (key_id r) r out) items = Some d"
    by (auto split: json.splits option.splits)
  have "\<forall>r \<in> snd ` set (AList.update (key_id r) r out). record_settled core r"
    using Cons.prems(1,2) parse_record_settled [OF _ r] by (fastforce dest!: in_set_update)
  from Cons.IH [OF Cons.prems(1) this rest] show ?case .
qed simp

lemma file_records_settled:
  assumes "project_laws core" "file_records core ko = Some d" "map_of d k = Some r"
  shows "record_settled core r"
proof -
  have "\<forall>r \<in> snd ` set d. record_settled core r"
    using assms(1,2)
    by (auto simp: file_records_def parse_content_def parse_keys_def bind_eq_Some_conv
        split: key_open.splits key_content.splits sum.splits option.splits json.splits if_splits
        dest!: parse_items_settled [rotated 2])
  then show ?thesis using assms(3) by (force dest: map_of_SomeD)
qed

lemma check_mint_project:
  assumes "check_mint core cfg r p (Some proj) ok = None"
  shows "names_a_project core proj" "lookalike_reason core proj = None"
  using assms by (auto simp: check_mint_def Let_def split: if_splits)

lemma minted_record_settled:
  assumes laws: "project_laws core"
    and ok: "check_mint core cfg (m_role args) (strip (m_principal args))
       (map_option (canonical_project_key core) (m_project args)) ok = None"
  shows "record_settled core (minted_record core cfg args memory archive kid sec now)"
proof (cases "m_project args")
  case None
  then show ?thesis
    by (simp add: record_settled_def project_readable_def reread_project_def minted_record_def Let_def)
next
  case (Some p)
  with ok have "names_a_project core (canonical_project_key core p)"
    "lookalike_reason core (canonical_project_key core p) = None"
    using check_mint_project by simp_all
  with laws Some show ?thesis
    by (simp add: record_settled_def project_readable_def reread_project_def minted_record_def Let_def
        project_laws_def)
qed

text \<open>A settled dictionary survives its trip through the file record by record.\<close>

lemma settled_reread:
  assumes "dict_ok d" "\<And>k r. map_of d k = Some r \<Longrightarrow> record_settled core r"
  obtains d' where "parse_keys core (serialise d) = Some d'" "map_of d' = map_of d"
proof -
  have "\<forall>r \<in> ran (map_of d). project_readable core r"
    using assms(2) by (auto simp: ran_def record_settled_def)
  then obtain d' where d': "parse_keys core (serialise d) = Some d'"
    using parse_serialise(1) [OF assms(1)] by blast
  have "map_of d' k = map_of d k" for k
    using parse_serialise(2) [OF assms(1) d', of k] assms(2) [of k]
    by (cases "map_of d k") (auto simp: record_settled_def)
  then show ?thesis using d' that by blast
qed

lemma updated_reread:
  assumes "project_laws core" "file_records core ko = Some d" "dict_ok d" "record_settled core r"
    and "key_id r = kid"
  obtains d' where "parse_keys core (serialise (AList.update kid r d)) = Some d'"
    "map_of d' = (map_of d)(kid \<mapsto> r)"
proof -
  have "map_of (AList.update kid r d) k = Some x \<Longrightarrow> record_settled core x" for k x
    using file_records_settled [OF assms(1,2)] assms(4) by (auto split: if_splits)
  moreover have "dict_ok (AList.update kid r d)"
    using dict_ok_update [OF assms(3)] assms(5) by blast
  ultimately show ?thesis using settled_reread that by (metis map_of_update update_conv')
qed

section \<open>The promise of a command: no key is lost or changed, except that a live one may be revoked\<close>

definition key_kept :: "key_record option \<Rightarrow> key_record option \<Rightarrow> bool" where
  "key_kept a b =
     (case a of
        None \<Rightarrow> True
      | Some r \<Rightarrow> b = Some r \<or> live r \<and> (\<exists>t. b = Some (r\<lparr>revoked_at := JStr t\<rparr>)))"

definition records_kept :: "(string, key_record) dict \<Rightarrow> (string, key_record) dict \<Rightarrow> bool" where
  "records_kept d d' = (\<forall>k. key_kept (map_of d k) (map_of d' k))"

lemma key_kept_refl [simp]: "key_kept a a"
  by (simp add: key_kept_def split: option.splits)

lemma key_kept_trans: "key_kept a b \<Longrightarrow> key_kept b c \<Longrightarrow> key_kept a c"
  by (auto simp: key_kept_def live_def split: option.splits)

lemma records_kept_refl [simp]: "records_kept d d"
  by (simp add: records_kept_def)

lemma records_kept_trans: "records_kept a b \<Longrightarrow> records_kept b c \<Longrightarrow> records_kept a c"
  by (meson records_kept_def key_kept_trans)

section \<open>Reading in a later state\<close>

text \<open>What any process whose cache agrees with the file finds in it.\<close>

lemma lookup_fst:
  assumes "keys_file_path w = Inr p" "parse_token token = Some parsed"
  shows "fst (lookup core cfg w st token) =
    (case fst (load core w p st) of Inl e \<Rightarrow> Inl e | Inr d \<Rightarrow> Inr (lookup_in core cfg d parsed))"
  using assms by (simp add: lookup_def all_keys_def split: prod.splits sum.splits)

lemma lookup_safely_read:
  assumes "keys_file_path w = Inr p" "cache_coherent core w p st" "safely_read core w p d"
    and "parse_token token = Some parsed"
  shows "fst (lookup core cfg w st token) = Inr (lookup_in core cfg d parsed)"
  using lookup_fst [OF assms(1,4)] safely_read_load [OF assms(2,3)] by simp

lemma lookup_found:
  assumes "keys_file_path w = Inr p" "cache_coherent core w p st"
    and "fst (lookup core cfg w st token) = Inr (Some rec)"
  obtains d kid sec where "safely_read core w p d" "parse_token token = Some (krole rec, kid, sec)"
    "lookup_in core cfg d (krole rec, kid, sec) = Some rec"
proof -
  from assms(3) obtain st' where "lookup core cfg w st token = (Inr (Some rec), st')" by (metis prod.collapse)
  then obtain kid sec d where *: "parse_token token = Some (krole rec, kid, sec)"
    "all_keys core w st = (Inr d, st')" "lookup_in core cfg d (krole rec, kid, sec) = Some rec"
    by (rule lookup_Some)
  from *(2) assms(1) have "fst (load core w p st) = Inr d" by (simp add: all_keys_def)
  moreover have "d \<noteq> []" using *(3) by (auto simp: lookup_in_iff)
  ultimately have "safely_read core w p d" using load_Inr_iff [OF assms(2)] by blast
  with * that show ?thesis by blast
qed

lemma safely_read_records: "safely_read core w p d \<Longrightarrow> file_records core (kw_open w) = Some d"
  by (auto simp: safely_read_def file_records_def)

lemma minted_accepted:
  assumes "check_mint core cfg (m_role args) (strip (m_principal args))
       (map_option (canonical_project_key core) (m_project args)) (m_reserved_ok args) = None"
    and "mint_roots (m_role args) (strip (m_principal args)) (m_memory_roots args) = Inr memory"
    and "mint_roots (m_role args) (strip (m_principal args)) (m_archive_roots args) = Inr archive"
    and "map_of d kid = Some (minted_record core cfg args memory archive kid sec now)"
  shows "lookup_in core cfg d (m_role args, kid, sec) = Some (minted_record core cfg args memory archive kid sec now)"
proof -
  let ?r = "minted_record core cfg args memory archive kid sec now"
  have "record_rule_refusal cfg ?r = None"
    by (rule minted_record_passes [where reserved = "m_reserved_ok args" and mem = "m_memory_roots args"
          and arch = "m_archive_roots args" and core = core])
      (use assms in \<open>simp_all add: minted_record_def Let_def\<close>)
  moreover have "\<not> unacknowledged_reserved cfg ?r"
    by (auto simp: unacknowledged_reserved_def minted_record_def Let_def)
  moreover have "live ?r" "digest ?r = sha256_hex core sec" "krole ?r = m_role args"
    by (simp_all add: minted_record_def live_def Let_def)
  ultimately show ?thesis using assms(4) by (simp add: lookup_in_iff)
qed

lemma parse_minted_token:
  assumes "length sec = 32" "\<forall>bs \<in> set ids. length bs = 6" "fresh_id d ids = Some kid"
  shows "parse_token (make_token r kid (urlsafe_b64 sec)) = Some (r, kid, urlsafe_b64 sec)"
proof -
  from fresh_id_Some [OF assms(3)] obtain bs where bs: "bs \<in> set ids" "kid = token_hex bs" by blast
  show ?thesis
    by (rule parse_make_token)
      (use assms(1,2) bs in \<open>simp_all add: token_hex_length token_hex_chars urlsafe_b64_length urlsafe_b64_chars\<close>)
qed

text \<open>The volume the file lies on keeps owners: where it does not, the file is refused at every read.\<close>

definition owners_kept :: "key_world \<Rightarrow> bool" where
  "owners_kept w =
     (case kw_open w of KO_OPENED f \<Rightarrow> \<not> ownership_ignored (fs_darwin (kw_fs w)) (kf_fd f) | _ \<Rightarrow> True)"

lemma mint_records:
  assumes "project_laws core" "mint core cfg w st args env = Some (Inr (token, rec), w', st')"
  obtains p d d' where "keys_file_path w' = Inr p" "file_records core (kw_open w) = Some d"
    "file_records core (kw_open w') = Some d'" "owners_kept w' \<Longrightarrow> safely_read core w' p d'"
    "map_of d' = (map_of d)(key_id rec \<mapsto> rec)" "map_of d (key_id rec) = None"
proof -
  obtain p memory archive d kid stat acl flags where m:
    "check_mint core cfg (m_role args) (strip (m_principal args))
       (map_option (canonical_project_key core) (m_project args)) (m_reserved_ok args) = None"
    "keys_file_path w = Inr p" "check_dir_safe w p = None"
    "file_records core (kw_open w) = Some d" "dict_ok d" "fresh_id d (ce_ids env) = Some kid"
    "rec = minted_record core cfg args memory archive kid (urlsafe_b64 (ce_secret env)) (ce_now env)"
    "w' = w\<lparr>kw_open := KO_OPENED (written_file w (serialise (AList.update kid rec d)) stat acl flags),
            kw_lstat := LSTAT_OK\<rparr>"
    using assms(2) by (rule mint_Inr) blast
  have kid: "key_id rec = kid" by (simp add: m(7) minted_record_def Let_def)
  have "record_settled core rec" using minted_record_settled [OF assms(1) m(1)] m(7) by simp
  from updated_reread [OF assms(1) m(4,5) this kid] obtain d' where
    d': "parse_keys core (serialise (AList.update kid rec d)) = Some d'" "map_of d' = (map_of d)(kid \<mapsto> rec)"
    by blast
  have "safely_read core w' p d'" if "owners_kept w'" unfolding m(8)
    by (rule safely_read_written [OF m(3) d'(1)]) (use that m(8) in \<open>simp add: owners_kept_def\<close>)
  moreover have "keys_file_path w' = Inr p" "file_records core (kw_open w') = Some d'"
    using m(2,8) d'(1) by (simp_all add: keys_file_path_def file_records_def written_file_def parse_content_def)
  ultimately show ?thesis using that m(4) d'(2) kid fresh_id_Some [OF m(6)] by blast
qed

lemma minted_token_found:
  assumes "mint core cfg w st args env = Some (Inr (token, rec), w', st')"
    and "length (ce_secret env) = 32" "\<forall>bs \<in> set (ce_ids env). length bs = 6"
    and "keys_file_path w' = Inr p" "cache_coherent core w' p st2"
    and "safely_read core w' p d'" "map_of d' (key_id rec) = Some rec"
  shows "fst (lookup core cfg w' st2 token) = Inr (Some rec)"
proof -
  obtain memory archive d0 kid where m:
    "check_mint core cfg (m_role args) (strip (m_principal args))
       (map_option (canonical_project_key core) (m_project args)) (m_reserved_ok args) = None"
    "mint_roots (m_role args) (strip (m_principal args)) (m_memory_roots args) = Inr memory"
    "mint_roots (m_role args) (strip (m_principal args)) (m_archive_roots args) = Inr archive"
    "fresh_id d0 (ce_ids env) = Some kid"
    "rec = minted_record core cfg args memory archive kid (urlsafe_b64 (ce_secret env)) (ce_now env)"
    "token = make_token (m_role args) kid (urlsafe_b64 (ce_secret env))"
    using assms(1) by (rule mint_Inr) blast
  have kid: "key_id rec = kid" by (simp add: m(5) minted_record_def Let_def)
  have parsed: "parse_token token = Some (m_role args, kid, urlsafe_b64 (ce_secret env))"
    using parse_minted_token [OF assms(2,3) m(4)] m(6) by simp
  have "lookup_in core cfg d' (m_role args, kid, urlsafe_b64 (ce_secret env)) = Some rec"
    unfolding m(5) by (rule minted_accepted [OF m(1-3)]) (use assms(7) kid m(5) in simp)
  with lookup_safely_read [OF assms(4,5,6) parsed] show ?thesis by simp
qed

text \<open>
  C23. A token \<^verbatim>\<open>mint\<close> hands out works: every process that reads the file afterwards looks it up to
  exactly the record minted, which was under no id in use before, and every key the file held before
  is still there unchanged.
\<close>

theorem mint_then_lookup:
  assumes "project_laws core"
    and "mint core cfg w st args env = Some (Inr (token, rec), w', st')"
    and "length (ce_secret env) = 32" "\<forall>bs \<in> set (ce_ids env). length bs = 6" "owners_kept w'"
    and "keys_file_path w' = Inr p" "cache_coherent core w' p st2"
  shows "fst (lookup core cfg w' st2 token) = Inr (Some rec) \<and>
    (\<exists>d d'. file_records core (kw_open w) = Some d \<and> file_records core (kw_open w') = Some d' \<and>
       map_of d (key_id rec) = None \<and> map_of d' = (map_of d)(key_id rec \<mapsto> rec))"
proof -
  obtain d d' where r: "file_records core (kw_open w) = Some d" "safely_read core w' p d'"
    "map_of d' = (map_of d)(key_id rec \<mapsto> rec)" "map_of d (key_id rec) = None"
    using mint_records [OF assms(1,2)] assms(5,6) by (metis sum.inject(2))
  have "fst (lookup core cfg w' st2 token) = Inr (Some rec)"
    by (rule minted_token_found [OF assms(2-4,6,7) r(2)]) (simp add: r(3))
  with r safely_read_records [OF r(2)] show ?thesis by blast
qed

section \<open>A concrete host\<close>

text \<open>A Linux host whose operator, uid 1000, keeps the key file in a private directory.\<close>

definition demo_fd :: "32 word \<Rightarrow> fd_facts" where
  "demo_fd mode = \<lparr>fd_uid = 1000, fd_mode = mode, fd_acl = NO_LIBRARY, fd_volume_flags = None\<rparr>"

definition demo_fs :: fs_world where
  "demo_fs = \<lparr>fs_darwin = False, fs_cwd = [],
     fs_lstat = (\<lambda>p. if p = [''srv''] then Some \<lparr>ls_is_link = False, ls_uid = 1000, ls_mode = 0x41C0\<rparr> else None),
     fs_readlink = (\<lambda>p. (False, [])),
     fs_open = (\<lambda>p directory. if p = [''srv''] then OPENED (Some (demo_fd 0x41C0)) else NOT_FOUND),
     fs_broad_root = (\<lambda>p. p = [])\<rparr>"

definition demo_world :: key_world where
  "demo_world = \<lparr>kw_fs = demo_fs,
     kw_host = \<lparr>h_euid = 1000, h_egid = 1000, h_groups = [1000], h_my_name = Some ''ann'', h_accounts = None,
       h_group_members = (\<lambda>g. None), h_dir_gid = (\<lambda>p. 1000)\<rparr>,
     kw_setting = (True, [''srv'', ''keys.json'']), kw_dir_group = None,
     kw_lstat = LSTAT_MISSING, kw_open = KO_MISSING, kw_now = 100\<rparr>"

definition demo_core :: core_lib where
  "demo_core = \<lparr>names_a_project = (\<lambda>p. strip p \<noteq> []), hides_a_character = (\<lambda>p. False),
     lookalike_reason = (\<lambda>p. None), canonical_project_key = strip, sha256_hex = (\<lambda>s. ''d:'' @ s)\<rparr>"

definition demo_cfg :: key_config where
  "demo_cfg = \<lparr>operator_identity = ''ann'', memory_compat_asserter = ''memory'', extractor_ids = [''llm''],
     core_actor_labels = [''disclosure'']\<rparr>"

definition demo_args :: mint_args where
  "demo_args = \<lparr>m_role = AGENT, m_principal = '' bot '', m_project = Some ''red'', m_label = None,
     m_reserved_ok = False, m_memory_roots = None, m_archive_roots = None\<rparr>"

definition demo_env :: command_env where
  "demo_env = \<lparr>ce_lock = LOCK_OPENED 0x8180 1000, ce_attempts = [(True, 100)], ce_ids = [replicate 6 0x1F],
     ce_secret = replicate 32 0xA5, ce_now = ''2025-01-01'',
     ce_write = WRITTEN \<lparr>ks_ino = 7, ks_size = 400, ks_mtime = 100, ks_ctime = 100\<rparr> NO_LIBRARY None\<rparr>"

definition demo_proc :: key_proc where
  "demo_proc = \<lparr>cache_path = None, cache_stamp = None, cache_read_at = 0, cache_records = None,
     seen_with_keys = []\<rparr>"

lemma demo_laws: "project_laws demo_core"
  by (simp add: project_laws_def demo_core_def)

definition returned :: "(('e + 'a) \<times> 's) option \<Rightarrow> bool" where
  "returned r = (case r of Some (Inr a, s) \<Rightarrow> True | _ \<Rightarrow> False)"

lemma demo_mint_returned: "returned (mint demo_core demo_cfg demo_world demo_proc demo_args demo_env)"
  by code_simp

lemma demo_mint:
  obtains token rec w' st' where
    "mint demo_core demo_cfg demo_world demo_proc demo_args demo_env = Some (Inr (token, rec), w', st')"
    "owners_kept w'" "keys_file_path w' = Inr [''srv'', ''keys.json'']"
    "cache_coherent demo_core w' [''srv'', ''keys.json''] st'"
proof -
  obtain token rec w' st' where m:
    "mint demo_core demo_cfg demo_world demo_proc demo_args demo_env = Some (Inr (token, rec), w', st')"
    using demo_mint_returned by (auto simp: returned_def split: option.splits prod.splits sum.splits)
  from mint_Inr [OF m] obtain f where "w' = demo_world\<lparr>kw_open := f, kw_lstat := LSTAT_OK\<rparr>"
    "cache_records st' = None" by metis
  then have "owners_kept w'" "keys_file_path w' = Inr [''srv'', ''keys.json'']"
    "cache_coherent demo_core w' [''srv'', ''keys.json''] st'"
    by (auto simp: owners_kept_def keys_file_path_def demo_world_def demo_fs_def ownership_ignored_def
        cache_coherent_def split: key_open.splits)
  with m that show ?thesis by blast
qed

lemma demo_env_sizes: "length (ce_secret demo_env) = 32" "\<forall>bs \<in> set (ce_ids demo_env). length bs = 6"
  by (simp_all add: demo_env_def)

theorem mint_then_lookup_witness:
  "\<exists>token rec w' st'.
     mint demo_core demo_cfg demo_world demo_proc demo_args demo_env = Some (Inr (token, rec), w', st') \<and>
     fst (lookup demo_core demo_cfg w' st' token) = Inr (Some rec)"
proof -
  obtain token rec w' st' where
    m: "mint demo_core demo_cfg demo_world demo_proc demo_args demo_env = Some (Inr (token, rec), w', st')"
    and s: "owners_kept w'" "keys_file_path w' = Inr [''srv'', ''keys.json'']"
      "cache_coherent demo_core w' [''srv'', ''keys.json''] st'"
    by (rule demo_mint)
  with mint_then_lookup [OF demo_laws m demo_env_sizes s] show ?thesis by blast
qed

section \<open>Revocation\<close>

lemma record_settled_revoked [simp]: "record_settled core (r\<lparr>revoked_at := v\<rparr>) = record_settled core r"
  by (cases r) (simp add: record_settled_def project_readable_def reread_project_def)

lemma revoke_result:
  assumes "project_laws core" "revoke core w st kid env = Some (Inr rec, w', st')"
  obtains p d d' rec0 where "keys_file_path w' = Inr p" "file_records core (kw_open w) = Some d"
    "file_records core (kw_open w') = Some d'" "map_of d kid = Some rec0"
    "map_of d' = (map_of d)(kid \<mapsto> rec)" "\<not> live rec"
    "rec = rec0 \<or> live rec0 \<and> rec = rec0\<lparr>revoked_at := JStr (ce_now env)\<rparr>"
proof -
  obtain p d rec0 where r: "keys_file_path w = Inr p" "file_records core (kw_open w) = Some d" "dict_ok d"
    "map_of d kid = Some rec0" "\<not> live rec" and
    cases: "\<not> live rec0 \<and> rec = rec0 \<and> w' = w \<or>
     live rec0 \<and> rec = rec0\<lparr>revoked_at := JStr (ce_now env)\<rparr> \<and> cache_records st' = None \<and>
       (\<exists>stat acl flags. ce_write env = WRITTEN stat acl flags \<and>
        w' = w\<lparr>kw_open := KO_OPENED (written_file w (serialise (AList.update kid rec d)) stat acl flags),
               kw_lstat := LSTAT_OK\<rparr>)"
    using assms(2) by (rule revoke_Inr) blast
  from cases show ?thesis
  proof
    assume "\<not> live rec0 \<and> rec = rec0 \<and> w' = w"
    then have same: "rec = rec0" "w' = w" by auto
    have "map_of d = (map_of d)(kid \<mapsto> rec)" using r(4) same(1) by (simp add: fun_upd_idem)
    then show ?thesis using that r same(1) r(1,2) [folded same(2)] by blast
  next
    assume wr: "live rec0 \<and> rec = rec0\<lparr>revoked_at := JStr (ce_now env)\<rparr> \<and> cache_records st' = None \<and>
       (\<exists>stat acl flags. ce_write env = WRITTEN stat acl flags \<and>
        w' = w\<lparr>kw_open := KO_OPENED (written_file w (serialise (AList.update kid rec d)) stat acl flags),
               kw_lstat := LSTAT_OK\<rparr>)"
    then have "record_settled core rec" "key_id rec = kid"
      using file_records_settled [OF assms(1) r(2,4)] dict_okD [OF r(3,4)] by auto
    from updated_reread [OF assms(1) r(2,3) this] obtain d' where
      "parse_keys core (serialise (AList.update kid rec d)) = Some d'" "map_of d' = (map_of d)(kid \<mapsto> rec)"
      by blast
    moreover from this wr have "file_records core (kw_open w') = Some d'" "keys_file_path w' = Inr p"
      using r(1) by (auto simp: file_records_def written_file_def parse_content_def keys_file_path_def)
    ultimately show ?thesis using that [of p d d' rec0] r wr by blast
  qed
qed

text \<open>
  C24. A revoked key is dead: once \<^verbatim>\<open>revoke\<close> has returned, no process that reads the file looks any
  token with that id up, whoever presents it and whatever role and secret it carries, while every
  other key is as it was.
\<close>

theorem revoke_then_lookup:
  assumes "project_laws core" "revoke core w st kid env = Some (Inr rec, w', st')"
    and "parse_token token = Some (r, kid, sec)"
    and "keys_file_path w' = Inr p" "cache_coherent core w' p st2"
  shows "(\<forall>found. fst (lookup core cfg w' st2 token) \<noteq> Inr (Some found)) \<and>
    (\<exists>d d'. file_records core (kw_open w) = Some d \<and> file_records core (kw_open w') = Some d' \<and>
       (\<forall>k. k \<noteq> kid \<longrightarrow> map_of d' k = map_of d k))"
proof -
  from revoke_result [OF assms(1,2)] obtain d d' where
    d: "file_records core (kw_open w) = Some d" "file_records core (kw_open w') = Some d'"
      "map_of d' = (map_of d)(kid \<mapsto> rec)" "\<not> live rec" by metis
  have "fst (lookup core cfg w' st2 token) \<noteq> Inr (Some found)" for found
  proof
    assume "fst (lookup core cfg w' st2 token) = Inr (Some found)"
    then obtain d2 kid2 sec2 where l: "safely_read core w' p d2"
      "parse_token token = Some (krole found, kid2, sec2)" "lookup_in core cfg d2 (krole found, kid2, sec2) = Some found"
      using lookup_found [OF assms(4,5)] by metis
    from safely_read_records [OF l(1)] d(2) have "d2 = d'" by simp
    with l assms(3) d(3,4) show False by (auto simp: lookup_in_iff)
  qed
  with d show ?thesis by auto
qed

definition demo_record :: key_record where
  "demo_record = minted_record demo_core demo_cfg demo_args None None ''1f1f1f1f1f1f''
     (urlsafe_b64 (ce_secret demo_env)) ''2025''"

definition demo_keyed :: key_world where
  "demo_keyed = demo_world\<lparr>kw_open := KO_OPENED (written_file demo_world (serialise [(''1f1f1f1f1f1f'', demo_record)])
     \<lparr>ks_ino = 7, ks_size = 400, ks_mtime = 100, ks_ctime = 100\<rparr> NO_LIBRARY None)\<rparr>"

lemma demo_revoke:
  obtains rec w' st' where
    "revoke demo_core demo_keyed demo_proc ''1f1f1f1f1f1f'' demo_env = Some (Inr rec, w', st')"
    "keys_file_path w' = Inr [''srv'', ''keys.json'']"
    "cache_coherent demo_core w' [''srv'', ''keys.json''] demo_proc"
proof -
  have "returned (revoke demo_core demo_keyed demo_proc ''1f1f1f1f1f1f'' demo_env)" by code_simp
  then obtain rec w' st' where r: "revoke demo_core demo_keyed demo_proc ''1f1f1f1f1f1f'' demo_env = Some (Inr rec, w', st')"
    by (auto simp: returned_def split: option.splits prod.splits sum.splits)
  from revoke_Inr [OF r] have "w' = demo_keyed \<or> (\<exists>f. w' = demo_keyed\<lparr>kw_open := f, kw_lstat := LSTAT_OK\<rparr>)"
    by metis
  then have "keys_file_path w' = Inr [''srv'', ''keys.json'']"
    by (auto simp: keys_file_path_def demo_keyed_def demo_world_def)
  then show ?thesis using that r by (simp add: cache_coherent_def demo_proc_def)
qed

theorem revoke_then_lookup_witness:
  "\<exists>rec w' st'. revoke demo_core demo_keyed demo_proc ''1f1f1f1f1f1f'' demo_env = Some (Inr rec, w', st') \<and>
     parse_token (make_token AGENT ''1f1f1f1f1f1f'' (urlsafe_b64 (ce_secret demo_env)))
       = Some (AGENT, ''1f1f1f1f1f1f'', urlsafe_b64 (ce_secret demo_env)) \<and>
     (\<forall>found. fst (lookup demo_core demo_cfg w' demo_proc
        (make_token AGENT ''1f1f1f1f1f1f'' (urlsafe_b64 (ce_secret demo_env)))) \<noteq> Inr (Some found))"
proof -
  have t: "parse_token (make_token AGENT ''1f1f1f1f1f1f'' (urlsafe_b64 (ce_secret demo_env)))
       = Some (AGENT, ''1f1f1f1f1f1f'', urlsafe_b64 (ce_secret demo_env))" by code_simp
  show ?thesis
    by (rule demo_revoke) (use revoke_then_lookup [OF demo_laws _ t] t in blast)
qed

section \<open>What a token found stands for\<close>

text \<open>
  C27. A token is only ever looked up to a record of a file nobody but the engine's user could have
  written, that is live, whose digest is the hash of the token's secret and whose role is the one
  the token names. An operator's record bears the operator's own name and no other record does;
  nobody acts as the anonymous caller; a reserved name was acknowledged when it was minted; only an
  agent is bound to a project and only a harvesting agent has roots.
\<close>

theorem lookup_sound:
  assumes "fst (lookup core cfg w st token) = Inr (Some rec)"
    and "keys_file_path w = Inr p" "cache_coherent core w p st"
  shows "\<exists>d kid sec. safely_read core w p d \<and> parse_token token = Some (krole rec, kid, sec) \<and>
      map_of d kid = Some rec \<and> live rec \<and> digest rec = sha256_hex core sec \<and>
      (krole rec = OPERATOR \<longleftrightarrow> principal rec = operator_identity cfg) \<and>
      principal rec \<noteq> ''api-user'' \<and>
      (principal rec \<in> set (reserved_principals cfg) \<longrightarrow> krole rec = OPERATOR \<or> reserved_ok rec) \<and>
      (project rec \<noteq> None \<longrightarrow> krole rec = AGENT) \<and>
      (memory_roots rec \<noteq> None \<or> archive_roots rec \<noteq> None \<longrightarrow>
         krole rec = AGENT \<and> principal rec \<in> set HARVEST_DEPOSITORS)"
proof -
  from lookup_found [OF assms(2,3,1)] obtain d kid sec where l: "safely_read core w p d"
    "parse_token token = Some (krole rec, kid, sec)" "lookup_in core cfg d (krole rec, kid, sec) = Some rec" .
  then have rec: "map_of d kid = Some rec" "live rec" "digest rec = sha256_hex core sec"
    "\<not> unacknowledged_reserved cfg rec" "record_rule_refusal cfg rec = None"
    by (simp_all add: lookup_in_iff)
  show ?thesis
    using l(1,2) rec(1-4) lookup_principal_rules [OF rec(5)]
    by (auto simp: unacknowledged_reserved_def is_harvester_def)
qed

theorem lookup_sound_witness:
  "\<exists>token rec w' st' d kid sec. fst (lookup demo_core demo_cfg w' st' token) = Inr (Some rec) \<and>
     safely_read demo_core w' [''srv'', ''keys.json''] d \<and>
     parse_token token = Some (krole rec, kid, sec) \<and> map_of d kid = Some rec"
proof -
  obtain token rec w' st' where
    m: "mint demo_core demo_cfg demo_world demo_proc demo_args demo_env = Some (Inr (token, rec), w', st')"
    and s: "owners_kept w'" "keys_file_path w' = Inr [''srv'', ''keys.json'']"
      "cache_coherent demo_core w' [''srv'', ''keys.json''] st'"
    by (rule demo_mint)
  obtain d where d: "safely_read demo_core w' [''srv'', ''keys.json''] d" "map_of d (key_id rec) = Some rec"
    by (rule mint_records [OF demo_laws m]) (use s(1,2) in simp)
  have "fst (lookup demo_core demo_cfg w' st' token) = Inr (Some rec)"
    by (rule minted_token_found [OF m demo_env_sizes s(2,3) d])
  from lookup_sound [OF this s(2,3)] this show ?thesis by blast
qed

section \<open>An engine with keys never turns into one without\<close>

text \<open>
  The engine counts as keyless, the state in which it serves its own machine without a key,
  exactly when the configured path is absolute, this process never read a live key there, and the
  file was safely read and holds no live key or is not there. Every other outcome (a bad setting, an
  unsafe place, an unreadable file, a file that vanished) counts as keys.
\<close>

theorem keyless_iff:
  assumes "\<And>p. keys_file_path w = Inr p \<Longrightarrow> cache_coherent core w p st"
  shows "\<not> fst (has_live_keys core w st) \<longleftrightarrow>
    (\<exists>p. keys_file_path w = Inr p \<and> p \<notin> set (seen_with_keys st) \<and>
       ((\<exists>d. safely_read core w p d \<and> \<not> list_ex live (map snd d)) \<or>
        (if check_dir_safe w p = None then kw_open w = KO_MISSING else known_absent w)))"
proof (cases "keys_file_path w")
  case (Inl e)
  then show ?thesis by (simp add: has_live_keys_def live_keys_def all_keys_def)
next
  case (Inr p)
  obtain res st' where l: "load core w p st = (res, st')" by (metis prod.collapse)
  have seen: "p \<in> set (seen_with_keys st')" if "p \<in> set (seen_with_keys st)"
    using load_seen_mono [of st core w p] l that by auto
  have unseen: "p \<notin> set (seen_with_keys st')" if "p \<notin> set (seen_with_keys st)" "res = Inr d" "\<not> list_ex live (map snd d)" for d
    using l that by (auto simp: load_def load_opened_def no_keys_here_def
        split: option.splits key_open.splits sum.splits if_splits)
  have res: "res = Inr d \<longleftrightarrow> safely_read core w p d \<or> d = [] \<and> p \<notin> set (seen_with_keys st) \<and>
      (check_dir_safe w p \<noteq> None \<and> known_absent w \<or> check_dir_safe w p = None \<and> kw_open w = KO_MISSING)" for d
    using load_Inr_iff [OF assms [OF Inr], of d] l by simp
  have "\<not> fst (has_live_keys core w st) \<longleftrightarrow>
      (\<exists>d. res = Inr d \<and> \<not> list_ex live (map snd d) \<and> p \<notin> set (seen_with_keys st'))"
    using Inr l by (auto simp: has_live_keys_def live_keys_def all_keys_def filter_empty_conv list_ex_iff
        split: sum.splits)
  also have "\<dots> \<longleftrightarrow> (\<exists>d. res = Inr d \<and> \<not> list_ex live (map snd d) \<and> p \<notin> set (seen_with_keys st))"
    using seen unseen by blast
  finally show ?thesis using res Inr by (auto split: if_splits)
qed

lemma demo_proc_coherent [simp]: "cache_coherent core w p demo_proc"
  by (simp add: cache_coherent_def demo_proc_def)

lemma demo_path: "keys_file_path demo_world = Inr [''srv'', ''keys.json'']"
  by (simp add: keys_file_path_def demo_world_def)

lemma demo_dir_safe: "check_dir_safe demo_world [''srv'', ''keys.json''] = None"
  by code_simp

theorem keyless_iff_witness: "\<not> fst (has_live_keys demo_core demo_world demo_proc)"
  unfolding keyless_iff [OF demo_proc_coherent]
  by (intro exI [of _ "[''srv'', ''keys.json'']"]) (simp add: demo_path demo_dir_safe, simp add: demo_proc_def demo_world_def)

text \<open>The calls a process makes of the module, each in the world of its moment.\<close>

datatype key_call =
    CALL_LIVE_KEYS key_world
  | CALL_HAS_LIVE_KEYS key_world
  | CALL_HAS_USABLE_LIVE_KEYS key_world
  | CALL_LOOKUP key_config key_world string
  | CALL_MINT key_config key_world mint_args command_env
  | CALL_REVOKE key_world string command_env
  | CALL_RESET

text \<open>A command that has not returned leaves the process where it was.\<close>

definition proc_after :: "key_proc \<Rightarrow> ('a \<times> key_world \<times> key_proc) option \<Rightarrow> key_proc" where
  "proc_after st r = (case r of None \<Rightarrow> st | Some (_, _, st') \<Rightarrow> st')"

fun after_call :: "core_lib \<Rightarrow> key_proc \<Rightarrow> key_call \<Rightarrow> key_proc" where
  "after_call core st (CALL_LIVE_KEYS w) = snd (live_keys core w st)"
| "after_call core st (CALL_HAS_LIVE_KEYS w) = snd (has_live_keys core w st)"
| "after_call core st (CALL_HAS_USABLE_LIVE_KEYS w) = snd (has_usable_live_keys core w st)"
| "after_call core st (CALL_LOOKUP cfg w token) = snd (lookup core cfg w st token)"
| "after_call core st (CALL_MINT cfg w args env) = proc_after st (mint core cfg w st args env)"
| "after_call core st (CALL_REVOKE w kid env) = proc_after st (revoke core w st kid env)"
| "after_call core st CALL_RESET = reset_key_cache st"

text \<open>The invariant of the process: a live key in the cache was recorded as seen.\<close>

definition cache_seen :: "key_proc \<Rightarrow> bool" where
  "cache_seen st =
     (\<forall>p d. cache_path st = Some p \<and> cache_records st = Some d \<and> list_ex live (map snd d) \<longrightarrow>
        p \<in> set (seen_with_keys st))"

definition seen_grows :: "key_proc \<Rightarrow> key_proc \<Rightarrow> bool" where
  "seen_grows st st' =
     ((cache_seen st \<longrightarrow> cache_seen st') \<and> set (seen_with_keys st) \<subseteq> set (seen_with_keys st'))"

lemma seen_grows_refl [simp]: "seen_grows st st"
  by (simp add: seen_grows_def)

lemma seen_grows_trans: "seen_grows a b \<Longrightarrow> seen_grows b c \<Longrightarrow> seen_grows a c"
  by (auto simp: seen_grows_def)

lemma seen_grows_reset [simp]: "seen_grows st (reset_key_cache st)"
  by (simp add: seen_grows_def cache_seen_def reset_key_cache_def)

lemma seen_grows_load: "load core w p st = (r, st') \<Longrightarrow> seen_grows st st'"
  by (auto simp: seen_grows_def cache_seen_def load_def load_opened_def no_keys_here_def list_ex_iff
      split: option.splits key_open.splits sum.splits if_splits)

lemma seen_grows_all_keys: "all_keys core w st = (r, st') \<Longrightarrow> seen_grows st st'"
  by (auto simp: all_keys_def split: sum.splits dest: seen_grows_load)

lemma seen_grows_write: "write_keys w st d out = (r, w', st') \<Longrightarrow> seen_grows st st'"
  by (auto simp: write_keys_def Let_def split: key_open.splits write_outcome.splits if_splits)

lemmas seen_grows_steps = seen_grows_load seen_grows_all_keys seen_grows_write

lemma seen_grows_mint:
  assumes "mint core cfg w st args env = Some (r, w', st')"
  shows "seen_grows st st'"
proof (rule ccontr)
  assume no: "\<not> seen_grows st st'"
  then have "st' \<noteq> st" by auto
  with assms obtain p memory archive where "mint_locked core cfg w st p args memory archive env = Some (r, w', st')"
    by (auto simp: mint_def Let_def split: option.splits sum.splits)
  then obtain d st1 where st1: "load core w p (reset_key_cache st) = (d, st1)" and "seen_grows st1 st'"
    by (auto simp: mint_locked_def Let_def split: prod.splits sum.splits option.splits dest: seen_grows_write)
  with no show False
    using seen_grows_trans seen_grows_reset seen_grows_load [OF st1] by blast
qed

lemma seen_grows_revoke:
  assumes "revoke core w st kid env = Some (r, w', st')"
  shows "seen_grows st st'"
proof (rule ccontr)
  assume no: "\<not> seen_grows st st'"
  then have "st' \<noteq> st" by auto
  with assms obtain p where "revoke_locked core w st p kid env = (r, w', st')"
    by (auto simp: revoke_def split: option.splits sum.splits)
  then obtain d st1 where st1: "load core w p (reset_key_cache st) = (d, st1)" and "seen_grows st1 st'"
    by (auto simp: revoke_locked_def Let_def split: prod.splits sum.splits option.splits if_splits
        dest: seen_grows_write)
  with no show False
    using seen_grows_trans seen_grows_reset seen_grows_load [OF st1] by blast
qed

lemma seen_grows_call: "seen_grows st (after_call core st c)"
  by (cases c)
    (auto simp: live_keys_def has_live_keys_def has_usable_live_keys_def lookup_def proc_after_def
      split: prod.splits sum.splits option.splits
      dest: seen_grows_all_keys seen_grows_mint seen_grows_revoke)

lemma seen_grows_calls: "seen_grows st (foldl (after_call core) st calls)"
  by (induction calls arbitrary: st) (auto intro: seen_grows_trans seen_grows_call)

text \<open>
  Once a process has read a live key from the configured file, no sequence of calls, in whatever
  worlds they find the file (revoked to the last key, emptied, deleted, made unreadable), brings it
  to treat the engine as keyless again.
\<close>

theorem keys_never_forgotten:
  assumes "cache_seen st" "cache_coherent core w p st" "keys_file_path w = Inr p"
    and "fst (live_keys core w st) = Inr ks" "ks \<noteq> []" and "keys_file_path w' = Inr p"
  shows "fst (has_live_keys core w' (foldl (after_call core) (snd (live_keys core w st)) calls))"
proof -
  obtain d where l: "load core w p st = (Inr d, snd (live_keys core w st))" "list_ex live (map snd d)"
    using assms(3-5)
    by (auto simp: live_keys_def all_keys_def list_ex_iff filter_empty_conv split: prod.splits sum.splits)
  have "p \<in> set (seen_with_keys (snd (live_keys core w st)))"
    by (rule load_marks_seen [OF l(1) assms(2) l(2)]) (use assms(1) in \<open>auto simp: cache_seen_def\<close>)
  then have "p \<in> set (seen_with_keys (foldl (after_call core) (snd (live_keys core w st)) calls))"
    using seen_grows_calls by (auto simp: seen_grows_def)
  then show ?thesis using has_live_keys_seen [OF assms(6)] by blast
qed

lemma demo_keyed_path: "keys_file_path demo_keyed = Inr [''srv'', ''keys.json'']"
  by (simp add: keys_file_path_def demo_keyed_def demo_world_def)

lemma demo_keyed_live: "fst (live_keys demo_core demo_keyed demo_proc) = Inr [demo_record]"
  by code_simp

theorem keys_never_forgotten_witness:
  "fst (has_live_keys demo_core demo_world
     (foldl (after_call demo_core) (snd (live_keys demo_core demo_keyed demo_proc))
        [CALL_REVOKE demo_keyed ''1f1f1f1f1f1f'' demo_env, CALL_RESET, CALL_LIVE_KEYS demo_world]))"
  by (rule keys_never_forgotten [OF _ demo_proc_coherent demo_keyed_path demo_keyed_live _ demo_path])
    (simp_all add: cache_seen_def demo_proc_def)

end
