(* ===== verification/Key_Lock.thy ===== *)
theory Key_Lock
  imports Key_Store
begin

text \<open>
  Several processes run \<^verbatim>\<open>keys create\<close> and \<^verbatim>\<open>keys revoke\<close> at once (\<^verbatim>\<open>_file_lock\<close>, \<^verbatim>\<open>mint\<close> and
  \<^verbatim>\<open>revoke\<close> of \<^verbatim>\<open>particles/api/_keys.py\<close>). Each reads the whole file and writes it back whole,
  holding the exclusive lock from its read through the rename.

  \<open>rmw_step\<close> is one step of one process: a command starts, gets the lock or gives up waiting, reads
  the file, replaces it or leaves it (it raised, or had nothing to write), and releases the lock,
  which the operating system also does when the process dies. A history of the run, which no step reads, notes
  each command that replaced the file or left it, in that order, with what it wrote. The locale
  \<open>locked_rewrite\<close> is the contract of the lock: the history is that of one command after the other, and
  between any two points of a run the file keeps what each command keeps. The interpretation is
  on the commands of \<open>Key_File\<close>.
\<close>

section \<open>The protocol\<close>

datatype ('c, 'f) phase = IDLE | WAITING 'c | HOLDING 'c | HAS_READ 'c 'f | FINISHED

record ('c, 'f) rmw =
  rmw_file :: 'f
  rmw_holder :: "nat option"
  rmw_phase :: "nat \<Rightarrow> ('c, 'f) phase"
  rmw_history :: "(nat \<times> 'c \<times> 'f option) list"

text \<open>\<open>run c f\<close> is the file the command writes having read \<open>f\<close>; \<^const>\<open>None\<close> when it writes none.\<close>

inductive rmw_step :: "('c \<Rightarrow> 'f \<Rightarrow> 'f option) \<Rightarrow> ('c, 'f) rmw \<Rightarrow> ('c, 'f) rmw \<Rightarrow> bool"
  for run :: "'c \<Rightarrow> 'f \<Rightarrow> 'f option"
where
  start: "rmw_phase s i = IDLE \<Longrightarrow> rmw_step run s (s\<lparr>rmw_phase := (rmw_phase s)(i := WAITING c)\<rparr>)"
| acquire: "rmw_phase s i = WAITING c \<Longrightarrow> rmw_holder s = None \<Longrightarrow>
    rmw_step run s (s\<lparr>rmw_holder := Some i, rmw_phase := (rmw_phase s)(i := HOLDING c)\<rparr>)"
| give_up: "rmw_phase s i = WAITING c \<Longrightarrow> rmw_step run s (s\<lparr>rmw_phase := (rmw_phase s)(i := IDLE)\<rparr>)"
| read: "rmw_phase s i = HOLDING c \<Longrightarrow>
    rmw_step run s (s\<lparr>rmw_phase := (rmw_phase s)(i := HAS_READ c (rmw_file s))\<rparr>)"
| replace: "rmw_phase s i = HAS_READ c f \<Longrightarrow> run c f = Some f' \<Longrightarrow>
    rmw_step run s (s\<lparr>rmw_file := f', rmw_phase := (rmw_phase s)(i := FINISHED),
                     rmw_history := rmw_history s @ [(i, c, Some f')]\<rparr>)"
| leave: "rmw_phase s i = HAS_READ c f \<Longrightarrow> run c f = None \<Longrightarrow>
    rmw_step run s (s\<lparr>rmw_phase := (rmw_phase s)(i := FINISHED), rmw_history := rmw_history s @ [(i, c, None)]\<rparr>)"
| release: "rmw_holder s = Some i \<Longrightarrow>
    rmw_step run s (s\<lparr>rmw_holder := None, rmw_phase := (rmw_phase s)(i := IDLE)\<rparr>)"

inductive_cases rmw_stepE: "rmw_step run s s'"

fun in_section :: "('c, 'f) phase \<Rightarrow> bool" where
  "in_section IDLE = False"
| "in_section (WAITING c) = False"
| "in_section (HOLDING c) = True"
| "in_section (HAS_READ c f) = True"
| "in_section FINISHED = True"

definition rmw_inv :: "('c, 'f) rmw \<Rightarrow> bool" where
  "rmw_inv s =
     (\<forall>i. (in_section (rmw_phase s i) \<longleftrightarrow> rmw_holder s = Some i) \<and>
          (\<forall>c f. rmw_phase s i = HAS_READ c f \<longrightarrow> f = rmw_file s))"

definition rmw_start :: "'f \<Rightarrow> ('c, 'f) rmw" where
  "rmw_start f = \<lparr>rmw_file = f, rmw_holder = None, rmw_phase = (\<lambda>_. IDLE), rmw_history = []\<rparr>"

text \<open>
  The commands of a history one after the other, each on the file the one before it left: each writes what
  the history says it wrote, and the last file is \<open>g\<close>.
\<close>

fun runs_serially :: "('c \<Rightarrow> 'f \<Rightarrow> 'f option) \<Rightarrow> 'f \<Rightarrow> (nat \<times> 'c \<times> 'f option) list \<Rightarrow> 'f \<Rightarrow> bool" where
  "runs_serially run f [] g = (f = g)"
| "runs_serially run f ((i, c, out) # hs) g =
     (run c f = out \<and> runs_serially run (case out of None \<Rightarrow> f | Some f' \<Rightarrow> f') hs g)"

lemma runs_serially_snoc:
  "runs_serially run f hs g \<Longrightarrow> run c g = out \<Longrightarrow>
     runs_serially run f (hs @ [(i, c, out)]) (case out of None \<Rightarrow> g | Some g' \<Rightarrow> g')"
  by (induction run f hs g rule: runs_serially.induct) auto

lemma rmw_inv_start [simp]: "rmw_inv (rmw_start f)"
  by (simp add: rmw_inv_def rmw_start_def)

lemma rmw_file_start [simp]: "rmw_file (rmw_start f) = f" "rmw_history (rmw_start f) = []"
  by (simp_all add: rmw_start_def)

lemma rmw_invD:
  assumes "rmw_inv s"
  shows "in_section (rmw_phase s i) \<longleftrightarrow> rmw_holder s = Some i" "rmw_phase s i = HAS_READ c f \<Longrightarrow> f = rmw_file s"
  using assms by (auto simp: rmw_inv_def)

lemma rmw_inv_step [inv_intros]:
  assumes "rmw_step run s s'" "rmw_inv s"
  shows "rmw_inv s'"
  using assms(1)
proof cases
  case (replace i c f f')
  have held: "rmw_holder s = Some i" using rmw_invD(1) [OF assms(2), of i] replace(2) by simp
  have "rmw_phase s j \<noteq> HAS_READ d g" if "j \<noteq> i" for j d g
    using that held rmw_invD(1) [OF assms(2), of j] by auto
  with replace held rmw_invD [OF assms(2)] show ?thesis by (auto simp: rmw_inv_def)
next
  case (start i c)
  have "rmw_holder s \<noteq> Some i" using rmw_invD(1) [OF assms(2), of i] start(2) by auto
  with start rmw_invD [OF assms(2)] show ?thesis by (auto simp: rmw_inv_def)
next
  case (acquire i c)
  have "rmw_holder s \<noteq> Some i" using rmw_invD(1) [OF assms(2), of i] acquire(2) by auto
  with acquire rmw_invD [OF assms(2)] show ?thesis by (auto simp: rmw_inv_def)
next
  case (give_up i c)
  have "rmw_holder s \<noteq> Some i" using rmw_invD(1) [OF assms(2), of i] give_up(2) by auto
  with give_up rmw_invD [OF assms(2)] show ?thesis by (auto simp: rmw_inv_def)
next
  case (read i c)
  have "rmw_holder s = Some i" using rmw_invD(1) [OF assms(2), of i] read(2) by simp
  with read rmw_invD [OF assms(2)] show ?thesis by (auto simp: rmw_inv_def)
next
  case (leave i c f)
  have "rmw_holder s = Some i" using rmw_invD(1) [OF assms(2), of i] leave(2) by simp
  with leave(1) rmw_invD [OF assms(2)] show ?thesis by (auto simp: rmw_inv_def)
next
  case (release i)
  with rmw_invD [OF assms(2)] show ?thesis by (auto simp: rmw_inv_def)
qed

lemma rmw_inv_steps: "(rmw_step run)\<^sup>*\<^sup>* s s' \<Longrightarrow> rmw_inv s \<Longrightarrow> rmw_inv s'"
  by (induction rule: rtranclp_induct) (auto intro: rmw_inv_step)

lemma rmw_step_file:
  assumes "rmw_step run s s'" "rmw_inv s"
  shows "rmw_file s' = rmw_file s \<or> (\<exists>c. run c (rmw_file s) = Some (rmw_file s'))"
  using assms(1)
proof cases
  case (replace i c f f')
  with rmw_invD(2) [OF assms(2) replace(2)] show ?thesis by auto
qed auto

lemma rmw_serial_step:
  assumes "rmw_step run s s'" "rmw_inv s" "runs_serially run f (rmw_history s) (rmw_file s)"
  shows "runs_serially run f (rmw_history s') (rmw_file s')"
  using assms(1)
proof cases
  case (replace i c g g')
  then show ?thesis
    using runs_serially_snoc [OF assms(3), of c "Some g'" i] rmw_invD(2) [OF assms(2) replace(2)] by simp
next
  case (leave i c g)
  then show ?thesis
    using runs_serially_snoc [OF assms(3), of c None i] rmw_invD(2) [OF assms(2) leave(2)] by simp
qed (use assms(3) in simp_all)

lemma rmw_serial:
  "(rmw_step run)\<^sup>*\<^sup>* s s' \<Longrightarrow> rmw_inv s \<Longrightarrow> runs_serially run f (rmw_history s) (rmw_file s)
     \<Longrightarrow> runs_serially run f (rmw_history s') (rmw_file s')"
  by (induction rule: rtranclp_induct) (auto intro: rmw_serial_step rmw_inv_steps)

section \<open>The contract\<close>

locale locked_rewrite =
  fixes run :: "'c \<Rightarrow> 'f \<Rightarrow> 'f option"
    and keeps :: "'f \<Rightarrow> 'f \<Rightarrow> bool"
  assumes keeps_refl: "keeps f f"
    and keeps_trans: "keeps f g \<Longrightarrow> keeps g h \<Longrightarrow> keeps f h"
    and run_keeps: "run c f = Some f' \<Longrightarrow> keeps f f'"
begin

lemma steps_keep: "(rmw_step run)\<^sup>*\<^sup>* s s' \<Longrightarrow> rmw_inv s \<Longrightarrow> keeps (rmw_file s) (rmw_file s')"
proof (induction rule: rtranclp_induct)
  case base
  show ?case by (rule keeps_refl)
next
  case (step t u)
  have "rmw_inv t" using rmw_inv_steps [OF step.hyps(1) step.prems] .
  then have "keeps (rmw_file t) (rmw_file u)"
    using rmw_step_file [OF step.hyps(2)] run_keeps keeps_refl by metis
  with step show ?case by (blast intro: keeps_trans)
qed

lemma interleaving_keeps:
  "(rmw_step run)\<^sup>*\<^sup>* (rmw_start f) s \<Longrightarrow> (rmw_step run)\<^sup>*\<^sup>* s s' \<Longrightarrow> keeps (rmw_file s) (rmw_file s')"
  using rmw_inv_steps [of run "rmw_start f" s] steps_keep by simp

lemma interleaving_serial:
  "(rmw_step run)\<^sup>*\<^sup>* (rmw_start f) s \<Longrightarrow> runs_serially run f (rmw_history s) (rmw_file s)"
  using rmw_serial [of run "rmw_start f" s f] by simp

end

section \<open>The key commands\<close>

datatype key_command =
    KEYS_CREATE key_config key_proc mint_args command_env
  | KEYS_REVOKE key_proc string command_env

text \<open>What a command makes of the file it read, the rest of the host being \<open>w\<close>.\<close>

definition key_run :: "core_lib \<Rightarrow> key_world \<Rightarrow> key_command \<Rightarrow> key_open \<Rightarrow> key_open option" where
  "key_run core w c f =
     (let here = w\<lparr>kw_open := f\<rparr>
      in case c of
           KEYS_CREATE cfg st args env \<Rightarrow>
             (case mint core cfg here st args env of Some (Inr _, w', _) \<Rightarrow> Some (kw_open w') | _ \<Rightarrow> None)
         | KEYS_REVOKE st kid env \<Rightarrow>
             (case revoke core here st kid env of Some (Inr _, w', _) \<Rightarrow> Some (kw_open w') | _ \<Rightarrow> None))"

definition file_keeps :: "core_lib \<Rightarrow> key_open \<Rightarrow> key_open \<Rightarrow> bool" where
  "file_keeps core f f' =
     (project_laws core \<longrightarrow>
        (\<forall>d. file_records core f = Some d \<longrightarrow> (\<exists>d'. file_records core f' = Some d' \<and> records_kept d d')))"

lemma file_keeps_mint:
  assumes "mint core cfg w st args env = Some (Inr (token, rec), w', st')"
  shows "file_keeps core (kw_open w) (kw_open w')"
  unfolding file_keeps_def
proof (intro impI allI)
  fix d assume "project_laws core" "file_records core (kw_open w) = Some d"
  with mint_records [OF this(1) assms] obtain d' where
    "file_records core (kw_open w') = Some d'" "map_of d' = (map_of d)(key_id rec \<mapsto> rec)" "map_of d (key_id rec) = None"
    by auto
  then show "\<exists>d'. file_records core (kw_open w') = Some d' \<and> records_kept d d'"
    by (intro exI [of _ d']) (auto simp: records_kept_def key_kept_def split: option.splits)
qed

lemma file_keeps_revoke:
  assumes "revoke core w st kid env = Some (Inr rec, w', st')"
  shows "file_keeps core (kw_open w) (kw_open w')"
  unfolding file_keeps_def
proof (intro impI allI)
  fix d assume "project_laws core" "file_records core (kw_open w) = Some d"
  with revoke_result [OF this(1) assms] obtain d' rec0 where
    "file_records core (kw_open w') = Some d'" "map_of d kid = Some rec0" "map_of d' = (map_of d)(kid \<mapsto> rec)"
    "rec = rec0 \<or> live rec0 \<and> rec = rec0\<lparr>revoked_at := JStr (ce_now env)\<rparr>"
    by (metis option.inject)
  then show "\<exists>d'. file_records core (kw_open w') = Some d' \<and> records_kept d d'"
    by (intro exI [of _ d']) (auto simp: records_kept_def key_kept_def split: option.splits)
qed

interpretation key_lock: locked_rewrite "key_run core w" "file_keeps core" for core w
proof
  fix f show "file_keeps core f f"
    by (auto simp: file_keeps_def)
next
  fix f g h assume "file_keeps core f g" "file_keeps core g h"
  then show "file_keeps core f h" unfolding file_keeps_def by (meson records_kept_trans)
next
  fix c f f' assume "key_run core w c f = Some f'"
  then show "file_keeps core f f'"
    using file_keeps_mint [where w = "w\<lparr>kw_open := f\<rparr>"] file_keeps_revoke [where w = "w\<lparr>kw_open := f\<rparr>"]
    by (fastforce simp: key_run_def Let_def split: key_command.splits option.splits prod.splits sum.splits)
qed

text \<open>
  C25. However many \<^verbatim>\<open>keys create\<close> and \<^verbatim>\<open>keys revoke\<close> processes run at once, and however their steps
  interleave (some waiting, giving up or dying with the lock held), between any two points of the run
  every key the file held at the first is there at the second with the same principal, role, project, roots and
  digest, and a key revoked by then stays revoked: a concurrent mint never brings one back.
\<close>

theorem concurrent_commands_keep_keys:
  assumes "project_laws core" "(rmw_step (key_run core w))\<^sup>*\<^sup>* (rmw_start f) s"
    and "(rmw_step (key_run core w))\<^sup>*\<^sup>* s s'" "file_records core (rmw_file s) = Some d"
  shows "\<exists>d'. file_records core (rmw_file s') = Some d' \<and>
    (\<forall>k r. map_of d k = Some r \<longrightarrow>
       (\<exists>r'. map_of d' k = Some r' \<and> (r' = r \<or> live r \<and> (\<exists>t. r' = r\<lparr>revoked_at := JStr t\<rparr>))))"
proof -
  from key_lock.interleaving_keeps [OF assms(2,3)] assms(1,4) obtain d' where
    d': "file_records core (rmw_file s') = Some d'" "records_kept d d'"
    by (auto simp: file_keeps_def)
  have "\<exists>r'. map_of d' k = Some r' \<and> (r' = r \<or> live r \<and> (\<exists>t. r' = r\<lparr>revoked_at := JStr t\<rparr>))"
    if "map_of d k = Some r" for k r
    using d'(2) [unfolded records_kept_def, THEN spec, of k] that by (auto simp: key_kept_def)
  with d'(1) show ?thesis by blast
qed

text \<open>
  C26. The lock makes the commands atomic: in any run of any number of processes, the commands that got as far as
  writing the file or leaving it, in the order they did so, behave as when run one after the other: each writes
  what it writes on the file the one before it left, and the last of these is the file there is. So no
  command's change is lost to another's.
\<close>

theorem concurrent_commands_serialise:
  assumes "(rmw_step (key_run core w))\<^sup>*\<^sup>* (rmw_start f) s"
  shows "runs_serially (key_run core w) f (rmw_history s) (rmw_file s)"
  by (rule key_lock.interleaving_serial [OF assms])

text \<open>A run of two processes: one mints while the other waits for the lock.\<close>

definition demo_create :: key_command where
  "demo_create = KEYS_CREATE demo_cfg demo_proc demo_args (demo_env\<lparr>ce_ids := [replicate 6 0x2A]\<rparr>)"

definition demo_revoke_command :: key_command where
  "demo_revoke_command = KEYS_REVOKE demo_proc ''1f1f1f1f1f1f'' demo_env"

text \<open>What is on disk when the first process has minted, and when the second has then revoked.\<close>

definition demo_minted :: key_open where
  "demo_minted = the (key_run demo_core demo_world demo_create (kw_open demo_keyed))"

definition demo_revoked :: key_open where
  "demo_revoked = the (key_run demo_core demo_world demo_revoke_command demo_minted)"

lemma demo_commands_run:
  "key_run demo_core demo_world demo_create (kw_open demo_keyed) = Some demo_minted"
  "key_run demo_core demo_world demo_revoke_command demo_minted = Some demo_revoked"
proof -
  have "\<not> Option.is_none (key_run demo_core demo_world demo_create (kw_open demo_keyed))" by code_simp
  then show "key_run demo_core demo_world demo_create (kw_open demo_keyed) = Some demo_minted"
    by (auto simp: Option.is_none_def demo_minted_def)
  have "\<not> Option.is_none (key_run demo_core demo_world demo_revoke_command demo_minted)" by code_simp
  then show "key_run demo_core demo_world demo_revoke_command demo_minted = Some demo_revoked"
    by (auto simp: Option.is_none_def demo_revoked_def)
qed

abbreviation demo_state ::
  "key_open \<Rightarrow> nat option \<Rightarrow> (key_command, key_open) phase \<Rightarrow> (key_command, key_open) phase
     \<Rightarrow> (nat \<times> key_command \<times> key_open option) list \<Rightarrow> (key_command, key_open) rmw" where
  "demo_state f holder a b h \<equiv> \<lparr>rmw_file = f, rmw_holder = holder, rmw_phase = (\<lambda>_. IDLE)(0 := a, 1 := b), rmw_history = h\<rparr>"

lemma demo_run_minted:
  "(rmw_step (key_run demo_core demo_world))\<^sup>*\<^sup>* (rmw_start (kw_open demo_keyed))
     (demo_state demo_minted (Some 0) FINISHED (WAITING demo_revoke_command) [(0, demo_create, Some demo_minted)])"
proof -
  let ?run = "key_run demo_core demo_world" and ?f = "kw_open demo_keyed" and ?w = "WAITING demo_revoke_command"
  have "rmw_step ?run (rmw_start ?f) (demo_state ?f None (WAITING demo_create) IDLE [])"
    using start [of "rmw_start ?f" 0 ?run demo_create] by (simp add: rmw_start_def fun_upd_def if_distrib cong: if_cong)
  moreover have "rmw_step ?run (demo_state ?f None (WAITING demo_create) IDLE []) (demo_state ?f None (WAITING demo_create) ?w [])"
    using start [of "demo_state ?f None (WAITING demo_create) IDLE []" 1 ?run demo_revoke_command] by simp
  moreover have "rmw_step ?run (demo_state ?f None (WAITING demo_create) ?w []) (demo_state ?f (Some 0) (HOLDING demo_create) ?w [])"
    using acquire [of "demo_state ?f None (WAITING demo_create) ?w []" 0 demo_create ?run] by (simp add: fun_upd_twist)
  moreover have "rmw_step ?run (demo_state ?f (Some 0) (HOLDING demo_create) ?w [])
      (demo_state ?f (Some 0) (HAS_READ demo_create ?f) ?w [])"
    using read [of "demo_state ?f (Some 0) (HOLDING demo_create) ?w []" 0 demo_create ?run] by (simp add: fun_upd_twist)
  moreover have "rmw_step ?run (demo_state ?f (Some 0) (HAS_READ demo_create ?f) ?w [])
      (demo_state demo_minted (Some 0) FINISHED ?w [(0, demo_create, Some demo_minted)])"
    using replace [of "demo_state ?f (Some 0) (HAS_READ demo_create ?f) ?w []" 0 demo_create ?f ?run demo_minted]
      demo_commands_run(1) by (simp add: fun_upd_twist)
  ultimately show ?thesis by (meson rtranclp.rtrancl_into_rtrancl rtranclp.rtrancl_refl)
qed

lemma demo_run_revoked:
  "(rmw_step (key_run demo_core demo_world))\<^sup>*\<^sup>*
     (demo_state demo_minted (Some 0) FINISHED (WAITING demo_revoke_command) [(0, demo_create, Some demo_minted)])
     (demo_state demo_revoked (Some 1) IDLE FINISHED
       [(0, demo_create, Some demo_minted), (1, demo_revoke_command, Some demo_revoked)])"
proof -
  let ?run = "key_run demo_core demo_world" and ?c = demo_revoke_command and ?h = "[(0, demo_create, Some demo_minted)]"
  have "rmw_step ?run (demo_state demo_minted (Some 0) FINISHED (WAITING ?c) ?h) (demo_state demo_minted None IDLE (WAITING ?c) ?h)"
    using release [of "demo_state demo_minted (Some 0) FINISHED (WAITING ?c) ?h" 0 ?run] by (simp add: fun_upd_twist)
  moreover have "rmw_step ?run (demo_state demo_minted None IDLE (WAITING ?c) ?h) (demo_state demo_minted (Some 1) IDLE (HOLDING ?c) ?h)"
    using acquire [of "demo_state demo_minted None IDLE (WAITING ?c) ?h" 1 ?c ?run] by simp
  moreover have "rmw_step ?run (demo_state demo_minted (Some 1) IDLE (HOLDING ?c) ?h)
      (demo_state demo_minted (Some 1) IDLE (HAS_READ ?c demo_minted) ?h)"
    using read [of "demo_state demo_minted (Some 1) IDLE (HOLDING ?c) ?h" 1 ?c ?run] by simp
  moreover have "rmw_step ?run (demo_state demo_minted (Some 1) IDLE (HAS_READ ?c demo_minted) ?h)
      (demo_state demo_revoked (Some 1) IDLE FINISHED [(0, demo_create, Some demo_minted), (1, ?c, Some demo_revoked)])"
    using replace [of "demo_state demo_minted (Some 1) IDLE (HAS_READ ?c demo_minted) ?h" 1 ?c demo_minted ?run demo_revoked]
      demo_commands_run(2) by simp
  ultimately show ?thesis by (meson rtranclp.rtrancl_into_rtrancl rtranclp.rtrancl_refl)
qed

lemma demo_minted_records:
  "\<exists>d r. file_records demo_core demo_minted = Some d \<and> map_of d ''1f1f1f1f1f1f'' = Some r \<and> principal r = ''bot''"
proof -
  have "(case file_records demo_core demo_minted of None \<Rightarrow> False
      | Some d \<Rightarrow> (case map_of d ''1f1f1f1f1f1f'' of None \<Rightarrow> False | Some r \<Rightarrow> principal r = ''bot''))" by code_simp
  then show ?thesis by (simp split: option.splits)
qed

theorem concurrent_commands_keep_keys_witness:
  "\<exists>s s' d' r'. (rmw_step (key_run demo_core demo_world))\<^sup>*\<^sup>* (rmw_start (kw_open demo_keyed)) s
     \<and> (rmw_step (key_run demo_core demo_world))\<^sup>*\<^sup>* s s' \<and> rmw_file s = demo_minted \<and> rmw_file s' = demo_revoked
     \<and> file_records demo_core (rmw_file s') = Some d' \<and> map_of d' ''1f1f1f1f1f1f'' = Some r' \<and> principal r' = ''bot''"
proof -
  obtain d r where d: "file_records demo_core demo_minted = Some d" "map_of d ''1f1f1f1f1f1f'' = Some r" "principal r = ''bot''"
    using demo_minted_records by blast
  obtain d' r' where "file_records demo_core demo_revoked = Some d'" "map_of d' ''1f1f1f1f1f1f'' = Some r'"
      "r' = r \<or> (\<exists>t. r' = r\<lparr>revoked_at := JStr t\<rparr>)"
    using concurrent_commands_keep_keys [OF demo_laws demo_run_minted demo_run_revoked] d by (simp, blast)
  moreover have "principal r' = ''bot''" using calculation(3) d(3) by auto
  ultimately show ?thesis
    using demo_run_minted demo_run_revoked by (intro exI conjI) (assumption | simp)+
qed

theorem concurrent_commands_serialise_witness:
  "runs_serially (key_run demo_core demo_world) (kw_open demo_keyed)
     [(0, demo_create, Some demo_minted), (1, demo_revoke_command, Some demo_revoked)] demo_revoked"
  using concurrent_commands_serialise [OF rtranclp_trans [OF demo_run_minted demo_run_revoked]] by simp

end
