(* ===== verification/Ip_Address.thy ===== *)
theory Ip_Address
  imports Py_Prelude
begin

text \<open>
  The part of Python's \<^verbatim>\<open>ipaddress\<close> module (3.11, the version the container image runs) that
  \<^verbatim>\<open>api/auth.py\<close> and \<^verbatim>\<open>api/_rate_limit.py\<close> call: \<^verbatim>\<open>ip_address\<close>, \<^verbatim>\<open>ip_network(strict=False)\<close>,
  membership, \<^verbatim>\<open>is_loopback\<close>, \<^verbatim>\<open>ipv4_mapped\<close> and the printed forms. An address keeps its width:
  an IPv4 address is a \<^typ>\<open>32 word\<close>, an IPv6 address a \<^typ>\<open>128 word\<close> with its zone identifier.
\<close>

unbundle bit_operations_syntax

datatype ip = V4 "32 word" | V6 "128 word" "string option"

datatype ip_net = Net4 "32 word" nat | Net6 "128 word" "string option" nat

section \<open>Parsing\<close>

definition parse_octet :: "string \<Rightarrow> int option" where
  "parse_octet s =
     (if s = [] then None
      else if \<not> is_ascii_decimal s then None
      else if length s > 3 then None
      else if s \<noteq> ''0'' \<and> hd s = CHR ''0'' then None
      else if numeral_value 10 s > 255 then None
      else Some (numeral_value 10 s))"

definition parse_v4 :: "string \<Rightarrow> 32 word option" where
  "parse_v4 s =
     (if CHR ''/'' \<in> set s then None
      else case map parse_octet (split_on (CHR ''.'') s) of
        [Some a, Some b, Some c, Some d] \<Rightarrow>
          Some (of_int (((a * 256 + b) * 256 + c) * 256 + d))
      | _ \<Rightarrow> None)"

definition parse_hextet :: "string \<Rightarrow> int option" where
  "parse_hextet s =
     (if s = [] \<or> \<not> list_all is_hex_digit s \<or> length s > 4 then None
      else Some (numeral_value 16 s))"

fun parse_hextets :: "string list \<Rightarrow> int list option" where
  "parse_hextets [] = Some []"
| "parse_hextets (p # ps) =
     (case parse_hextet p of None \<Rightarrow> None
      | Some n \<Rightarrow> map_option (\<lambda>ns. n # ns) (parse_hextets ps))"

definition v6_of_hextets :: "int list \<Rightarrow> 128 word" where
  "v6_of_hextets ns = foldl (\<lambda>acc n. acc * 65536 + of_int n) 0 ns"

text \<open>An IPv4-style last part is rewritten as two hexadecimal parts.\<close>

definition expand_v4_suffix :: "string list \<Rightarrow> string list option" where
  "expand_v4_suffix parts =
     (if CHR ''.'' \<in> set (last parts) then
        (case parse_v4 (last parts) of
           None \<Rightarrow> None
         | Some w \<Rightarrow> Some (butlast parts @ [show_hex (nat (uint w div 65536)), show_hex (nat (uint w mod 65536))]))
      else Some parts)"

definition inner_gaps :: "string list \<Rightarrow> nat list" where
  "inner_gaps parts = filter (\<lambda>i. parts ! i = []) [1..<length parts - 1]"

definition parse_v6_parts :: "string list \<Rightarrow> 128 word option" where
  "parse_v6_parts parts =
     (case inner_gaps parts of
        [] \<Rightarrow>
          (if length parts \<noteq> 8 \<or> hd parts = [] \<or> last parts = [] then None
           else map_option v6_of_hextets (parse_hextets parts))
      | [skip] \<Rightarrow>
          (let hi = (if hd parts = [] then skip - 1 else skip);
               lo = (if last parts = [] then length parts - skip - 2 else length parts - skip - 1)
           in if hd parts = [] \<and> hi \<noteq> 0 then None
              else if last parts = [] \<and> lo \<noteq> 0 then None
              else if hi + lo \<ge> 8 then None
              else (case parse_hextets (take hi parts) of
                      None \<Rightarrow> None
                    | Some hs \<Rightarrow>
                        (case parse_hextets (drop (length parts - lo) parts) of
                           None \<Rightarrow> None
                         | Some ls \<Rightarrow> Some (v6_of_hextets (hs @ replicate (8 - (hi + lo)) 0 @ ls)))))
      | _ \<Rightarrow> None)"

definition v6_int_from_string :: "string \<Rightarrow> 128 word option" where
  "v6_int_from_string s =
     (let parts = split_on (CHR '':'') s in
      if s = [] \<or> length parts < 3 then None
      else case expand_v4_suffix parts of
             None \<Rightarrow> None
           | Some ps \<Rightarrow> if length ps > 9 then None else parse_v6_parts ps)"

definition split_scope_id :: "string \<Rightarrow> (string \<times> string option) option" where
  "split_scope_id s =
     (case py_partition (CHR ''%'') s of (addr, sep, scope) \<Rightarrow>
        if \<not> sep then Some (addr, None)
        else if scope = [] \<or> CHR ''%'' \<in> set scope then None
        else Some (addr, Some scope))"

definition parse_v6 :: "string \<Rightarrow> (128 word \<times> string option) option" where
  "parse_v6 s =
     (if CHR ''/'' \<in> set s then None
      else case split_scope_id s of
             None \<Rightarrow> None
           | Some (addr, scope) \<Rightarrow> map_option (\<lambda>w. (w, scope)) (v6_int_from_string addr))"

definition ip_address :: "string \<Rightarrow> ip option" where
  "ip_address s =
     (case parse_v4 s of
        Some w \<Rightarrow> Some (V4 w)
      | None \<Rightarrow> map_option (\<lambda>(w, scope). V6 w scope) (parse_v6 s))"

section \<open>Networks\<close>

definition prefix_from_prefix_string :: "nat \<Rightarrow> string \<Rightarrow> nat option" where
  "prefix_from_prefix_string width s =
     (if is_ascii_decimal s \<and> numeral_value 10 s \<le> int width then Some (nat (numeral_value 10 s)) else None)"

text \<open>The mask of a prefix length: that many leading ones.\<close>

definition netmask :: "nat \<Rightarrow> 'a::len word" where
  "netmask p = NOT (mask (LENGTH('a) - p))"

definition prefix_from_v4_mask :: "32 word \<Rightarrow> nat option" where
  "prefix_from_v4_mask w = find (\<lambda>p. netmask p = w) [0..<33]"

definition prefix_from_v4_string :: "string \<Rightarrow> nat option" where
  "prefix_from_v4_string s =
     (if CHR ''/'' \<in> set s then None
      else case parse_v4 s of
        None \<Rightarrow> None
      | Some w \<Rightarrow> (case prefix_from_v4_mask w of Some p \<Rightarrow> Some p | None \<Rightarrow> prefix_from_v4_mask (NOT w)))"

definition make_netmask4 :: "string \<Rightarrow> nat option" where
  "make_netmask4 s =
     (case prefix_from_prefix_string 32 s of Some p \<Rightarrow> Some p | None \<Rightarrow> prefix_from_v4_string s)"

definition make_netmask6 :: "string \<Rightarrow> nat option" where
  "make_netmask6 s = prefix_from_prefix_string 128 s"

definition ip_network4 :: "string \<Rightarrow> nat option \<Rightarrow> ip_net option" where
  "ip_network4 addr p =
     (case (parse_v4 addr, p) of
        (Some w, Some p) \<Rightarrow> Some (Net4 (w AND netmask p) p)
      | _ \<Rightarrow> None)"

text \<open>The zone identifier survives only when the address has no host bits.\<close>

definition ip_network6 :: "string \<Rightarrow> nat option \<Rightarrow> ip_net option" where
  "ip_network6 addr p =
     (case (parse_v6 addr, p) of
        (Some (w, scope), Some p) \<Rightarrow>
          Some (if w AND netmask p \<noteq> w then Net6 (w AND netmask p) None p else Net6 w scope p)
      | _ \<Rightarrow> None)"

definition ip_network :: "string \<Rightarrow> ip_net option" where
  "ip_network s =
     (case split_on (CHR ''/'') s of
        [addr] \<Rightarrow>
          (case ip_network4 addr (Some 32) of Some n \<Rightarrow> Some n | None \<Rightarrow> ip_network6 addr (Some 128))
      | [addr, m] \<Rightarrow>
          (case ip_network4 addr (make_netmask4 m) of
             Some n \<Rightarrow> Some n
           | None \<Rightarrow> ip_network6 addr (make_netmask6 m))
      | _ \<Rightarrow> None)"

fun in_network :: "ip \<Rightarrow> ip_net \<Rightarrow> bool" where
  "in_network (V4 w) (Net4 a p) = (w AND netmask p = a)"
| "in_network (V6 w _) (Net6 a _ p) = (w AND netmask p = a)"
| "in_network _ _ = False"

section \<open>Classification and printing\<close>

definition loopback_network :: ip_net where
  "loopback_network = Net4 0x7F000000 8"

fun is_loopback :: "ip \<Rightarrow> bool" where
  "is_loopback (V4 w) = in_network (V4 w) loopback_network"
| "is_loopback (V6 w _) = (w = 1)"

definition ipv4_mapped :: "128 word \<Rightarrow> 32 word option" where
  "ipv4_mapped w = (if drop_bit 32 w = 0xFFFF then Some (ucast w) else None)"

definition show_v4 :: "32 word \<Rightarrow> string" where
  "show_v4 w =
     (let n = uint w in
      join_with ''.'' [show_int (n div 16777216), show_int (n div 65536 mod 256),
        show_int (n div 256 mod 256), show_int (n mod 256)])"

definition hextets_of :: "128 word \<Rightarrow> string list" where
  "hextets_of w = map (\<lambda>i. show_hex (nat (uint (drop_bit (16 * (7 - i)) w) mod 65536))) [0..<8]"

text \<open>
  The first longest run of zero parts, as \<^verbatim>\<open>(best start, best length)\<close>: \<open>st\<close> and \<open>len\<close> are the
  run being counted, \<open>bst\<close> and \<open>blen\<close> the best one so far.
\<close>

fun zero_run :: "nat \<Rightarrow> nat \<Rightarrow> nat \<Rightarrow> nat \<Rightarrow> nat \<Rightarrow> string list \<Rightarrow> nat \<times> nat" where
  "zero_run i st len bst blen [] = (bst, blen)"
| "zero_run i st len bst blen (h # hs) =
     (if h = ''0'' then
        (let st' = (if len = 0 then i else st); len' = len + 1 in
         if len' > blen then zero_run (i + 1) st' len' st' len' hs
         else zero_run (i + 1) st' len' bst blen hs)
      else zero_run (i + 1) 0 0 bst blen hs)"

definition compress_hextets :: "string list \<Rightarrow> string list" where
  "compress_hextets hs =
     (case zero_run 0 0 0 0 0 hs of (bst, blen) \<Rightarrow>
        if blen > 1 then
          (if bst = 0 then [[]] else []) @ take bst hs @ [[]] @ drop (bst + blen) hs
            @ (if bst + blen = length hs then [[]] else [])
        else hs)"

definition show_v6 :: "128 word \<Rightarrow> string option \<Rightarrow> string" where
  "show_v6 w scope =
     join_with '':'' (compress_hextets (hextets_of w))
       @ (case scope of None \<Rightarrow> [] | Some z \<Rightarrow> ''%'' @ z)"

section \<open>Properties\<close>

text \<open>Membership compares the leading bits the prefix keeps.\<close>

lemma and_netmask_eq_iff:
  fixes v w :: "'a::len word"
  shows "v AND netmask p = w AND netmask p \<longleftrightarrow>
    drop_bit (LENGTH('a) - p) v = drop_bit (LENGTH('a) - p) w"
proof -
  have shift: "u AND netmask p = push_bit (LENGTH('a) - p) (drop_bit (LENGTH('a) - p) u)"
    for u :: "'a word"
    by (rule bit_word_eqI) (auto simp: netmask_def bit_simps)
  show ?thesis
  proof
    assume "v AND netmask p = w AND netmask p"
    then have "drop_bit (LENGTH('a) - p) (v AND netmask p) = drop_bit (LENGTH('a) - p) (w AND netmask p)"
      by simp
    moreover have "drop_bit (LENGTH('a) - p) (u AND netmask p) = drop_bit (LENGTH('a) - p) u"
      for u :: "'a word"
      by (rule bit_word_eqI) (auto simp: netmask_def bit_simps dest: bit_imp_le_length)
    ultimately show "drop_bit (LENGTH('a) - p) v = drop_bit (LENGTH('a) - p) w" by simp
  qed (simp add: shift)
qed

lemma in_network_masked:
  "in_network (V4 w) (Net4 (a AND netmask p) p) \<longleftrightarrow> drop_bit (32 - p) w = drop_bit (32 - p) a"
  using and_netmask_eq_iff [of w p a] by simp

lemma v4_loopback_iff: "is_loopback (V4 w) \<longleftrightarrow> uint w div 16777216 = 127"
proof -
  have net: "loopback_network = Net4 (0x7F000000 AND netmask 8) 8"
    by (simp add: loopback_network_def netmask_def mask_eq_exp_minus_1)
  have "is_loopback (V4 w) \<longleftrightarrow> drop_bit 24 w = drop_bit 24 (0x7F000000 :: 32 word)"
    using in_network_masked [of w "0x7F000000" 8] by (simp add: net)
  also have "\<dots> \<longleftrightarrow> uint (drop_bit 24 w) = 127"
    by (simp add: word_uint_eq_iff)
  also have "uint (drop_bit 24 w) = uint w div 16777216"
    by (simp add: drop_bit_eq_div uint_div)
  finally show ?thesis .
qed

lemma v6_loopback_iff: "is_loopback (V6 w z) \<longleftrightarrow> w = 1"
  by simp

end
