(* ===== verification/Request_Origin.thy ===== *)
theory Request_Origin
  imports Ip_Address
begin

text \<open>
  Where a request comes from and what it names, the first half of \<^verbatim>\<open>particles/api/auth.py\<close>: the
  loopback test, the client behind trusted proxies, the cross-site test of a browser's request, the
  bind the engine was started with, and the \<^verbatim>\<open>Host\<close> names it answers.

  A request is the record \<open>request\<close>: header names lower case, in the order they arrived, the peer's
  host and the local address as the server gives them. \<^verbatim>\<open>urlsplit\<close> is modelled as far as its
  \<^verbatim>\<open>netloc\<close>, \<^const>\<open>None\<close> when it raises; uvicorn's own command-line parser is a parameter of the launch.
\<close>

record api_config =
  trusted_proxies :: "string list"
  allowed_origins :: "string list"
  allowed_hosts :: "string list"
  bind_host :: string
  require_auth_for_reads :: bool

record request =
  rq_client :: "string option"
  rq_headers :: "(string \<times> string) list"
  rq_server :: "string option" \<comment> \<open>the host of the scope's \<^verbatim>\<open>server\<close>, when it names one\<close>
  rq_method :: string
  rq_path :: string

definition header :: "request \<Rightarrow> string \<Rightarrow> string option" where
  "header rq name = map_of (rq_headers rq) name"

definition header_lines :: "request \<Rightarrow> string \<Rightarrow> string list" where
  "header_lines rq name = map snd (filter (\<lambda>h. fst h = name) (rq_headers rq))"

section \<open>Addresses\<close>

definition is_loopback_host :: "string \<Rightarrow> bool" where
  "is_loopback_host host =
     (let h = py_lower (strip host) in
      if h = ''localhost'' then True
      else
        let h1 = removesuffix '']'' (removeprefix ''['' h);
            h2 = before (CHR ''%'') h1
        in (case ip_address h2 of None \<Rightarrow> False | Some a \<Rightarrow> is_loopback a))"

definition ip_in_networks :: "string \<Rightarrow> string list \<Rightarrow> bool" where
  "ip_in_networks host networks =
     (case ip_address (strip host) of
        None \<Rightarrow> False
      | Some a \<Rightarrow>
          list_ex (\<lambda>net. case ip_network (strip net) of None \<Rightarrow> False | Some n \<Rightarrow> in_network a n) networks)"

definition is_ip :: "string \<Rightarrow> bool" where
  "is_ip value = (ip_address value \<noteq> None)"

definition UNREADABLE_HOP :: string where
  "UNREADABLE_HOP = ''unreadable-forwarded-hop''"

definition forwarded_hop_address :: "string \<Rightarrow> string option" where
  "forwarded_hop_address hop =
     (let judged = (\<lambda>candidate. if is_ip candidate then Some candidate else None) in
      if startswith ''['' hop then
        (case py_partition (CHR '']'') (tl hop) of (inside, sep, rest) \<Rightarrow>
           if \<not> sep \<or> (rest \<noteq> [] \<and> \<not> (startswith '':'' rest \<and> py_isdigit (tl rest))) then None
           else judged inside)
      else if count_list hop (CHR '':'') = 1 then
        (case py_partition (CHR '':'') hop of (host, _, port) \<Rightarrow>
           if \<not> py_isdigit port then None else judged host)
      else judged hop)"

text \<open>The walk over the forwarded hops, nearest first; \<open>peer\<close> when every hop is trusted.\<close>

fun nearest_untrusted :: "string list \<Rightarrow> string \<Rightarrow> string list \<Rightarrow> string" where
  "nearest_untrusted trusted peer [] = peer"
| "nearest_untrusted trusted peer (hop # hops) =
     (case forwarded_hop_address hop of
        None \<Rightarrow> UNREADABLE_HOP
      | Some address \<Rightarrow>
          if \<not> ip_in_networks address trusted then address else nearest_untrusted trusted peer hops)"

definition forwarded_hops :: "request \<Rightarrow> string list" where
  "forwarded_hops rq =
     (let forwarded = join_with '','' (header_lines rq ''x-forwarded-for'')
      in filter (\<lambda>h. h \<noteq> []) (map strip (split_on (CHR '','') forwarded)))"

definition real_client_host :: "api_config \<Rightarrow> request \<Rightarrow> string option" where
  "real_client_host cfg rq =
     (case rq_client rq of
        None \<Rightarrow> None
      | Some peer \<Rightarrow>
          let trusted = trusted_proxies cfg in
          if trusted = [] \<or> \<not> ip_in_networks peer trusted then Some peer
          else Some (nearest_untrusted trusted peer (rev (forwarded_hops rq))))"

definition client_is_loopback :: "api_config \<Rightarrow> request \<Rightarrow> bool" where
  "client_is_loopback cfg rq =
     (case real_client_host cfg rq of None \<Rightarrow> False | Some host \<Rightarrow> is_loopback_host host)"

section \<open>Cross-site browser requests\<close>

definition SAFE_FETCH_SITES :: "string list" where
  "SAFE_FETCH_SITES = [''same-origin'', ''none'']"

definition host_without_port :: "string \<Rightarrow> string" where
  "host_without_port host =
     (let h = strip host in
      if startswith ''['' h then before (CHR '']'') h @ '']''
      else if count_list h (CHR '':'') = 1 then before (CHR '':'') h
      else h)"

definition is_browser_request :: "request \<Rightarrow> bool" where
  "is_browser_request rq = (header rq ''sec-fetch-site'' \<noteq> None \<or> header rq ''origin'' \<noteq> None)"

definition is_scheme_char :: "char \<Rightarrow> bool" where
  "is_scheme_char c =
     (is_ascii_digit c \<or> 65 \<le> code_of c \<and> code_of c \<le> 90 \<or> 97 \<le> code_of c \<and> code_of c \<le> 122
      \<or> c \<in> {CHR ''+'', CHR ''-'', CHR ''.''})"

definition drop_scheme :: "string \<Rightarrow> string" where
  "drop_scheme url =
     (case py_partition (CHR '':'') url of (scheme, found, rest) \<Rightarrow>
        if found \<and> scheme \<noteq> [] \<and> list_all is_scheme_char scheme \<and> \<not> is_ascii_digit (hd scheme)
           \<and> hd scheme \<notin> {CHR ''+'', CHR ''-'', CHR ''.''}
        then rest else url)"

text \<open>\<^verbatim>\<open>_check_bracketed_host\<close>: what stands in brackets is a future address or an IPv6 one.\<close>

definition bracketed_host_ok :: "string \<Rightarrow> bool" where
  "bracketed_host_ok h =
     (if startswith ''v'' h then
        (case py_partition (CHR ''.'') (tl h) of (version, found, rest) \<Rightarrow>
           found \<and> version \<noteq> [] \<and> list_all is_hex_digit version \<and> rest \<noteq> [] \<and> CHR ''\<newline>'' \<notin> set rest)
      else (case ip_address h of Some (V6 _ _) \<Rightarrow> True | _ \<Rightarrow> False))"

definition urlsplit_netloc :: "string \<Rightarrow> string option" where
  "urlsplit_netloc url =
     (let cleaned = filter (\<lambda>c. code_of c \<notin> {9, 10, 13}) (dropWhile (\<lambda>c. code_of c \<le> 32) url);
          rest = drop_scheme cleaned
      in if \<not> startswith ''//'' rest then Some []
         else
           let netloc = takeWhile (\<lambda>c. c \<notin> {CHR ''/'', CHR ''?'', CHR ''#''}) (drop 2 rest);
               opened = CHR ''['' \<in> set netloc;
               closed = CHR '']'' \<in> set netloc
           in if opened \<noteq> closed then None
              else if opened \<and> \<not> bracketed_host_ok
                     (before (CHR '']'') (snd (snd (py_partition (CHR ''['') netloc))))
              then None
              else Some netloc)"

datatype cross_site = SAME_SITE | CROSS_FETCH_SITE string | CROSS_ORIGIN string | ORIGIN_RAISES

definition folded_origin :: "string \<Rightarrow> string" where
  "folded_origin o0 = py_lower (rstrip_char (CHR ''/'') (strip o0))"

definition cross_site_reason :: "api_config \<Rightarrow> request \<Rightarrow> cross_site" where
  "cross_site_reason cfg rq =
     (let origin = header rq ''origin'';
          site = header rq ''sec-fetch-site'';
          listed = (case origin of
                      None \<Rightarrow> False
                    | Some o0 \<Rightarrow> folded_origin o0 \<in> set (map folded_origin (allowed_origins cfg)))
      in if listed then SAME_SITE
         else case site of
           Some s \<Rightarrow>
             if py_lower (strip s) \<in> set SAFE_FETCH_SITES then SAME_SITE else CROSS_FETCH_SITE (strip s)
         | None \<Rightarrow>
             (case origin of
                None \<Rightarrow> SAME_SITE
              | Some o0 \<Rightarrow>
                  (case urlsplit_netloc (strip o0) of
                     None \<Rightarrow> ORIGIN_RAISES
                   | Some netloc0 \<Rightarrow>
                       let netloc = py_lower netloc0;
                           host = py_lower (strip (case header rq ''host'' of None \<Rightarrow> [] | Some h \<Rightarrow> h))
                       in if netloc \<noteq> [] \<and> netloc = host then SAME_SITE else CROSS_ORIGIN (strip o0))))"

section \<open>The bind\<close>

text \<open>What uvicorn's parser reads off a command line; \<^const>\<open>None\<close> when it raises.\<close>

record uvicorn_params =
  uv_uds :: "string option"
  uv_fd :: "int option"
  uv_host :: "string option"

record launch =
  argv :: "string list"
  uvicorn_parse :: "string list \<Rightarrow> uvicorn_params option"

definition UNPROVEN_BIND :: string where
  "UNPROVEN_BIND = ''<inherited socket>''"

definition UNIX_SOCKET_BIND :: string where
  "UNIX_SOCKET_BIND = ''<unix socket>''"

definition OPAQUE_LAUNCHERS :: "string list" where
  "OPAQUE_LAUNCHERS = [''gunicorn'', ''hypercorn'', ''granian'', ''daphne'', ''fastapi'']"

text \<open>The components of a \<^verbatim>\<open>Path\<close>; the last is its name, empty when there is none.\<close>

definition path_parts :: "string \<Rightarrow> string list" where
  "path_parts p = filter (\<lambda>c. c \<noteq> [] \<and> c \<noteq> ''.'') (split_on (CHR ''/'') p)"

definition path_name :: "string list \<Rightarrow> string" where
  "path_name parts = (if parts = [] then [] else last parts)"

definition launcher_name :: "launch \<Rightarrow> string option" where
  "launcher_name l =
     (case argv l of
        [] \<Rightarrow> None
      | program # _ \<Rightarrow>
          let parts = path_parts program in
          if path_name parts = ''__main__.py'' then Some (path_name (butlast parts))
          else Some (path_name parts))"

definition uvicorn_cli_bind :: "launch \<Rightarrow> string option" where
  "uvicorn_cli_bind l =
     (if launcher_name l \<noteq> Some ''uvicorn'' then None
      else case uvicorn_parse l (tl (argv l)) of
             None \<Rightarrow> Some UNPROVEN_BIND
           | Some params \<Rightarrow>
               if (case uv_uds params of None \<Rightarrow> False | Some u \<Rightarrow> u \<noteq> []) then Some UNIX_SOCKET_BIND
               else if uv_fd params \<noteq> None then Some UNPROVEN_BIND
               else Some (case uv_host params of None \<Rightarrow> ''127.0.0.1'' | Some h \<Rightarrow> h))"

datatype bind_source = FROM_CONFIG | FROM_COMMAND_LINE

definition startup_bind :: "api_config \<Rightarrow> string option \<Rightarrow> string \<times> bind_source" where
  "startup_bind cfg cli_bind =
     (case cli_bind of None \<Rightarrow> (bind_host cfg, FROM_CONFIG) | Some b \<Rightarrow> (b, FROM_COMMAND_LINE))"

definition startup_bind_is_loopback :: "api_config \<Rightarrow> launch \<Rightarrow> bool" where
  "startup_bind_is_loopback cfg l = is_loopback_host (fst (startup_bind cfg (uvicorn_cli_bind l)))"

section \<open>Hosts\<close>

definition served_on_loopback :: "string option \<Rightarrow> bool option" where
  "served_on_loopback server =
     (case server of
        None \<Rightarrow> None
      | Some host \<Rightarrow> map_option is_loopback (ip_address (before (CHR ''%'') host)))"

definition host_rule_is_loopback :: "api_config \<Rightarrow> launch \<Rightarrow> string option \<Rightarrow> bool" where
  "host_rule_is_loopback cfg l server =
     (let bind = fst (startup_bind cfg (uvicorn_cli_bind l)) in
      if is_loopback_host bind then True
      else case served_on_loopback server of
             Some served \<Rightarrow> served
           | None \<Rightarrow> bind \<in> {UNPROVEN_BIND, UNIX_SOCKET_BIND})"

definition host_is_allowed :: "api_config \<Rightarrow> launch \<Rightarrow> string \<Rightarrow> bool \<Rightarrow> string option \<Rightarrow> bool" where
  "host_is_allowed cfg l host dev_key server =
     (let name = py_lower (host_without_port host) in
      if is_loopback_host name then True
      else if allowed_hosts cfg = [] then \<not> dev_key \<and> \<not> host_rule_is_loopback cfg l server
      else list_ex (\<lambda>entry. (startswith ''*.'' entry \<and> endswith (tl entry) name) \<or> name = entry)
             (allowed_hosts cfg))"

section \<open>Loopback names\<close>

lemma is_loopback_iff:
  "is_loopback a \<longleftrightarrow> (\<exists>w. a = V4 w \<and> uint w div 16777216 = 127) \<or> (\<exists>z. a = V6 1 z)"
  by (cases a) (auto simp: v4_loopback_iff v6_loopback_iff simp del: is_loopback.simps)

text \<open>
  The loopback test fails closed: a host passes only when it is \<^verbatim>\<open>localhost\<close> or reads, brackets and
  zone removed, as an address of 127.0.0.0/8 or as \<^verbatim>\<open>::1\<close>. A host name, an empty string, a wildcard
  address and the stand-in for an unreadable forwarded hop never do.
\<close>

theorem loopback_host_iff:
  "(is_loopback_host host \<longleftrightarrow>
     py_lower (strip host) = ''localhost'' \<or>
     (\<exists>w. ip_address (before (CHR ''%'') (removesuffix '']'' (removeprefix ''['' (py_lower (strip host)))))
            = Some (V4 w) \<and> uint w div 16777216 = 127) \<or>
     (\<exists>z. ip_address (before (CHR ''%'') (removesuffix '']'' (removeprefix ''['' (py_lower (strip host)))))
            = Some (V6 1 z))) \<and>
   \<not> is_loopback_host [] \<and> \<not> is_loopback_host ''0.0.0.0'' \<and> \<not> is_loopback_host ''::'' \<and>
   \<not> is_loopback_host UNREADABLE_HOP \<and> is_loopback_host ''[::1]''"
proof -
  let ?a = "ip_address (before (CHR ''%'') (removesuffix '']'' (removeprefix ''['' (py_lower (strip host)))))"
  have "is_loopback_host host \<longleftrightarrow> py_lower (strip host) = ''localhost'' \<or> (\<exists>a. ?a = Some a \<and> is_loopback a)"
    by (auto simp: is_loopback_host_def Let_def split: option.splits)
  moreover have "\<not> is_loopback_host []" "\<not> is_loopback_host ''0.0.0.0''" "\<not> is_loopback_host ''::''"
    "\<not> is_loopback_host UNREADABLE_HOP" "is_loopback_host ''[::1]''"
    by code_simp+
  ultimately show ?thesis by (simp add: is_loopback_iff) blast
qed

section \<open>Forwarded hops\<close>

definition hops_of :: "string \<Rightarrow> string list" where
  "hops_of s = filter (\<lambda>h. h \<noteq> []) (map strip (split_on (CHR '','') s))"

lemma hops_of_append: "hops_of (a @ '','' @ b) = hops_of a @ hops_of b"
  by (simp add: hops_of_def split_on_append)

lemma hops_of_Nil [simp]: "hops_of [] = []"
  by (simp add: hops_of_def strip_def lstrip_def rstrip_def)

lemma hops_of_join: "hops_of (join_with '','' ls) = concat (map hops_of ls)"
proof (induction "'',''" ls rule: join_with.induct)
  case (3 p q ps)
  then show ?case using hops_of_append [of p "join_with '','' (q # ps)"] by simp
qed simp_all

lemma forwarded_hops_lines: "forwarded_hops rq = concat (map hops_of (header_lines rq ''x-forwarded-for''))"
  using hops_of_join by (simp add: forwarded_hops_def hops_of_def Let_def)

text \<open>A hop where the walk stops: not an address, or one outside the trusted proxies.\<close>

definition stops_walk :: "string list \<Rightarrow> string \<Rightarrow> bool" where
  "stops_walk trusted hop =
     (case forwarded_hop_address hop of None \<Rightarrow> True | Some a \<Rightarrow> \<not> ip_in_networks a trusted)"

lemma nearest_untrusted_stops:
  "list_ex (stops_walk trusted) near \<Longrightarrow>
     nearest_untrusted trusted peer (near @ far) = nearest_untrusted trusted peer near"
  by (induction near) (auto simp: stops_walk_def split: option.splits)

lemma nearest_untrusted_result:
  "nearest_untrusted trusted peer hops = peer \<or> nearest_untrusted trusted peer hops = UNREADABLE_HOP \<or>
     \<not> ip_in_networks (nearest_untrusted trusted peer hops) trusted"
  by (induction hops) (auto split: option.splits)

text \<open>
  C34. A client cannot choose the address it is judged by. Behind a trusted proxy, once the proxies have
  recorded a hop that is not one of theirs (or that names no address), whatever \<^verbatim>\<open>X-Forwarded-For\<close> lines
  the client sent ahead of theirs change nothing: the request is judged as if the client had sent none.
\<close>

theorem forged_forwarded_lines_ignored:
  assumes "header_lines rq ''x-forwarded-for'' = forged @ recorded"
    and "header_lines rq' ''x-forwarded-for'' = recorded" and "rq_client rq' = rq_client rq"
    and "list_ex (stops_walk (trusted_proxies cfg)) (concat (map hops_of recorded))"
  shows "real_client_host cfg rq = real_client_host cfg rq' \<and> client_is_loopback cfg rq = client_is_loopback cfg rq'"
proof -
  have "list_ex (stops_walk (trusted_proxies cfg)) (rev (concat (map hops_of recorded)))"
    using assms(4) by simp
  then have "nearest_untrusted (trusted_proxies cfg) peer (rev (forwarded_hops rq)) =
      nearest_untrusted (trusted_proxies cfg) peer (rev (forwarded_hops rq'))" for peer
    using assms(1,2) by (simp add: forwarded_hops_lines nearest_untrusted_stops)
  then have "real_client_host cfg rq = real_client_host cfg rq'"
    using assms(3) by (simp add: real_client_host_def Let_def split: option.splits)
  then show ?thesis by (simp add: client_is_loopback_def)
qed

text \<open>
  The forwarded header is believed of a trusted proxy only: a request whose peer is not one is judged
  by that peer, whatever its headers say, and a request with no peer is never taken for a local one.
  Behind a trusted proxy the client judged is that proxy, an address outside the trusted networks, or
  the unreadable stand-in, which is not loopback.
\<close>

theorem real_client_is_peer_or_untrusted:
  "case rq_client rq of
     None \<Rightarrow> real_client_host cfg rq = None \<and> \<not> client_is_loopback cfg rq
   | Some peer \<Rightarrow>
       (\<exists>host. real_client_host cfg rq = Some host \<and>
          (if ip_in_networks peer (trusted_proxies cfg)
           then host \<in> {peer, UNREADABLE_HOP} \<union> {h. \<not> ip_in_networks h (trusted_proxies cfg)}
           else host = peer))"
proof (cases "rq_client rq")
  case None
  then show ?thesis by (simp add: real_client_host_def client_is_loopback_def)
next
  case (Some peer)
  have "ip_in_networks peer [] = False" by (simp add: ip_in_networks_def split: option.splits)
  with Some show ?thesis
    using nearest_untrusted_result [of "trusted_proxies cfg" peer "rev (forwarded_hops rq)"]
    by (auto simp: real_client_host_def Let_def)
qed

definition proxied :: "string list \<Rightarrow> request" where
  "proxied ls = \<lparr>rq_client = Some ''10.0.0.1'', rq_headers = map (\<lambda>l. (''x-forwarded-for'', l)) ls,
     rq_server = None, rq_method = ''GET'', rq_path = ''/''\<rparr>"

definition behind_proxy :: api_config where
  "behind_proxy = \<lparr>trusted_proxies = [''10.0.0.0/8''], allowed_origins = [], allowed_hosts = [],
     bind_host = ''127.0.0.1'', require_auth_for_reads = False\<rparr>"

theorem forged_forwarded_lines_ignored_witness:
  "real_client_host behind_proxy (proxied [''127.0.0.1'', ''203.0.113.7:4711, 10.0.0.2''])
     = real_client_host behind_proxy (proxied [''203.0.113.7:4711, 10.0.0.2'']) \<and>
   real_client_host behind_proxy (proxied [''203.0.113.7:4711, 10.0.0.2'']) = Some ''203.0.113.7''"
proof -
  have stop: "list_ex (stops_walk (trusted_proxies behind_proxy)) (concat (map hops_of [''203.0.113.7:4711, 10.0.0.2'']))"
    by code_simp
  have "real_client_host behind_proxy (proxied [''203.0.113.7:4711, 10.0.0.2'']) = Some ''203.0.113.7''"
    by code_simp
  moreover have "real_client_host behind_proxy (proxied [''127.0.0.1'', ''203.0.113.7:4711, 10.0.0.2''])
     = real_client_host behind_proxy (proxied [''203.0.113.7:4711, 10.0.0.2''])"
    using forged_forwarded_lines_ignored [of "proxied [''127.0.0.1'', ''203.0.113.7:4711, 10.0.0.2'']" "[''127.0.0.1'']",
      OF _ _ _ stop, of "proxied [''203.0.113.7:4711, 10.0.0.2'']"]
    by (simp add: proxied_def header_lines_def)
  ultimately show ?thesis by simp
qed

end
