(* ===== verification/Auth.thy ===== *)
theory Auth
  imports Key_Store Request_Origin
begin

text \<open>
  The request gates of \<^verbatim>\<open>particles/api/auth.py\<close>: who a bearer token stands for, what that caller may
  do, and what each of the four gates refuses.

  Every time the code consults the keys it reads the environment and the key file afresh, so the
  file may change in the middle of a request. A gate therefore takes the successive readings as
  \<open>vs :: nat \<Rightarrow> key_view\<close>, \<open>vs n\<close> at the \<open>n\<close>th consultation; a request during which nothing changes
  has a constant \<open>vs\<close>, and \<open>view_of\<close> is the reading the key file of \<open>Key_File\<close> gives. The context
  variable a gate binds the principal in is passed and returned. An \<^verbatim>\<open>HTTPException\<close> is
  \<^const>\<open>Inl\<close> of its status and reason; an exception no handler expects is \<open>CRASH\<close>.
\<close>

section \<open>Keys\<close>

definition DEV_KEY :: string where
  "DEV_KEY = ''dev-key''"

record key_view =
  kv_api_key :: string \<comment> \<open>\<^verbatim>\<open>get_particles_api_key()\<close>\<close>
  kv_has_live :: bool
  kv_has_usable :: bool
  kv_live :: "unusable + key_record list"
  kv_lookup :: "string \<Rightarrow> unusable + key_record option"

definition view_of :: "core_lib \<Rightarrow> key_config \<Rightarrow> string \<Rightarrow> key_world \<Rightarrow> key_proc \<Rightarrow> key_view" where
  "view_of core kcfg api_key w st =
     \<lparr>kv_api_key = api_key, kv_has_live = fst (has_live_keys core w st),
      kv_has_usable = fst (has_usable_live_keys core w st), kv_live = fst (live_keys core w st),
      kv_lookup = (\<lambda>token. fst (lookup core kcfg w st token))\<rparr>"

definition engine_is_keyless :: "key_view \<Rightarrow> bool" where
  "engine_is_keyless v = (kv_api_key v = DEV_KEY \<and> \<not> kv_has_live v)"

definition no_usable_key :: "key_view \<Rightarrow> bool" where
  "no_usable_key v = (kv_api_key v = DEV_KEY \<and> \<not> kv_has_usable v)"

section \<open>Principals\<close>

datatype capability = READ | AGENT_WRITE | OPERATOR_WRITE | ATTRIBUTE_OTHERS | HARVEST_MARKS

fun ROLE_CAPABILITIES :: "role \<Rightarrow> capability list" where
  "ROLE_CAPABILITIES READER = [READ]"
| "ROLE_CAPABILITIES AGENT = [READ, AGENT_WRITE]"
| "ROLE_CAPABILITIES OPERATOR = [READ, AGENT_WRITE, OPERATOR_WRITE, ATTRIBUTE_OTHERS, HARVEST_MARKS]"

record caller =
  c_id :: string
  c_role :: role
  c_key_id :: string
  c_project :: "string option"
  c_memory_roots :: "string list option"
  c_archive_roots :: "string list option"

definition can :: "caller \<Rightarrow> capability \<Rightarrow> bool" where
  "can p capability =
     (if capability \<in> set (ROLE_CAPABILITIES (c_role p)) then True
      else capability = HARVEST_MARKS \<and> c_role p = AGENT \<and> c_id p \<in> set HARVEST_DEPOSITORS)"

definition LEGACY_KEY_ID :: string where
  "LEGACY_KEY_ID = ''env''"

definition legacy_principal :: "key_config \<Rightarrow> caller" where
  "legacy_principal kcfg =
     \<lparr>c_id = operator_identity kcfg, c_role = OPERATOR, c_key_id = LEGACY_KEY_ID, c_project = None,
      c_memory_roots = None, c_archive_roots = None\<rparr>"

definition principal_of_record :: "key_record \<Rightarrow> caller" where
  "principal_of_record r =
     \<lparr>c_id = principal r, c_role = krole r, c_key_id = key_id r, c_project = project r,
      c_memory_roots = memory_roots r, c_archive_roots = archive_roots r\<rparr>"

section \<open>Refusals\<close>

datatype reason =
    NON_LOOPBACK_CLIENT | HOST_UNDER_DEV_KEY string | HOST_ON_LOOPBACK string | HOST_NOT_LISTED string
  | CROSS_SITE cross_site | KEYLESS_WRITE | INVALID_KEY | KEYS_UNAVAILABLE
  | ROLE_CANNOT role string string string \<comment> \<open>the role, the principal, the action, what it needs\<close>

datatype http_error = REFUSED nat reason | CRASH

definition bearer_matches :: "string \<Rightarrow> string option \<Rightarrow> bool" where
  "bearer_matches api_key creds = (case creds of None \<Rightarrow> False | Some token \<Rightarrow> token = api_key)"

definition resolve_principal :: "key_config \<Rightarrow> key_view \<Rightarrow> string option \<Rightarrow> http_error + caller" where
  "resolve_principal kcfg v creds =
     (if kv_api_key v \<noteq> DEV_KEY \<and> bearer_matches (kv_api_key v) creds then Inr (legacy_principal kcfg)
      else
        let token = (case creds of None \<Rightarrow> [] | Some t \<Rightarrow> t);
            invalid = Inl (REFUSED 401 INVALID_KEY)
        in if startswith KEY_PREFIX token then
             (case kv_lookup v token of
                Inl _ \<Rightarrow> Inl (REFUSED 503 KEYS_UNAVAILABLE)
              | Inr None \<Rightarrow> invalid
              | Inr (Some rec) \<Rightarrow> Inr (principal_of_record rec))
           else invalid)"

definition request_holds_a_key :: "key_config \<Rightarrow> key_view \<Rightarrow> string option \<Rightarrow> bool" where
  "request_holds_a_key kcfg v creds =
     (case creds of
        None \<Rightarrow> False
      | Some _ \<Rightarrow> (case resolve_principal kcfg v creds of Inl _ \<Rightarrow> False | Inr _ \<Rightarrow> True))"

definition role_refusal :: "caller \<Rightarrow> string \<Rightarrow> string \<Rightarrow> http_error" where
  "role_refusal p action needs = REFUSED 403 (ROLE_CANNOT (c_role p) (c_id p) action needs)"

section \<open>The bounds on every request\<close>

definition request_bound_refusal :: "api_config \<Rightarrow> launch \<Rightarrow> key_view \<Rightarrow> request \<Rightarrow> http_error option" where
  "request_bound_refusal cfg l v rq =
     (let dev_key = no_usable_key v in
      if dev_key \<and> \<not> client_is_loopback cfg rq then Some (REFUSED 503 NON_LOOPBACK_CLIENT)
      else case header rq ''host'' of
             None \<Rightarrow> None
           | Some host \<Rightarrow>
               if host_is_allowed cfg l host dev_key (rq_server rq) then None
               else Some (REFUSED 403
                 (if dev_key then HOST_UNDER_DEV_KEY host
                  else if allowed_hosts cfg = [] then HOST_ON_LOOPBACK host
                  else HOST_NOT_LISTED host)))"

definition refuse_cross_site :: "api_config \<Rightarrow> request \<Rightarrow> http_error option" where
  "refuse_cross_site cfg rq =
     (case cross_site_reason cfg rq of
        SAME_SITE \<Rightarrow> None
      | ORIGIN_RAISES \<Rightarrow> Some CRASH
      | reason \<Rightarrow> Some (REFUSED 403 (CROSS_SITE reason)))"

definition bound_dev_key_request :: "api_config \<Rightarrow> launch \<Rightarrow> key_view \<Rightarrow> request \<Rightarrow> http_error option" where
  "bound_dev_key_request cfg l v rq =
     (case request_bound_refusal cfg l v rq of
        Some e \<Rightarrow> Some e
      | None \<Rightarrow> if is_browser_request rq then refuse_cross_site cfg rq else None)"

section \<open>The gates\<close>

text \<open>What the gates read besides the keys: the configuration and the launch.\<close>

record engine =
  en_api :: api_config
  en_keys :: key_config
  en_launch :: launch

type_synonym views = "nat \<Rightarrow> key_view"

definition later :: "nat \<Rightarrow> views \<Rightarrow> views" where
  "later k vs = (\<lambda>n. vs (k + n))"

definition verify_key :: "engine \<Rightarrow> views \<Rightarrow> request \<Rightarrow> string option \<Rightarrow> http_error + caller option" where
  "verify_key en vs rq creds =
     (if engine_is_keyless (vs 0) then
        (case bound_dev_key_request (en_api en) (en_launch en) (vs 1) rq of Some e \<Rightarrow> Inl e | None \<Rightarrow> Inr None)
      else
        (case request_bound_refusal (en_api en) (en_launch en) (vs 1) rq of
           Some e \<Rightarrow> Inl e
         | None \<Rightarrow> (case resolve_principal (en_keys en) (vs 2) creds of Inl e \<Rightarrow> Inl e | Inr p \<Rightarrow> Inr (Some p))))"

definition refuse_keyless_write :: "key_view \<Rightarrow> http_error option" where
  "refuse_keyless_write v = (if engine_is_keyless v then Some (REFUSED 503 KEYLESS_WRITE) else None)"

definition call_of :: "request \<Rightarrow> string" where
  "call_of rq = ''call '' @ rq_method rq @ '' '' @ rq_path rq"

text \<open>
  The two write gates differ in the capability they ask for and in how their refusal names it.
  \<^verbatim>\<open>assert principal is not None\<close> fails, as \<open>CRASH\<close>, when the engine became keyless between the
  gate's own check and \<^verbatim>\<open>_verify_key\<close>'s.
\<close>

definition checked_key ::
  "capability \<Rightarrow> string \<Rightarrow> engine \<Rightarrow> views \<Rightarrow> request \<Rightarrow> string option \<Rightarrow> http_error + caller"
where
  "checked_key needed named en vs rq creds =
     (case verify_key en vs rq creds of
        Inl e \<Rightarrow> Inl e
      | Inr None \<Rightarrow> Inl CRASH
      | Inr (Some p) \<Rightarrow> if \<not> can p needed then Inl (role_refusal p (call_of rq) named) else Inr p)"

definition verify_write_key :: "engine \<Rightarrow> views \<Rightarrow> request \<Rightarrow> string option \<Rightarrow> http_error + caller" where
  "verify_write_key en vs rq creds =
     (let proceed = checked_key AGENT_WRITE ''an agent or operator key'' en (later 3 vs) rq creds in
      if engine_is_keyless (vs 0) then
        (case first_some [bound_dev_key_request (en_api en) (en_launch en) (vs 1) rq, refuse_keyless_write (vs 2)] of
           Some e \<Rightarrow> Inl e
         | None \<Rightarrow> proceed)
      else proceed)"

definition verify_operator_key :: "engine \<Rightarrow> views \<Rightarrow> request \<Rightarrow> string option \<Rightarrow> http_error + caller" where
  "verify_operator_key en vs rq creds =
     (let proceed = checked_key OPERATOR_WRITE ''an operator key'' en (later 3 vs) rq creds in
      if engine_is_keyless (vs 0) then
        (case first_some [bound_dev_key_request (en_api en) (en_launch en) (vs 1) rq, refuse_keyless_write (vs 2)] of
           Some e \<Rightarrow> Inl e
         | None \<Rightarrow> proceed)
      else proceed)"

definition verify_read_key :: "engine \<Rightarrow> views \<Rightarrow> request \<Rightarrow> string option \<Rightarrow> http_error + caller option" where
  "verify_read_key en vs rq creds =
     (let bounded = (\<lambda>refusal. case refusal of Some e \<Rightarrow> Inl e | None \<Rightarrow> Inr None) in
      if require_auth_for_reads (en_api en) then verify_key en vs rq creds
      else if engine_is_keyless (vs 0) then
        bounded (bound_dev_key_request (en_api en) (en_launch en) (vs 1) rq)
      else
        (case request_bound_refusal (en_api en) (en_launch en) (vs 1) rq of
           Some e \<Rightarrow> Inl e
         | None \<Rightarrow>
             (case (if creds = None then Inl CRASH else resolve_principal (en_keys en) (vs 2) creds) of
                Inr p \<Rightarrow> Inr (Some p)
              | Inl _ \<Rightarrow> bounded (refuse_cross_site (en_api en) rq))))"

text \<open>The inline forms read the principal the request's gate bound.\<close>

definition anonymous_or_role_refusal :: "caller option \<Rightarrow> string \<Rightarrow> string \<Rightarrow> http_error" where
  "anonymous_or_role_refusal p action needs =
     (case p of None \<Rightarrow> REFUSED 401 INVALID_KEY | Some c \<Rightarrow> role_refusal c action needs)"

definition require_write_credential :: "key_view \<Rightarrow> caller option \<Rightarrow> http_error option" where
  "require_write_credential v current =
     (case refuse_keyless_write v of
        Some e \<Rightarrow> Some e
      | None \<Rightarrow>
          if (case current of None \<Rightarrow> True | Some p \<Rightarrow> \<not> can p AGENT_WRITE)
          then Some (anonymous_or_role_refusal current ''write'' ''an agent or operator key'') else None)"

definition require_operator_credential :: "key_view \<Rightarrow> caller option \<Rightarrow> http_error option" where
  "require_operator_credential v current =
     (case refuse_keyless_write v of
        Some e \<Rightarrow> Some e
      | None \<Rightarrow>
          if (case current of None \<Rightarrow> True | Some p \<Rightarrow> \<not> can p OPERATOR_WRITE)
          then Some (anonymous_or_role_refusal current ''take this action'' ''an operator key'') else None)"

datatype gate = READ_GATE | AUTH_GATE | AGENT_GATE | OPERATOR_GATE

text \<open>A gate's outcome and the principal bound after it, \<open>current\<close> being the one bound before.\<close>

definition run_gate ::
  "engine \<Rightarrow> gate \<Rightarrow> views \<Rightarrow> request \<Rightarrow> string option \<Rightarrow> caller option \<Rightarrow> http_error option \<times> caller option"
where
  "run_gate en g vs rq creds current =
     (case g of
        READ_GATE \<Rightarrow>
          (case verify_read_key en vs rq creds of Inl e \<Rightarrow> (Some e, current) | Inr p \<Rightarrow> (None, p))
      | AUTH_GATE \<Rightarrow>
          (case verify_key en vs rq creds of Inl e \<Rightarrow> (Some e, current) | Inr p \<Rightarrow> (None, p))
      | AGENT_GATE \<Rightarrow>
          (case verify_write_key en vs rq creds of Inl e \<Rightarrow> (Some e, None) | Inr p \<Rightarrow> (None, Some p))
      | OPERATOR_GATE \<Rightarrow>
          (case verify_operator_key en vs rq creds of Inl e \<Rightarrow> (Some e, None) | Inr p \<Rightarrow> (None, Some p)))"

section \<open>Before the body is read\<close>

definition bearer_from_header :: "request \<Rightarrow> string option" where
  "bearer_from_header rq =
     (case py_partition (CHR '' '') (case header rq ''authorization'' of None \<Rightarrow> [] | Some h \<Rightarrow> h) of
        (scheme, _, token) \<Rightarrow> if py_lower scheme = ''bearer'' \<and> token \<noteq> [] then Some token else None)"

definition write_gate_needs :: "gate \<Rightarrow> (capability \<times> string) option" where
  "write_gate_needs g =
     (case g of
        AGENT_GATE \<Rightarrow> Some (AGENT_WRITE, ''an agent or operator key'')
      | OPERATOR_GATE \<Rightarrow> Some (OPERATOR_WRITE, ''an operator key'')
      | _ \<Rightarrow> None)"

text \<open>
  The scope's cached principal is \<^const>\<open>None\<close> while unresolved. The pair is the refusal and the scope
  after the call.
\<close>

type_synonym scope = "caller option option"

definition pre_body_refusal ::
  "engine \<Rightarrow> views \<Rightarrow> request \<Rightarrow> gate \<Rightarrow> scope \<Rightarrow> http_error option \<times> scope"
where
  "pre_body_refusal en vs rq g scope =
     (if engine_is_keyless (vs 0) then
        (case refuse_cross_site (en_api en) rq of
           Some e \<Rightarrow> (Some e, scope)
         | None \<Rightarrow> (if write_gate_needs g \<noteq> None then Some (REFUSED 503 KEYLESS_WRITE) else None, scope))
      else
        let creds = bearer_from_header rq;
            bearer_gated = (g \<noteq> READ_GATE \<or> require_auth_for_reads (en_api en));
            resolved = resolve_principal (en_keys en) (vs 1) creds;
            cached = (\<lambda>p. if creds \<noteq> None then Some p else scope)
        in case resolved of
             Inl e \<Rightarrow>
               if bearer_gated then (Some e, scope) else (refuse_cross_site (en_api en) rq, cached None)
           | Inr p \<Rightarrow>
               ((case write_gate_needs g of
                   None \<Rightarrow> None
                 | Some (needed, named) \<Rightarrow>
                     if \<not> can p needed then Some (role_refusal p (call_of rq) named) else None),
                cached (Some p)))"

definition verify_request_bearer :: "engine \<Rightarrow> views \<Rightarrow> request \<Rightarrow> http_error option" where
  "verify_request_bearer en vs rq =
     (case verify_key en vs rq (bearer_from_header rq) of Inl e \<Rightarrow> Some e | Inr _ \<Rightarrow> None)"

definition principal_for_request ::
  "engine \<Rightarrow> views \<Rightarrow> request \<Rightarrow> scope \<Rightarrow> caller option \<times> scope"
where
  "principal_for_request en vs rq scope =
     (let creds = bearer_from_header rq in
      if creds = None then (None, scope)
      else case scope of
             Some cached \<Rightarrow> (cached, scope)
           | None \<Rightarrow>
               let p = (if engine_is_keyless (vs 0) then None
                        else (case resolve_principal (en_keys en) (vs 1) creds of Inl _ \<Rightarrow> None | Inr c \<Rightarrow> Some c))
               in (p, Some p))"

definition request_holds_operator_credential :: "engine \<Rightarrow> views \<Rightarrow> request \<Rightarrow> scope \<Rightarrow> bool \<times> scope" where
  "request_holds_operator_credential en vs rq scope =
     (case principal_for_request en vs rq scope of
        (p, scope') \<Rightarrow> (case p of None \<Rightarrow> False | Some c \<Rightarrow> can c OPERATOR_WRITE, scope'))"

end
