(* ===== verification/Gate_Rules.thy ===== *)
theory Gate_Rules
  imports Auth
begin

text \<open>
  What the gates of \<open>Auth\<close> promise. The locale \<open>capability_gate\<close> is the contract of a write gate: it
  admits only a resolved caller who holds the capability, and nobody while the engine is keyless; both
  write gates are instances. \<open>key_reader\<close> is what the gates rely on of the key file: a token is found
  only as a record the minting rules accept. Its instance is \<^const>\<open>Key_File.lookup\<close>.
\<close>

section \<open>Resolving a caller\<close>

lemma resolve_principal_Inr:
  assumes "resolve_principal kcfg v creds = Inr p"
  obtains (legacy) "creds = Some (kv_api_key v)" "kv_api_key v \<noteq> DEV_KEY" "p = legacy_principal kcfg"
  | (client) token rec where "creds = Some token" "startswith KEY_PREFIX token"
      "kv_lookup v token = Inr (Some rec)" "p = principal_of_record rec"
proof (cases "kv_api_key v \<noteq> DEV_KEY \<and> bearer_matches (kv_api_key v) creds")
  case True
  with assms legacy show ?thesis
    by (auto simp: resolve_principal_def bearer_matches_def split: option.splits)
next
  case False
  have no_prefix: "\<not> startswith KEY_PREFIX []" by (simp add: startswith_def KEY_PREFIX_def)
  with False assms obtain token rec where "creds = Some token" "startswith KEY_PREFIX token"
      "kv_lookup v token = Inr (Some rec)" "p = principal_of_record rec"
    by (auto simp: resolve_principal_def Let_def split: option.splits sum.splits if_splits)
  with client show ?thesis by blast
qed

section \<open>The write gates\<close>

lemma verify_key_Some:
  "verify_key en vs rq creds = Inr (Some p) \<Longrightarrow> resolve_principal (en_keys en) (vs 2) creds = Inr p"
  by (auto simp: verify_key_def split: if_splits option.splits sum.splits)

lemma checked_key_Inr:
  assumes "checked_key needed named en vs rq creds = Inr p"
  shows "can p needed" "resolve_principal (en_keys en) (vs 2) creds = Inr p"
  using assms verify_key_Some by (auto simp: checked_key_def split: sum.splits option.splits if_splits)

lemmas write_gates = verify_write_key_def verify_operator_key_def

locale capability_gate =
  fixes gate :: "engine \<Rightarrow> views \<Rightarrow> request \<Rightarrow> string option \<Rightarrow> http_error + caller"
    and needed :: capability
  assumes admits_can: "gate en vs rq creds = Inr p \<Longrightarrow> can p needed"
    and admits_resolved: "gate en vs rq creds = Inr p \<Longrightarrow> \<exists>n. resolve_principal (en_keys en) (vs n) creds = Inr p"
    and keyless_refused: "(\<And>n. engine_is_keyless (vs n)) \<Longrightarrow>
      gate en vs rq creds = Inl (case bound_dev_key_request (en_api en) (en_launch en) (vs 1) rq of
        Some e \<Rightarrow> e | None \<Rightarrow> REFUSED 503 KEYLESS_WRITE)"
begin

text \<open>Whoever is admitted presented the engine's own key or a token found in the key file.\<close>

lemma admitted_credential:
  assumes "gate en vs rq creds = Inr p"
  obtains n where "creds = Some (kv_api_key (vs n))" "kv_api_key (vs n) \<noteq> DEV_KEY" "p = legacy_principal (en_keys en)"
  | n token rec where "creds = Some token" "kv_lookup (vs n) token = Inr (Some rec)" "p = principal_of_record rec"
      "can (principal_of_record rec) needed"
proof -
  from admits_resolved [OF assms] obtain n where "resolve_principal (en_keys en) (vs n) creds = Inr p" by blast
  then show ?thesis using that admits_can [OF assms] by (cases rule: resolve_principal_Inr) blast+
qed

lemma no_bearer_refused: "\<exists>e. gate en vs rq None = Inl e"
proof (cases "gate en vs rq None")
  case (Inr p)
  then show ?thesis by (rule admitted_credential) simp_all
qed simp

end

lemma write_gate_keyless:
  assumes "\<And>n. engine_is_keyless (vs n)"
  shows "verify_write_key en vs rq creds = Inl (case bound_dev_key_request (en_api en) (en_launch en) (vs 1) rq of
      Some e \<Rightarrow> e | None \<Rightarrow> REFUSED 503 KEYLESS_WRITE)"
    "verify_operator_key en vs rq creds = Inl (case bound_dev_key_request (en_api en) (en_launch en) (vs 1) rq of
      Some e \<Rightarrow> e | None \<Rightarrow> REFUSED 503 KEYLESS_WRITE)"
  using assms by (auto simp: write_gates refuse_keyless_write_def Let_def split: option.splits)

interpretation agent: capability_gate verify_write_key AGENT_WRITE
proof
  fix en vs rq creds p assume "verify_write_key en vs rq creds = Inr p"
  then have c: "checked_key AGENT_WRITE ''an agent or operator key'' en (later 3 vs) rq creds = Inr p"
    by (auto simp: verify_write_key_def Let_def split: if_splits option.splits)
  from checked_key_Inr [OF c] show "can p AGENT_WRITE"
    "\<exists>n. resolve_principal (en_keys en) (vs n) creds = Inr p"
    by (auto simp: later_def)
qed (rule write_gate_keyless(1))

interpretation operator: capability_gate verify_operator_key OPERATOR_WRITE
proof
  fix en vs rq creds p assume "verify_operator_key en vs rq creds = Inr p"
  then have c: "checked_key OPERATOR_WRITE ''an operator key'' en (later 3 vs) rq creds = Inr p"
    by (auto simp: verify_operator_key_def Let_def split: if_splits option.splits)
  from checked_key_Inr [OF c] show "can p OPERATOR_WRITE"
    "\<exists>n. resolve_principal (en_keys en) (vs n) creds = Inr p"
    by (auto simp: later_def)
qed (rule write_gate_keyless(2))

section \<open>The key file behind the gates\<close>

locale key_reader =
  fixes find :: "'s \<Rightarrow> string \<Rightarrow> unusable + key_record option"
    and kcfg :: key_config
  assumes found_live: "find s token = Inr (Some rec) \<Longrightarrow> live rec"
    and found_token: "find s token = Inr (Some rec) \<Longrightarrow> \<exists>kid sec. parse_token token = Some (krole rec, kid, sec)"
    and found_rules: "find s token = Inr (Some rec) \<Longrightarrow> record_rule_refusal kcfg rec = None"
begin

lemma found_operator:
  "find s token = Inr (Some rec) \<Longrightarrow> krole rec = OPERATOR \<longleftrightarrow> principal rec = operator_identity kcfg"
  using lookup_principal_rules(3) found_rules by blast

text \<open>A gate that admits an operator admits the operator under the operator's own name.\<close>

lemma operator_is_named:
  assumes "resolve_principal kcfg v creds = Inr p" "\<And>token. kv_lookup v token = find s token"
    and "can p OPERATOR_WRITE"
  shows "c_role p = OPERATOR" "c_id p = operator_identity kcfg"
proof -
  show role: "c_role p = OPERATOR" using assms(3) by (cases "c_role p") (simp_all add: can_def)
  from assms(1) show "c_id p = operator_identity kcfg"
  proof (cases rule: resolve_principal_Inr)
    case legacy
    then show ?thesis by (simp add: legacy_principal_def)
  next
    case (client token rec)
    then have "find s token = Inr (Some rec)" using assms(2) by simp
    from found_operator [OF this] client(4) role show ?thesis by (simp add: principal_of_record_def)
  qed
qed

end

interpretation key_file: key_reader "\<lambda>(w, st) token. fst (lookup core kcfg w st token)" kcfg for core kcfg
proof
  fix s token rec
  assume "(case s of (w, st) \<Rightarrow> \<lambda>token. fst (lookup core kcfg w st token)) token = Inr (Some rec)"
  then obtain w st st' where "lookup core kcfg w st token = (Inr (Some rec), st')"
    by (cases s) (metis case_prod_conv prod.collapse)
  then obtain kid sec d where "parse_token token = Some (krole rec, kid, sec)"
    "lookup_in core kcfg d (krole rec, kid, sec) = Some rec"
    by (rule lookup_Some)
  then show "live rec" "\<exists>kid sec. parse_token token = Some (krole rec, kid, sec)"
    "record_rule_refusal kcfg rec = None"
    by (auto simp: lookup_in_iff)
qed

section \<open>What passes a gate\<close>

lemma run_gate_agent:
  "run_gate en AGENT_GATE vs rq creds cur = (None, bound) \<longleftrightarrow>
     (\<exists>p. verify_write_key en vs rq creds = Inr p \<and> bound = Some p)"
  by (auto simp: run_gate_def split: sum.splits)

lemma run_gate_operator:
  "run_gate en OPERATOR_GATE vs rq creds cur = (None, bound) \<longleftrightarrow>
     (\<exists>p. verify_operator_key en vs rq creds = Inr p \<and> bound = Some p)"
  by (auto simp: run_gate_def split: sum.splits)

lemma lookup_view [simp]: "kv_lookup (view_of core kcfg key w st) token = fst (lookup core kcfg w st token)"
  by (simp add: view_of_def)

text \<open>
  C31. The operator gate admits only the operator: whatever the key file holds at each moment the gate
  reads it, the caller it binds has the operator role and the configured operator identity, and
  presented either \<^verbatim>\<open>PARTICLES_API_KEY\<close>, set to something other than the development default, or a
  token whose live record the file held at one of those moments.
\<close>

theorem operator_gate_admits:
  assumes "run_gate en OPERATOR_GATE (\<lambda>n. view_of core (en_keys en) key (ws n) (sts n)) rq creds cur = (None, bound)"
  shows "\<exists>p. bound = Some p \<and> c_role p = OPERATOR \<and> c_id p = operator_identity (en_keys en) \<and>
    (creds = Some key \<and> key \<noteq> DEV_KEY \<or>
     (\<exists>n token rec. creds = Some token \<and> fst (lookup core (en_keys en) (ws n) (sts n) token) = Inr (Some rec) \<and>
        live rec \<and> p = principal_of_record rec))"
proof -
  let ?vs = "\<lambda>n. view_of core (en_keys en) key (ws n) (sts n)"
  from assms obtain p where p: "verify_operator_key en ?vs rq creds = Inr p" and b: "bound = Some p"
    by (auto simp: run_gate_operator)
  from operator.admits_resolved [OF p] obtain n where n: "resolve_principal (en_keys en) (?vs n) creds = Inr p"
    by blast
  have "c_role p = OPERATOR" "c_id p = operator_identity (en_keys en)"
    using key_file.operator_is_named [where s = "(ws n, sts n)", OF n _ operator.admits_can [OF p]] by simp_all
  moreover from p have "creds = Some key \<and> key \<noteq> DEV_KEY \<or>
     (\<exists>n token rec. creds = Some token \<and> fst (lookup core (en_keys en) (ws n) (sts n) token) = Inr (Some rec) \<and>
        live rec \<and> p = principal_of_record rec)"
  proof (cases rule: operator.admitted_credential)
    case (1 n)
    then show ?thesis by (simp add: view_of_def)
  next
    case (2 n token rec)
    then show ?thesis using key_file.found_live [where s = "(ws n, sts n)"] by fastforce
  qed
  ultimately show ?thesis using b by blast
qed

text \<open>
  The agent gate never admits an anonymous caller or a reader: whoever it binds is an agent or an
  operator who presented \<^verbatim>\<open>PARTICLES_API_KEY\<close> or a token the key file holds.
\<close>

theorem agent_gate_admits:
  assumes "run_gate en AGENT_GATE (\<lambda>n. view_of core (en_keys en) key (ws n) (sts n)) rq creds cur = (None, bound)"
  shows "\<exists>p token. bound = Some p \<and> creds = Some token \<and> c_role p \<in> {AGENT, OPERATOR} \<and>
    (token = key \<and> key \<noteq> DEV_KEY \<or>
     (\<exists>n rec. fst (lookup core (en_keys en) (ws n) (sts n) token) = Inr (Some rec) \<and> p = principal_of_record rec))"
proof -
  let ?vs = "\<lambda>n. view_of core (en_keys en) key (ws n) (sts n)"
  from assms obtain p where p: "verify_write_key en ?vs rq creds = Inr p" and b: "bound = Some p"
    by (auto simp: run_gate_agent)
  have role: "c_role p \<in> {AGENT, OPERATOR}"
    using agent.admits_can [OF p] by (cases "c_role p") (simp_all add: can_def)
  from p show ?thesis
  proof (cases rule: agent.admitted_credential)
    case (1 n)
    then show ?thesis using role b by (auto simp: view_of_def)
  next
    case (2 n token rec)
    then show ?thesis using role b by auto
  qed
qed

text \<open>
  C32. A keyless engine serves no write, whatever token, peer, host or origin a request comes with: both
  write gates refuse it and leave no principal bound, with 503 and the read-only explanation unless one
  of the request bounds refuses first, and the inline forms refuse it with 503.
\<close>

theorem keyless_engine_refuses_writes:
  assumes "\<And>n. engine_is_keyless (vs n)" "g \<in> {AGENT_GATE, OPERATOR_GATE}"
  shows "run_gate en g vs rq creds cur =
      (Some (case bound_dev_key_request (en_api en) (en_launch en) (vs 1) rq of
         Some e \<Rightarrow> e | None \<Rightarrow> REFUSED 503 KEYLESS_WRITE), None) \<and>
    require_write_credential (vs 0) bound = Some (REFUSED 503 KEYLESS_WRITE) \<and>
    require_operator_credential (vs 0) bound = Some (REFUSED 503 KEYLESS_WRITE)"
  using assms(2) agent.keyless_refused [OF assms(1)] operator.keyless_refused [OF assms(1)] assms(1)
  by (auto simp: run_gate_def require_write_credential_def require_operator_credential_def
      refuse_keyless_write_def)

section \<open>The refusal before the body\<close>

lemma refuse_cross_site_no_browser: "\<not> is_browser_request rq \<Longrightarrow> refuse_cross_site cfg rq = None"
  by (simp add: refuse_cross_site_def cross_site_reason_def is_browser_request_def Let_def)

lemma resolve_principal_anonymous: "resolve_principal kcfg v None = Inl (REFUSED 401 INVALID_KEY)"
  by (simp add: resolve_principal_def bearer_matches_def startswith_def KEY_PREFIX_def)

lemma later_const [simp]: "later k (\<lambda>_. v) = (\<lambda>_. v)"
  by (simp add: later_def)

lemma bound_dev_key_within:
  "request_bound_refusal cfg l v rq = None \<Longrightarrow> bound_dev_key_request cfg l v rq = refuse_cross_site cfg rq"
  using refuse_cross_site_no_browser by (auto simp: bound_dev_key_request_def)

lemma gate_of_pre_body:
  assumes "request_bound_refusal (en_api en) (en_launch en) v rq = None"
  shows "fst (pre_body_refusal en (\<lambda>_. v) rq g scope) =
    fst (run_gate en g (\<lambda>_. v) rq (bearer_from_header rq) cur)"
proof (cases "engine_is_keyless v")
  case True
  then show ?thesis
    using assms bound_dev_key_within [OF assms]
    by (cases g)
      (auto simp: pre_body_refusal_def run_gate_def write_gate_needs_def verify_read_key_def verify_key_def
        write_gates refuse_keyless_write_def Let_def split: option.splits)
next
  case keyed: False
  show ?thesis
  proof (cases "resolve_principal (en_keys en) v (bearer_from_header rq)")
    case (Inl e)
    then show ?thesis using assms keyed
      by (cases g)
        (auto simp: pre_body_refusal_def run_gate_def write_gate_needs_def verify_read_key_def verify_key_def
          write_gates checked_key_def Let_def split: option.splits)
  next
    case (Inr p)
    then have "bearer_from_header rq \<noteq> None"
      by (cases "bearer_from_header rq") (simp_all add: resolve_principal_anonymous)
    with Inr show ?thesis using assms keyed
      by (cases g)
        (auto simp: pre_body_refusal_def run_gate_def write_gate_needs_def verify_read_key_def verify_key_def
          write_gates checked_key_def Let_def split: option.splits)
  qed
qed

text \<open>
  C33. The refusal given before a request's body is read is exactly the one the route's gate gives after
  it: for a request within the bounds, while the keys do not change, \<^verbatim>\<open>pre_body_refusal\<close> and the gate
  return the same refusal, or both none, on each of the four gates. So reading the body early never
  refuses what the gate admits, and nothing the gate refuses has its body parsed.
\<close>

theorem pre_body_refusal_is_the_gates:
  assumes "request_bound_refusal (en_api en) (en_launch en) v rq = None"
  shows "fst (pre_body_refusal en (\<lambda>_. v) rq g scope) =
    fst (run_gate en g (\<lambda>_. v) rq (bearer_from_header rq) cur)"
  by (rule gate_of_pre_body [OF assms])

section \<open>The bounds\<close>

text \<open>
  The bounds every request passes. While the engine has no key it can check, a request is let on
  only from a loopback client, and only for a loopback \<^verbatim>\<open>Host\<close> or a listed one, so a page that rebinds
  its own name to the engine's address is refused. With a key, a listed host passes, and an unlisted one
  only when no list is set and the engine does not listen on loopback.
\<close>

theorem request_bounds:
  "request_bound_refusal cfg l v rq = None \<longleftrightarrow>
     (if no_usable_key v then client_is_loopback cfg rq else True) \<and>
     (case header rq ''host'' of
        None \<Rightarrow> True
      | Some host \<Rightarrow>
          is_loopback_host (py_lower (host_without_port host)) \<or>
          (if allowed_hosts cfg = []
           then \<not> no_usable_key v \<and> \<not> host_rule_is_loopback cfg l (rq_server rq)
           else (\<exists>entry. entry \<in> set (allowed_hosts cfg) \<and>
             (py_lower (host_without_port host) = entry \<or>
              startswith ''*.'' entry \<and> endswith (tl entry) (py_lower (host_without_port host))))))"
proof (cases "header rq ''host''")
  case None
  then show ?thesis by (auto simp: request_bound_refusal_def Let_def)
next
  case (Some host)
  have "host_is_allowed cfg l host dev (rq_server rq) \<longleftrightarrow>
      is_loopback_host (py_lower (host_without_port host)) \<or>
      (if allowed_hosts cfg = [] then \<not> dev \<and> \<not> host_rule_is_loopback cfg l (rq_server rq)
       else (\<exists>entry. entry \<in> set (allowed_hosts cfg) \<and>
         (py_lower (host_without_port host) = entry \<or>
          startswith ''*.'' entry \<and> endswith (tl entry) (py_lower (host_without_port host)))))" for dev
    by (auto simp: host_is_allowed_def Let_def list_ex_iff)
  with Some show ?thesis by (simp add: request_bound_refusal_def)
qed

text \<open>
  What a bearer stands for, case by case. The legacy key is tried first and needs no key file, so a
  damaged file never locks the operator out; a per-client token answers 503 while the file is unusable,
  401 when it is unknown, revoked or refused by the rules, and the record's own principal otherwise;
  everything else is 401.
\<close>

theorem resolve_principal_spec:
  "resolve_principal kcfg v creds =
     (case creds of
        None \<Rightarrow> Inl (REFUSED 401 INVALID_KEY)
      | Some token \<Rightarrow>
          if token = kv_api_key v \<and> token \<noteq> DEV_KEY then Inr (legacy_principal kcfg)
          else if startswith KEY_PREFIX token then
            (case kv_lookup v token of
               Inl _ \<Rightarrow> Inl (REFUSED 503 KEYS_UNAVAILABLE)
             | Inr None \<Rightarrow> Inl (REFUSED 401 INVALID_KEY)
             | Inr (Some rec) \<Rightarrow> Inr (principal_of_record rec))
          else Inl (REFUSED 401 INVALID_KEY))"
proof (cases creds)
  case None
  then show ?thesis by (simp add: resolve_principal_anonymous)
next
  case (Some token)
  then show ?thesis by (auto simp: resolve_principal_def bearer_matches_def split: sum.splits option.splits)
qed

section \<open>One request sees one key set\<close>

lemma load_again_all_keys: "fst (all_keys core w (snd (all_keys core w st))) = fst (all_keys core w st)"
  by (auto simp: all_keys_def load_again split: sum.splits)

lemma fst_live_keys:
  "fst (live_keys core w st) =
     (case fst (all_keys core w st) of Inl e \<Rightarrow> Inl e | Inr d \<Rightarrow> Inr (filter live (map snd d)))"
  by (simp add: live_keys_def split: prod.splits sum.splits)

lemma fst_usable:
  "fst (has_usable_live_keys core w st) =
     (case fst (live_keys core w st) of Inl e \<Rightarrow> False | Inr ks \<Rightarrow> ks \<noteq> [])"
  by (simp add: has_usable_live_keys_def split: prod.splits sum.splits)

lemma fst_lookup:
  "fst (lookup core kcfg w st token) =
     (case parse_token token of
        None \<Rightarrow> Inr None
      | Some parsed \<Rightarrow>
          (case fst (all_keys core w st) of Inl e \<Rightarrow> Inl e | Inr d \<Rightarrow> Inr (lookup_in core kcfg d parsed)))"
  by (simp add: lookup_def split: prod.splits sum.splits option.splits)

lemma fst_has_live:
  assumes "keys_file_path w = Inr p"
  shows "fst (has_live_keys core w st) =
     (case fst (live_keys core w st) of
        Inl e \<Rightarrow> True
      | Inr ks \<Rightarrow> ks \<noteq> [] \<or> p \<in> set (seen_with_keys (snd (all_keys core w st))))"
  using assms by (simp add: has_live_keys_def live_keys_def split: prod.splits sum.splits)

lemma load_seen_stable:
  assumes "load core w p st = (Inr d, st')" "\<not> list_ex live (map snd d)"
  shows "set (seen_with_keys st') = set (seen_with_keys st)"
  using assms
  by (auto simp: load_def load_opened_def no_keys_here_def split: option.splits key_open.splits sum.splits if_splits)

text \<open>
  A request that consults the keys several times while the file is unchanged gets one answer: after
  a read of the key file, the engine's own key, whether it holds keys, which are live and what every
  token stands for are what they were before it.
\<close>

theorem one_key_set_per_request:
  "view_of core kcfg key w (snd (all_keys core w st)) = view_of core kcfg key w st"
proof -
  have same: "fst (all_keys core w (snd (all_keys core w st))) = fst (all_keys core w st)"
    by (rule load_again_all_keys)
  have live: "fst (live_keys core w (snd (all_keys core w st))) = fst (live_keys core w st)"
    by (simp add: fst_live_keys same)
  have has: "fst (has_live_keys core w (snd (all_keys core w st))) = fst (has_live_keys core w st)"
  proof (cases "keys_file_path w")
    case (Inl e)
    then show ?thesis by (simp add: has_live_keys_def live_keys_def all_keys_def)
  next
    case (Inr p)
    obtain r1 st1 where l1: "load core w p st = (r1, st1)" by (metis prod.collapse)
    obtain r2 st2 where l2: "load core w p st1 = (r2, st2)" by (metis prod.collapse)
    have r: "r2 = r1" using load_again [of core w p st] l1 l2 by simp
    show ?thesis
    proof (cases "\<exists>d. r1 = Inr d \<and> \<not> list_ex live (map snd d)")
      case True
      then have "set (seen_with_keys st2) = set (seen_with_keys st1)"
        using l2 r load_seen_stable by blast
      then show ?thesis using Inr l1 l2 r
        by (simp add: has_live_keys_def live_keys_def all_keys_def split: sum.splits)
    next
      case False
      then show ?thesis using Inr l1 l2 r
        by (auto simp: has_live_keys_def live_keys_def all_keys_def filter_empty_conv list_ex_iff split: sum.splits)
    qed
  qed
  have look: "fst (lookup core kcfg w (snd (all_keys core w st)) token) = fst (lookup core kcfg w st token)" for token
    unfolding fst_lookup same by (rule refl)
  show ?thesis by (simp add: view_of_def fst_usable live has look)
qed

section \<open>A concrete engine\<close>

definition demo_engine :: engine where
  "demo_engine =
     \<lparr>en_api = \<lparr>trusted_proxies = [''10.0.0.0/8''], allowed_origins = [], allowed_hosts = [],
                bind_host = ''127.0.0.1'', require_auth_for_reads = False\<rparr>,
      en_keys = demo_cfg, en_launch = \<lparr>argv = [''/usr/bin/particles''], uvicorn_parse = (\<lambda>_. None)\<rparr>\<rparr>"

definition demo_request :: request where
  "demo_request = \<lparr>rq_client = Some ''127.0.0.1'',
     rq_headers = [(''host'', ''localhost:8000''), (''authorization'', ''Bearer s3cret'')],
     rq_server = Some ''127.0.0.1'', rq_method = ''POST'', rq_path = ''/assert''\<rparr>"

definition demo_view :: "string \<Rightarrow> key_view" where
  "demo_view key = view_of demo_core demo_cfg key demo_world demo_proc"

lemma demo_keyless: "engine_is_keyless (demo_view ''dev-key'')"
  by (simp add: engine_is_keyless_def demo_view_def view_of_def DEV_KEY_def)
    (simp add: has_live_keys_def live_keys_def all_keys_def demo_path load_def demo_dir_safe,
     simp add: demo_world_def demo_proc_def no_keys_here_def keys_file_path_def)

lemma demo_localhost: "is_loopback_host (py_lower (host_without_port ''localhost:8000''))"
  by code_simp

lemma demo_bounds: "request_bound_refusal (en_api demo_engine) (en_launch demo_engine) (demo_view ''s3cret'') demo_request = None"
  by (simp add: request_bound_refusal_def host_is_allowed_def demo_localhost header_def demo_request_def
      no_usable_key_def demo_view_def view_of_def DEV_KEY_def)

lemma demo_resolved:
  "resolve_principal demo_cfg (demo_view ''s3cret'') (Some ''s3cret'') = Inr (legacy_principal demo_cfg)"
  by (simp add: resolve_principal_def bearer_matches_def demo_view_def view_of_def DEV_KEY_def)

lemma demo_keyed_engine: "\<not> engine_is_keyless (demo_view ''s3cret'')"
  by (simp add: engine_is_keyless_def demo_view_def view_of_def DEV_KEY_def)

lemma demo_engine_keys [simp]: "en_keys demo_engine = demo_cfg"
  by (simp add: demo_engine_def)

lemma demo_legacy_can [simp]: "can (legacy_principal kcfg) capability"
  by (cases capability) (simp_all add: can_def legacy_principal_def)

lemma demo_admitted:
  assumes "g \<in> {AGENT_GATE, OPERATOR_GATE}"
  shows "run_gate demo_engine g (\<lambda>_. demo_view ''s3cret'') demo_request (Some ''s3cret'') None =
    (None, Some (legacy_principal demo_cfg))"
  using assms
  by (auto simp: run_gate_def write_gates checked_key_def verify_key_def demo_keyed_engine demo_bounds
      demo_resolved)

theorem operator_gate_admits_witness:
  "\<exists>p. run_gate demo_engine OPERATOR_GATE (\<lambda>_. view_of demo_core (en_keys demo_engine) ''s3cret'' demo_world demo_proc)
      demo_request (Some ''s3cret'') None = (None, Some p) \<and>
     c_role p = OPERATOR \<and> c_id p = ''ann''"
  using demo_admitted [of OPERATOR_GATE]
    operator_gate_admits [where en = demo_engine and core = demo_core and key = "''s3cret''"
      and ws = "\<lambda>_. demo_world" and sts = "\<lambda>_. demo_proc" and rq = demo_request and creds = "Some ''s3cret''"
      and cur = None and bound = "Some (legacy_principal demo_cfg)"]
  by (auto simp: demo_view_def demo_cfg_def)

theorem agent_gate_admits_witness:
  "\<exists>p. run_gate demo_engine AGENT_GATE (\<lambda>_. view_of demo_core (en_keys demo_engine) ''s3cret'' demo_world demo_proc)
      demo_request (Some ''s3cret'') None = (None, Some p) \<and> c_role p \<in> {AGENT, OPERATOR}"
  using demo_admitted [of AGENT_GATE]
    agent_gate_admits [where en = demo_engine and core = demo_core and key = "''s3cret''"
      and ws = "\<lambda>_. demo_world" and sts = "\<lambda>_. demo_proc" and rq = demo_request and creds = "Some ''s3cret''"
      and cur = None and bound = "Some (legacy_principal demo_cfg)"]
  by (auto simp: demo_view_def)

theorem keyless_engine_refuses_writes_witness:
  "snd (run_gate demo_engine AGENT_GATE (\<lambda>_. demo_view ''dev-key'') demo_request (Some ''s3cret'') None) = None \<and>
   require_operator_credential (demo_view ''dev-key'') None = Some (REFUSED 503 KEYLESS_WRITE)"
  using keyless_engine_refuses_writes [of "\<lambda>_. demo_view ''dev-key''" AGENT_GATE demo_engine demo_request] demo_keyless
  by simp

theorem pre_body_refusal_is_the_gates_witness:
  "fst (pre_body_refusal demo_engine (\<lambda>_. demo_view ''s3cret'') demo_request AGENT_GATE None) =
   fst (run_gate demo_engine AGENT_GATE (\<lambda>_. demo_view ''s3cret'') demo_request (bearer_from_header demo_request) None) \<and>
   request_bound_refusal (en_api demo_engine) (en_launch demo_engine) (demo_view ''s3cret'') demo_request = None"
  using pre_body_refusal_is_the_gates [OF demo_bounds, of AGENT_GATE None None] demo_bounds by simp

end
