(* ===== verification/Startup.thy ===== *)
theory Startup
  imports Gate_Rules
begin

text \<open>
  The checks \<^verbatim>\<open>particles/api/auth.py\<close> runs when the engine starts and what it says of itself:
  \<^verbatim>\<open>enforce_fail_closed_on_startup\<close>, \<^verbatim>\<open>enforce_key_material_on_startup\<close>, the warnings, the note on an
  address the checks did not judge, and \<^verbatim>\<open>http_write_posture\<close>. A \<^verbatim>\<open>RuntimeError\<close> that aborts the start is
  \<^const>\<open>Some\<close> of its reason; a log line is a value of \<open>log_line\<close>.
\<close>

section \<open>The start\<close>

datatype start_refusal =
    OPAQUE_LAUNCHER string | UNIX_SOCKET | NOT_LOOPBACK bind_source string
  | PREFIXED_API_KEY | KEY_FILE_UNUSABLE unusable

definition enforce_fail_closed_on_startup :: "engine \<Rightarrow> key_view \<Rightarrow> start_refusal option" where
  "enforce_fail_closed_on_startup en v =
     (if \<not> engine_is_keyless v then None
      else
        let cli_bind = uvicorn_cli_bind (en_launch en);
            launcher = launcher_name (en_launch en)
        in if cli_bind = None \<and> launcher \<in> Some ` set OPAQUE_LAUNCHERS then Some (OPAQUE_LAUNCHER (the launcher))
           else case startup_bind (en_api en) cli_bind of
             (addr, source) \<Rightarrow>
               if addr = UNIX_SOCKET_BIND then Some UNIX_SOCKET
               else if is_loopback_host addr then None
               else Some (NOT_LOOPBACK source addr))"

definition open_reads_warning :: "engine \<Rightarrow> key_view \<Rightarrow> string \<Rightarrow> bool" where
  "open_reads_warning en v addr =
     (if engine_is_keyless v \<or> is_loopback_host addr then False
      else if require_auth_for_reads (en_api en) then False
      else True)"

definition startup_open_reads_warning :: "engine \<Rightarrow> key_view \<Rightarrow> bool" where
  "startup_open_reads_warning en v =
     (let addr = fst (startup_bind (en_api en) (uvicorn_cli_bind (en_launch en)))
      in if addr = UNIX_SOCKET_BIND then False else open_reads_warning en v addr)"

definition warn_if_dev_auth_in_use :: "key_view \<Rightarrow> bool" where
  "warn_if_dev_auth_in_use v = engine_is_keyless v"

section \<open>The address served\<close>

datatype log_line =
    WIDER_THAN_LOOPBACK string | OPEN_READS string
  | KEY_REFUSED string record_refusal | NO_HARVEST_ROOTS string | RESERVED_UNACKNOWLEDGED string

text \<open>
  \<open>logged\<close> is whether this configuration was already noted. The lines logged, and \<open>logged\<close> after.
\<close>

definition note_served_address ::
  "engine \<Rightarrow> key_view \<Rightarrow> bool \<Rightarrow> string option \<Rightarrow> log_line list \<times> bool"
where
  "note_served_address en v logged server =
     (case server of
        None \<Rightarrow> ([], logged)
      | Some host \<Rightarrow>
          (case ip_address (before (CHR ''%'') host) of
             None \<Rightarrow> ([], logged)
           | Some a \<Rightarrow>
               if is_loopback a \<or> logged then ([], logged)
               else if \<not> startup_bind_is_loopback (en_api en) (en_launch en) then ([], True)
               else if engine_is_keyless v then ([WIDER_THAN_LOOPBACK host], True)
               else if open_reads_warning en v host then ([OPEN_READS host], True)
               else ([], True)))"

section \<open>Key material\<close>

definition key_material_lines :: "key_config \<Rightarrow> key_record \<Rightarrow> log_line list" where
  "key_material_lines kcfg r =
     (case record_rule_refusal kcfg r of
        Some refusal \<Rightarrow> [KEY_REFUSED (key_id r) refusal]
      | None \<Rightarrow>
          (if is_harvester (krole r) (principal r) \<and> memory_roots r = None \<and> archive_roots r = None
           then [NO_HARVEST_ROOTS (key_id r)] else [])
          @ (if unacknowledged_reserved kcfg r then [RESERVED_UNACKNOWLEDGED (key_id r)] else []))"

definition enforce_key_material_on_startup :: "engine \<Rightarrow> key_view \<Rightarrow> start_refusal + log_line list" where
  "enforce_key_material_on_startup en v =
     (if startswith KEY_PREFIX (kv_api_key v) then Inl PREFIXED_API_KEY
      else case kv_live v of
             Inl e \<Rightarrow> Inl (KEY_FILE_UNUSABLE e)
           | Inr ks \<Rightarrow> Inr (concat (map (key_material_lines (en_keys en)) ks)))"

section \<open>What the engine says of its writes\<close>

datatype posture_part = KEYS_UNUSABLE unusable | CLIENT_KEYS nat nat nat | LEGACY_KEY

datatype posture = WRITES_REFUSED | KEY_REQUIRED "posture_part list"

definition count_role :: "role \<Rightarrow> key_record list \<Rightarrow> nat" where
  "count_role r ks = length (filter (\<lambda>k. krole k = r) ks)"

definition http_write_posture :: "key_view \<Rightarrow> posture" where
  "http_write_posture v =
     (if engine_is_keyless v then WRITES_REFUSED
      else KEY_REQUIRED
        ((case kv_live v of
            Inl e \<Rightarrow> [KEYS_UNUSABLE e]
          | Inr ks \<Rightarrow>
              if ks \<noteq> [] then [CLIENT_KEYS (count_role READER ks) (count_role AGENT ks) (count_role OPERATOR ks)]
              else [])
         @ (if kv_api_key v \<noteq> DEV_KEY then [LEGACY_KEY] else [])))"

section \<open>What the startup checks guarantee\<close>

lemma unproven_not_loopback: "\<not> is_loopback_host UNPROVEN_BIND" "\<not> is_loopback_host UNIX_SOCKET_BIND"
  by code_simp+

text \<open>What it means that a host is this one: it is \<^verbatim>\<open>localhost\<close>, an address of 127.0.0.0/8, or \<^verbatim>\<open>::1\<close>.\<close>

definition names_loopback :: "string \<Rightarrow> bool" where
  "names_loopback host =
     (let h = py_lower (strip host);
          a = ip_address (before (CHR ''%'') (removesuffix '']'' (removeprefix ''['' h)))
      in h = ''localhost'' \<or> (\<exists>w. a = Some (V4 w) \<and> uint w div 2 ^ 24 = 127) \<or> (\<exists>z. a = Some (V6 1 z)))"

lemma loopback_host_names: "is_loopback_host host = names_loopback host"
  using loopback_host_iff [of host] by (simp add: names_loopback_def Let_def)

lemma loopback_default: "names_loopback ''127.0.0.1''"
  unfolding loopback_host_names [symmetric] by code_simp

text \<open>
  C35. A keyless engine starts only where it is proven that nobody else can reach it. Launched by uvicorn, its
  command line must parse, name no UNIX socket (\<^verbatim>\<open>--uds\<close>) and no inherited one (\<^verbatim>\<open>--fd\<close>), and the host it
  names, if any, must be this host: \<^verbatim>\<open>localhost\<close>, 127.0.0.0/8 or \<^verbatim>\<open>::1\<close>, never the empty one. Launched otherwise, the
  launcher must not be one whose bind cannot be read, and the configured host must be this host. In all other cases
  the start is refused. A keyed engine always starts.
\<close>

theorem startup_fails_closed:
  "enforce_fail_closed_on_startup en v = None \<longleftrightarrow>
     (if \<not> engine_is_keyless v then True
      else if launcher_name (en_launch en) = Some ''uvicorn''
      then (\<exists>params. uvicorn_parse (en_launch en) (tl (argv (en_launch en))) = Some params
              \<and> uv_uds params \<in> {None, Some []} \<and> uv_fd params = None
              \<and> (case uv_host params of None \<Rightarrow> True | Some h \<Rightarrow> h \<noteq> [] \<and> names_loopback h))
      else launcher_name (en_launch en) \<notin> Some ` set OPAQUE_LAUNCHERS \<and> names_loopback (bind_host (en_api en)))"
proof -
  have "enforce_fail_closed_on_startup en v = None \<longleftrightarrow>
     (if engine_is_keyless v
      then (case uvicorn_cli_bind (en_launch en) of
              None \<Rightarrow> launcher_name (en_launch en) \<notin> Some ` set OPAQUE_LAUNCHERS \<and> is_loopback_host (bind_host (en_api en))
            | Some addr \<Rightarrow> is_loopback_host addr)
      else True)"
    using unproven_not_loopback(2)
    by (auto simp: enforce_fail_closed_on_startup_def startup_bind_def Let_def split: option.splits)
  moreover have "\<not> names_loopback []"
    using loopback_host_iff [of "[]"] loopback_host_names by blast
  ultimately show ?thesis
    using unproven_not_loopback loopback_default unfolding uvicorn_cli_bind_def loopback_host_names
    by (auto split: option.splits if_splits)
qed

text \<open>
  While no key is configured, every request whose real client is not this host is refused with 503 on
  every one of the four gates, reads included, whatever token and headers it carries.
\<close>

theorem keyless_engine_serves_loopback_only:
  assumes "engine_is_keyless v" "\<not> kv_has_usable v" "\<not> client_is_loopback (en_api en) rq"
  shows "fst (run_gate en g (\<lambda>_. v) rq creds cur) = Some (REFUSED 503 NON_LOOPBACK_CLIENT)"
proof -
  have "no_usable_key v" using assms(1,2) by (simp add: engine_is_keyless_def no_usable_key_def)
  with assms(3) have "request_bound_refusal (en_api en) (en_launch en) v rq = Some (REFUSED 503 NON_LOOPBACK_CLIENT)"
    by (simp add: request_bound_refusal_def)
  then have "bound_dev_key_request (en_api en) (en_launch en) v rq = Some (REFUSED 503 NON_LOOPBACK_CLIENT)"
    by (simp add: bound_dev_key_request_def)
  with assms(1) show ?thesis
    by (cases g) (auto simp: run_gate_def verify_read_key_def verify_key_def write_gates Let_def)
qed

definition remote_request :: request where
  "remote_request = demo_request\<lparr>rq_client := Some ''203.0.113.7''\<rparr>"

lemma demo_remote: "\<not> client_is_loopback (en_api demo_engine) remote_request"
  by code_simp

lemma demo_no_usable: "\<not> kv_has_usable (demo_view ''dev-key'')"
  by (simp add: demo_view_def view_of_def fst_usable fst_live_keys all_keys_def demo_path load_def demo_dir_safe)
    (simp add: demo_world_def demo_proc_def)

lemma demo_remote_bounds:
  "request_bound_refusal (en_api demo_engine) (en_launch demo_engine) (demo_view ''dev-key'') remote_request =
     Some (REFUSED 503 NON_LOOPBACK_CLIENT)"
  using demo_remote demo_no_usable demo_keyless
  by (simp add: request_bound_refusal_def no_usable_key_def engine_is_keyless_def)

theorem keyless_engine_serves_loopback_only_witness:
  "fst (run_gate demo_engine READ_GATE (\<lambda>_. demo_view ''dev-key'') remote_request None None) =
    Some (REFUSED 503 NON_LOOPBACK_CLIENT)"
  by (rule keyless_engine_serves_loopback_only [OF demo_keyless demo_no_usable demo_remote])

lemma key_material_named:
  "(\<exists>e. record_rule_refusal kcfg r = Some e) \<or> unacknowledged_reserved kcfg r \<Longrightarrow>
     (\<exists>e. KEY_REFUSED (key_id r) e \<in> set (key_material_lines kcfg r)) \<or>
     RESERVED_UNACKNOWLEDGED (key_id r) \<in> set (key_material_lines kcfg r)"
  by (cases "record_rule_refusal kcfg r") (simp_all add: key_material_lines_def)

text \<open>
  A key the engine refuses at lookup is named in the log when the engine starts: every live record that
  the minting rules reject, or that holds a reserved name nobody acknowledged, has a line of its own,
  and a start with an unusable key file or an \<^verbatim>\<open>PARTICLES_API_KEY\<close> that looks like a client key does
  not happen at all.
\<close>

theorem refused_keys_are_logged:
  "enforce_key_material_on_startup en v = Inr ls \<longleftrightarrow>
     \<not> startswith KEY_PREFIX (kv_api_key v) \<and>
     (\<exists>ks. kv_live v = Inr ks \<and> ls = concat (map (key_material_lines (en_keys en)) ks) \<and>
        key_id ` {r \<in> set ks. (\<exists>e. record_rule_refusal (en_keys en) r = Some e) \<or> unacknowledged_reserved (en_keys en) r}
          \<subseteq> {k. (\<exists>e. KEY_REFUSED k e \<in> set ls) \<or> RESERVED_UNACKNOWLEDGED k \<in> set ls})"
proof -
  have "key_id ` {r \<in> set ks. (\<exists>e. record_rule_refusal (en_keys en) r = Some e) \<or> unacknowledged_reserved (en_keys en) r}
      \<subseteq> {k. (\<exists>e. KEY_REFUSED k e \<in> set (concat (map (key_material_lines (en_keys en)) ks))) \<or>
             RESERVED_UNACKNOWLEDGED k \<in> set (concat (map (key_material_lines (en_keys en)) ks))}" for ks
    using key_material_named [of "en_keys en"] by fastforce
  moreover have "enforce_key_material_on_startup en v = Inr ls \<longleftrightarrow>
     \<not> startswith KEY_PREFIX (kv_api_key v) \<and>
     (\<exists>ks. kv_live v = Inr ks \<and> ls = concat (map (key_material_lines (en_keys en)) ks))"
    by (auto simp: enforce_key_material_on_startup_def split: sum.splits)
  ultimately show ?thesis by blast
qed

end
