(* ===== verification/Middleware.thy ===== *)
theory Middleware
  imports Startup
begin

text \<open>
  The ASGI middleware of \<^verbatim>\<open>particles/api/_middleware.py\<close>: \<open>HostBoundMiddleware\<close>, which refuses before the
  body is read what the route's gate would refuse, and \<open>BodySizeLimitMiddleware\<close>, which stops a body at
  \<^verbatim>\<open>api.max_request_body_bytes\<close>.

  The application a middleware wraps is a parameter: a tree of what it does, each \<open>RECEIVE\<close> awaiting the
  next message. \<open>run_app\<close> gives what it sends and how it ends; \<^const>\<open>None\<close> while it still waits. The
  router's matching is a parameter too (the routes that match the scope, in the router's order).
\<close>

section \<open>Host bounds\<close>

definition BODYLESS_METHODS :: "string list" where
  "BODYLESS_METHODS = [''GET'', ''HEAD'', ''OPTIONS'']"

record route =
  rt_full_match :: bool
  rt_api :: bool
  rt_dependencies :: "gate option list" \<comment> \<open>\<^const>\<open>None\<close>: a dependency that is not a gate\<close>

fun first_gate :: "gate option list \<Rightarrow> gate option" where
  "first_gate [] = None"
| "first_gate (d # ds) = (case d of Some g \<Rightarrow> Some g | None \<Rightarrow> first_gate ds)"

fun route_gate :: "route list \<Rightarrow> gate option" where
  "route_gate [] = None"
| "route_gate (r # rs) =
     (if \<not> rt_full_match r then route_gate rs
      else if rt_api r then first_gate (rt_dependencies r) else None)"

definition host_bound :: "engine \<Rightarrow> views \<Rightarrow> route list \<Rightarrow> request \<Rightarrow> scope \<Rightarrow> http_error option \<times> scope" where
  "host_bound en vs routes rq scope =
     (case request_bound_refusal (en_api en) (en_launch en) (vs 1) rq of
        Some e \<Rightarrow> (Some e, scope)
      | None \<Rightarrow>
          if rq_method rq \<in> set BODYLESS_METHODS then (None, scope)
          else (case route_gate routes of
                  None \<Rightarrow> (None, scope)
                | Some g \<Rightarrow> pre_body_refusal en (later 2 vs) rq g scope))"

text \<open>
  C39. The outer check refuses no request the route serves: while the keys do not change, a request the
  middleware refuses, its route's gate refuses as well, so wrapping the application changes when a
  request is refused and never whether.
\<close>

theorem host_bound_refuses_only_what_the_gate_does:
  assumes "fst (host_bound en (\<lambda>_. v) routes rq scope) = Some e" "route_gate routes = Some g"
  shows "\<exists>e'. fst (run_gate en g (\<lambda>_. v) rq (bearer_from_header rq) cur) = Some e'"
proof (cases "request_bound_refusal (en_api en) (en_launch en) v rq")
  case None
  with assms have "fst (pre_body_refusal en (\<lambda>_. v) rq g scope) = Some e"
    by (simp add: host_bound_def split: if_splits)
  with gate_of_pre_body [OF None] show ?thesis by metis
next
  case (Some r)
  then have "bound_dev_key_request (en_api en) (en_launch en) v rq = Some r"
    by (simp add: bound_dev_key_request_def)
  with Some show ?thesis
    by (cases g) (auto simp: run_gate_def verify_read_key_def verify_key_def write_gates checked_key_def Let_def)
qed

section \<open>Body size\<close>

datatype message = HTTP_REQUEST "byte list" | HTTP_DISCONNECT

datatype sent = RESPONSE_START nat | RESPONSE_BODY

datatype app = RETURNS | RAISES | RECEIVE "message \<Rightarrow> app" | SEND sent app

datatype ending = RETURNED | RAISED | BODY_TOO_LARGE

primrec run_app :: "app \<Rightarrow> message list \<Rightarrow> (sent list \<times> ending) option" where
  "run_app RETURNS = (\<lambda>_. Some ([], RETURNED))"
| "run_app RAISES = (\<lambda>_. Some ([], RAISED))"
| "run_app (RECEIVE k) = (\<lambda>input. case input of [] \<Rightarrow> None | m # ms \<Rightarrow> run_app (k m) ms)"
| "run_app (SEND s k) = (\<lambda>input. map_option (\<lambda>(out, e). (s # out, e)) (run_app k input))"

definition body_length :: "message \<Rightarrow> int" where
  "body_length m = (case m of HTTP_REQUEST body \<Rightarrow> int (length body) | HTTP_DISCONNECT \<Rightarrow> 0)"

text \<open>The application with \<open>counting_receive\<close>: \<open>received\<close> bytes so far.\<close>

primrec run_counted :: "app \<Rightarrow> int \<Rightarrow> int \<Rightarrow> message list \<Rightarrow> (sent list \<times> ending) option" where
  "run_counted RETURNS = (\<lambda>limit received _. Some ([], RETURNED))"
| "run_counted RAISES = (\<lambda>limit received _. Some ([], RAISED))"
| "run_counted (RECEIVE k) =
     (\<lambda>limit received input.
        case input of
          [] \<Rightarrow> None
        | m # ms \<Rightarrow>
            if m \<noteq> HTTP_DISCONNECT \<and> received + body_length m > limit then Some ([], BODY_TOO_LARGE)
            else run_counted (k m) limit (received + body_length m) ms)"
| "run_counted (SEND s k) =
     (\<lambda>limit received input. map_option (\<lambda>(out, e). (s # out, e)) (run_counted k limit received input))"

definition is_start :: "sent \<Rightarrow> bool" where
  "is_start s = (case s of RESPONSE_START _ \<Rightarrow> True | RESPONSE_BODY \<Rightarrow> False)"

definition rejection :: "sent list" where
  "rejection = [RESPONSE_START 413, RESPONSE_BODY]"

text \<open>\<^verbatim>\<open>int(value)\<close> of a header's bytes; \<^const>\<open>None\<close> when it raises.\<close>

definition bytes_space :: "char \<Rightarrow> bool" where
  "bytes_space c = (code_of c \<in> {9, 10, 11, 12, 13, 32})"

definition int_digits :: "string \<Rightarrow> int option" where
  "int_digits s =
     (if list_all (\<lambda>part. is_ascii_decimal part) (split_on (CHR ''_'') s)
      then Some (numeral_value 10 (filter (\<lambda>c. c \<noteq> CHR ''_'') s)) else None)"

definition int_of_bytes :: "string \<Rightarrow> int option" where
  "int_of_bytes s =
     (let t = rev (dropWhile bytes_space (rev (dropWhile bytes_space s)))
      in if startswith ''-'' t then map_option uminus (int_digits (tl t))
         else if startswith ''+'' t then int_digits (tl t)
         else int_digits t)"

definition content_length :: "request \<Rightarrow> int option" where
  "content_length rq = Option.bind (header rq ''content-length'') int_of_bytes"

definition body_size_limit :: "int \<Rightarrow> request \<Rightarrow> app \<Rightarrow> message list \<Rightarrow> (sent list \<times> ending) option" where
  "body_size_limit limit rq k input =
     (if limit \<le> 0 then run_app k input
      else if (case content_length rq of None \<Rightarrow> False | Some n \<Rightarrow> n > limit) then Some (rejection, RETURNED)
      else case run_counted k limit 0 input of
             None \<Rightarrow> None
           | Some (out, BODY_TOO_LARGE) \<Rightarrow>
               if list_ex is_start out then Some (out, BODY_TOO_LARGE) else Some (out @ rejection, RETURNED)
           | Some r \<Rightarrow> Some r)"

lemma run_app_ending: "run_app k input = Some (out, e) \<Longrightarrow> e \<noteq> BODY_TOO_LARGE"
proof (induction k arbitrary: input out)
  case (RECEIVE f)
  then obtain m ms where "input = m # ms" "run_app (f m) ms = Some (out, e)" by (auto split: list.splits)
  with RECEIVE.IH [OF rangeI] show ?case by blast
qed auto

lemma body_length_nonneg: "0 \<le> body_length m"
  by (simp add: body_length_def split: message.splits)

lemma run_counted_small:
  "received + sum_list (map body_length input) \<le> limit \<Longrightarrow> run_counted k limit received input = run_app k input"
proof (induction k arbitrary: received input)
  case (RECEIVE f)
  show ?case
  proof (cases input)
    case (Cons m ms)
    have "0 \<le> sum_list (map body_length ms)"
      by (rule sum_list_nonneg) (auto simp: body_length_nonneg)
    with RECEIVE.prems Cons have "\<not> received + body_length m > limit" by simp
    with RECEIVE.prems Cons RECEIVE.IH [of "f m" "received + body_length m" ms] show ?thesis by (simp add: add.assoc)
  qed simp
qed (auto simp: )

text \<open>
  Under the limit the middleware is invisible: for a request whose declared length, if any, and whose
  body together do not pass the limit, the wrapped application sends, and ends, exactly as it would alone.
\<close>

theorem body_within_limit_untouched:
  assumes "sum_list (map body_length input) \<le> limit" "case content_length rq of None \<Rightarrow> True | Some n \<Rightarrow> n \<le> limit"
  shows "body_size_limit limit rq k input = run_app k input"
proof -
  have "run_counted k limit 0 input = run_app k input" using run_counted_small assms(1) by simp
  then show ?thesis
    using assms(2) run_app_ending [of k input]
    by (auto simp: body_size_limit_def split: option.splits prod.splits ending.splits)
qed









section \<open>Instances\<close>

definition echo_app :: app where
  "echo_app = RECEIVE (\<lambda>m. SEND (RESPONSE_START 200) (SEND RESPONSE_BODY RETURNS))"

definition plain_request :: "string \<Rightarrow> request" where
  "plain_request declared = \<lparr>rq_client = None, rq_headers = [(''content-length'', declared)], rq_server = None,
     rq_method = ''POST'', rq_path = ''/deposit''\<rparr>"

theorem body_within_limit_untouched_witness:
  "body_size_limit 4 (plain_request ''3'') echo_app [HTTP_REQUEST [1, 2, 3]] =
     Some ([RESPONSE_START 200, RESPONSE_BODY], RETURNED)"
proof -
  have "content_length (plain_request ''3'') = Some 3" by code_simp
  then show ?thesis
    using body_within_limit_untouched [of "[HTTP_REQUEST [1, 2, 3]]" 4 "plain_request ''3''" echo_app]
    by (simp add: body_length_def echo_app_def)
qed



definition write_route :: route where
  "write_route = \<lparr>rt_full_match = True, rt_api = True, rt_dependencies = [None, Some AGENT_GATE]\<rparr>"

theorem host_bound_refuses_only_what_the_gate_does_witness:
  "\<exists>e e'. fst (host_bound demo_engine (\<lambda>_. demo_view ''dev-key'') [write_route] remote_request None) = Some e \<and>
     fst (run_gate demo_engine AGENT_GATE (\<lambda>_. demo_view ''dev-key'') remote_request
       (bearer_from_header remote_request) None) = Some e'"
proof -
  have g: "route_gate [write_route] = Some AGENT_GATE" by (simp add: write_route_def)
  have "\<exists>e. fst (host_bound demo_engine (\<lambda>_. demo_view ''dev-key'') [write_route] remote_request None) = Some e"
    using demo_remote_bounds by (simp add: host_bound_def)
  then show ?thesis using host_bound_refuses_only_what_the_gate_does [OF _ g] by blast
qed

end
