(* ===== verification/Rate_Limit.thy ===== *)
theory Rate_Limit
  imports Gate_Rules
begin

text \<open>
  The token buckets of \<^verbatim>\<open>particles/api/_rate_limit.py\<close>: the bucket a request spends from, admission, the
  bound on the number of buckets, and the meter that charges a request's model calls to its bucket.

  The module's dictionary is an association list in insertion order, passed and returned. Tokens and
  times are rationals: Python's floats round, so the amounts here are the exact ones. \<^verbatim>\<open>time.monotonic()\<close>
  is an argument. An IPv6 network is printed from the address directly.
\<close>

unbundle bit_operations_syntax

type_synonym buckets = "(string, rat \<times> rat) dict"

definition MAX_BUCKETS :: nat where
  "MAX_BUCKETS = 10000"

definition LOOPBACK_BUCKET :: string where
  "LOOPBACK_BUCKET = ''loopback''"

definition PEERLESS_BUCKET :: string where
  "PEERLESS_BUCKET = ''peerless''"

section \<open>The bucket of an address\<close>

definition v6_network_64 :: "128 word \<Rightarrow> string option \<Rightarrow> string" where
  "v6_network_64 w zone =
     (if w AND netmask 64 \<noteq> w then show_v6 (w AND netmask 64) None else show_v6 w zone) @ ''/64''"

definition unmapped :: "ip \<Rightarrow> ip" where
  "unmapped a =
     (case a of
        V4 w \<Rightarrow> V4 w
      | V6 w z \<Rightarrow> (case ipv4_mapped w of None \<Rightarrow> V6 w z | Some m \<Rightarrow> V4 m))"

definition bucket_key :: "string \<Rightarrow> string" where
  "bucket_key host =
     (case ip_address host of
        None \<Rightarrow> ''host:'' @ host
      | Some a \<Rightarrow>
          let b = unmapped a in
          if is_loopback b then LOOPBACK_BUCKET
          else (case b of V6 w z \<Rightarrow> v6_network_64 w z | V4 w \<Rightarrow> show_v4 w))"

section \<open>Admission\<close>

definition last_seen :: "string \<times> rat \<times> rat \<Rightarrow> rat" where
  "last_seen item = snd (snd item)"

definition drop_keys :: "string list \<Rightarrow> buckets \<Rightarrow> buckets" where
  "drop_keys ks b = filter (\<lambda>item. fst item \<notin> set ks) b"

definition make_room :: "rat \<Rightarrow> buckets \<Rightarrow> buckets" where
  "make_room now b =
     (let fresh = drop_keys (map fst (filter (\<lambda>item. now - last_seen item \<ge> 60) b)) b
      in if length fresh < MAX_BUCKETS then fresh
         else drop_keys (map fst (take (length fresh - MAX_BUCKETS + 1) (sort_key last_seen fresh))) fresh)"

definition reset_rate_limiter :: "buckets \<Rightarrow> buckets" where
  "reset_rate_limiter b = []"

definition allow :: "string \<Rightarrow> int \<Rightarrow> rat \<Rightarrow> buckets \<Rightarrow> bool \<times> buckets" where
  "allow host rate now b =
     (let capacity = of_int rate;
          b1 = (if map_of b host = None \<and> length b \<ge> MAX_BUCKETS then make_room now b else b);
          (tokens0, last) = (case map_of b1 host of None \<Rightarrow> (capacity, now) | Some kept \<Rightarrow> kept);
          tokens = min capacity (tokens0 + (now - last) * of_int rate / 60)
      in if tokens < 1 then (False, AList.update host (tokens, now) b1)
         else (True, AList.update host (tokens - 1, now) b1))"

section \<open>Requests\<close>

definition client_bucket :: "engine \<Rightarrow> views \<Rightarrow> request \<Rightarrow> scope \<Rightarrow> string \<times> scope" where
  "client_bucket en vs rq scope =
     (case principal_for_request en vs rq scope of
        (Some p, scope') \<Rightarrow> (''principal:'' @ c_id p, scope')
      | (None, scope') \<Rightarrow>
          ((case real_client_host (en_api en) rq of None \<Rightarrow> PEERLESS_BUCKET | Some host \<Rightarrow> bucket_key host), scope'))"

record meter =
  prepaid :: bool
  refused_calls :: nat

record limiter =
  lm_buckets :: buckets
  lm_scope :: scope
  lm_meter :: "meter option" \<comment> \<open>\<^verbatim>\<open>current_meter()\<close>, when it is a request's meter\<close>

text \<open>\<^const>\<open>True\<close>: admitted; \<^const>\<open>False\<close>: 429.\<close>

definition enforce_rate_limit ::
  "engine \<Rightarrow> views \<Rightarrow> int \<Rightarrow> rat \<Rightarrow> request \<Rightarrow> limiter \<Rightarrow> bool \<times> limiter"
where
  "enforce_rate_limit en vs rate now rq s =
     (if rate \<le> 0 then (True, s)
      else
        case client_bucket en vs rq (lm_scope s) of (key, scope') \<Rightarrow>
        case allow key rate now (lm_buckets s) of (ok, b') \<Rightarrow>
          let s' = s\<lparr>lm_buckets := b', lm_scope := scope'\<rparr>
          in if \<not> ok then (False, s')
             else (True, s'\<lparr>lm_meter := map_option (\<lambda>m. m\<lparr>prepaid := True\<rparr>) (lm_meter s)\<rparr>))"

text \<open>One model call of a metered request; \<^const>\<open>False\<close>: \<^verbatim>\<open>ModelCallBudgetSpent\<close>.\<close>

definition charge ::
  "engine \<Rightarrow> views \<Rightarrow> int \<Rightarrow> rat \<Rightarrow> request \<Rightarrow> meter \<Rightarrow> buckets \<Rightarrow> scope \<Rightarrow> bool \<times> meter \<times> buckets \<times> scope"
where
  "charge en vs rate now rq m b scope =
     (if prepaid m then (True, m\<lparr>prepaid := False\<rparr>, b, scope)
      else if rate \<le> 0 then (True, m, b, scope)
      else
        case client_bucket en vs rq scope of (key, scope') \<Rightarrow>
        case allow key rate now b of (ok, b') \<Rightarrow>
          if ok then (True, m, b', scope') else (False, m\<lparr>refused_calls := refused_calls m + 1\<rparr>, b', scope'))"

text \<open>The middleware: a meter for every HTTP request that holds no operator key.\<close>

definition open_meter :: "engine \<Rightarrow> views \<Rightarrow> request \<Rightarrow> scope \<Rightarrow> meter option \<times> scope" where
  "open_meter en vs rq scope =
     (case request_holds_operator_credential en vs rq scope of (holds, scope') \<Rightarrow>
        (if holds then None else Some \<lparr>prepaid = False, refused_calls = 0\<rparr>, scope'))"

text \<open>The header the response of a metered request carries.\<close>

definition disclosed_refusals :: "meter \<Rightarrow> string option" where
  "disclosed_refusals m = (if refused_calls m \<noteq> 0 then Some (show_nat (refused_calls m)) else None)"

section \<open>The number of buckets\<close>

definition buckets_inv :: "buckets \<Rightarrow> bool" where
  "buckets_inv b = (distinct (map fst b) \<and> length b \<le> MAX_BUCKETS)"

lemma drop_keys_distinct: "distinct (map fst b) \<Longrightarrow> distinct (map fst (drop_keys ks b))"
  by (simp add: drop_keys_def distinct_map_filter)

lemma drop_keys_length:
  assumes "distinct (map fst b)" "set ks \<subseteq> fst ` set b" "distinct ks"
  shows "length (drop_keys ks b) + length ks = length b"
proof -
  have "length (filter (\<lambda>item. fst item \<in> set ks) b) = length (filter (\<lambda>k. k \<in> set ks) (map fst b))"
    by (simp add: filter_map comp_def)
  also have "\<dots> = card (set ks)"
    using assms(1,2) by (subst distinct_card [symmetric])
      (auto intro!: arg_cong [where f = card])
  finally have "length (filter (\<lambda>item. fst item \<in> set ks) b) = length ks"
    using assms(3) by (simp add: distinct_card)
  then show ?thesis
    using sum_length_filter_compl [of "\<lambda>item. fst item \<in> set ks" b] by (simp add: drop_keys_def)
qed

lemma make_room_fits:
  assumes "distinct (map fst b)"
  shows "length (make_room now b) < MAX_BUCKETS" "distinct (map fst (make_room now b))"
    "set (make_room now b) \<subseteq> set b"
proof -
  define fresh where "fresh = drop_keys (map fst (filter (\<lambda>item. now - last_seen item \<ge> 60) b)) b"
  let ?out = "map fst (take (length fresh - MAX_BUCKETS + 1) (sort_key last_seen fresh))"
  have d: "distinct (map fst fresh)" using assms drop_keys_distinct by (simp add: fresh_def)
  have m: "make_room now b = (if length fresh < MAX_BUCKETS then fresh else drop_keys ?out fresh)"
    by (simp add: make_room_def fresh_def Let_def)
  have "distinct (map fst (sort_key last_seen fresh))"
    using d by (metis mset_eq_imp_distinct_iff mset_map mset_sort)
  then have out: "distinct ?out" "set ?out \<subseteq> fst ` set fresh"
    by (simp_all add: take_map [symmetric] image_mono set_take_subset subset_trans)
      (metis set_map set_sort set_take_subset)
  show "distinct (map fst (make_room now b))" using d drop_keys_distinct m by simp
  show "set (make_room now b) \<subseteq> set b"
    by (auto simp: m fresh_def drop_keys_def)
  show "length (make_room now b) < MAX_BUCKETS"
  proof (cases "length fresh < MAX_BUCKETS")
    case False
    have "length ?out = length fresh - MAX_BUCKETS + 1"
      using False by (simp add: MAX_BUCKETS_def)
    with drop_keys_length [OF d out(2,1)] False m show ?thesis by simp
  qed (simp add: m)
qed

text \<open>The tokens a client has at a moment: a client with no bucket has a full one.\<close>

definition available :: "int \<Rightarrow> rat \<Rightarrow> buckets \<Rightarrow> string \<Rightarrow> rat" where
  "available rate now b host =
     (case map_of b host of
        None \<Rightarrow> of_int rate
      | Some (tokens, seen) \<Rightarrow> min (of_int rate) (tokens + (now - seen) * of_int rate / 60))"

definition with_room :: "string \<Rightarrow> rat \<Rightarrow> buckets \<Rightarrow> buckets" where
  "with_room host now b = (if map_of b host = None \<and> length b \<ge> MAX_BUCKETS then make_room now b else b)"

lemma allow_available:
  "allow host rate now b =
     (let tokens = available rate now (with_room host now b) host in
      (tokens \<ge> 1, AList.update host (if tokens < 1 then tokens else tokens - 1, now) (with_room host now b)))"
  by (auto simp: allow_def available_def with_room_def Let_def split: option.splits prod.splits)

lemma length_update_present: "map_of b k \<noteq> None \<Longrightarrow> length (AList.update k v b) = length b"
  by (induction b) (auto split: if_splits)

lemma length_update_le: "length (AList.update k v b) \<le> Suc (length b)"
  by (induction b) auto

lemma with_room_inv:
  assumes "buckets_inv b"
  shows "distinct (map fst (with_room host now b))" "length (AList.update host v (with_room host now b)) \<le> MAX_BUCKETS"
proof -
  have d: "distinct (map fst b)" "length b \<le> MAX_BUCKETS" using assms by (simp_all add: buckets_inv_def)
  show "distinct (map fst (with_room host now b))" using d make_room_fits(2) by (simp add: with_room_def)
  show "length (AList.update host v (with_room host now b)) \<le> MAX_BUCKETS"
    using d make_room_fits(1) [OF d(1), of now] length_update_le [of host v "make_room now b"]
      length_update_le [of host v b] length_update_present [of b host v]
    by (auto simp: with_room_def)
qed

lemma allow_inv [inv_intros]: "buckets_inv b \<Longrightarrow> buckets_inv (snd (allow host rate now b))"
  using with_room_inv by (simp add: allow_available Let_def buckets_inv_def)

text \<open>A run of admissions: who asked, at what rate, when, and what each was told.\<close>

fun admissions :: "(string \<times> int \<times> rat) list \<Rightarrow> buckets \<Rightarrow> bool list \<times> buckets" where
  "admissions [] b = ([], b)"
| "admissions ((host, rate, now) # calls) b =
     (case allow host rate now b of (ok, b') \<Rightarrow>
        case admissions calls b' of (oks, b'') \<Rightarrow> (ok # oks, b''))"

lemma admissions_inv: "buckets_inv b \<Longrightarrow> buckets_inv (snd (admissions calls b))"
proof (induction calls b rule: admissions.induct)
  case (2 host rate now calls b)
  then show ?case using allow_inv [OF "2.prems", of host rate now] by (auto split: prod.splits)
qed simp

text \<open>
  C37. The limiter's memory is bounded: however many callers ask, from however many addresses, in
  whatever order and at whatever rates, it tracks at most 10000 buckets, one per client.
\<close>

theorem buckets_bounded:
  "length (snd (admissions calls [])) \<le> 10000 \<and> distinct (map fst (snd (admissions calls [])))"
  using admissions_inv [of "[]" calls] by (simp add: buckets_inv_def MAX_BUCKETS_def)

section \<open>The rate\<close>

lemma available_le: "available rate now b host \<le> of_int rate"
  by (auto simp: available_def split: option.splits)

lemma available_later:
  assumes "now \<le> now'" "0 \<le> rate"
  shows "available rate now' b host \<le> available rate now b host + (now' - now) * of_int rate / 60"
proof (cases "map_of b host")
  case None
  have "0 \<le> (now' - now) * of_int rate / 60" using assms by simp
  with None show ?thesis by (simp add: available_def)
next
  case (Some v)
  obtain tokens seen where v: "v = (tokens, seen)" by (cases v)
  define x where "x = (now - seen) * of_int rate / 60"
  define y where "y = (now' - now) * of_int rate / 60"
  have "(now' - seen) * of_int rate / 60 = x + y" by (simp add: x_def y_def field_simps)
  then have "available rate now' b host = min (of_int rate) (tokens + (x + y))"
    using Some v by (simp only: available_def option.case prod.case)
  moreover have "available rate now b host = min (of_int rate) (tokens + x)"
    using Some v by (simp add: available_def x_def)
  moreover have "0 \<le> y" using assms by (simp add: y_def)
  ultimately show ?thesis unfolding y_def [symmetric] by (simp add: min_def)
qed

lemma available_update:
  "available rate now (AList.update k (tokens, now) b) host =
     (if host = k then min (of_int rate) tokens else available rate now b host)"
  by (simp add: available_def)

text \<open>The admissions of one client in a run.\<close>

fun admitted :: "string \<Rightarrow> (string \<times> int \<times> rat) list \<Rightarrow> bool list \<Rightarrow> nat" where
  "admitted host ((h, _, _) # calls) (ok # oks) = (if h = host \<and> ok then 1 else 0) + admitted host calls oks"
| "admitted host _ _ = 0"

text \<open>The run goes forward in time from \<open>t\<close> to \<open>t'\<close> at one rate.\<close>

fun run_between :: "int \<Rightarrow> rat \<Rightarrow> (string \<times> int \<times> rat) list \<Rightarrow> rat \<Rightarrow> bool" where
  "run_between rate t [] t' = (t \<le> t')"
| "run_between rate t ((_, r, now) # calls) t' = (r = rate \<and> t \<le> now \<and> run_between rate now calls t')"

lemma run_between_le: "run_between rate t calls t' \<Longrightarrow> t \<le> t'"
  by (induction rate t calls t' rule: run_between.induct) auto

lemma keys_update: "fst ` set (AList.update k v b) = insert k (fst ` set b)"
  by (induction b) auto

definition buckets_sane :: "rat \<Rightarrow> buckets \<Rightarrow> bool" where
  "buckets_sane now b = (\<forall>k tokens seen. map_of b k = Some (tokens, seen) \<longrightarrow> 0 \<le> tokens \<and> seen \<le> now)"

lemma available_nonneg:
  assumes "buckets_sane t b" "t \<le> now" "0 \<le> rate"
  shows "0 \<le> available rate now b host"
proof (cases "map_of b host")
  case None
  with assms(3) show ?thesis by (simp add: available_def)
next
  case (Some v)
  obtain tokens seen where v: "v = (tokens, seen)" by (cases v)
  with assms(1) Some have "0 \<le> tokens" "seen \<le> t" by (auto simp: buckets_sane_def)
  then have "0 \<le> tokens + (now - seen) * of_int rate / 60" using assms(2,3) by simp
  with Some v assms(3) show ?thesis by (simp add: available_def)
qed

lemma buckets_sane_update:
  "buckets_sane t b \<Longrightarrow> t \<le> now \<Longrightarrow> 0 \<le> tokens \<Longrightarrow> buckets_sane now (AList.update k (tokens, now) b)"
  by (fastforce simp: buckets_sane_def)

text \<open>While the clients fit the table, nobody's bucket is dropped.\<close>

lemma with_room_same:
  assumes "finite S" "insert host (fst ` set b) \<subseteq> S" "card S \<le> MAX_BUCKETS" "distinct (map fst b)"
  shows "with_room host now b = b"
proof (cases "map_of b host")
  case None
  then have "host \<notin> fst ` set b" by (simp add: map_of_eq_None_iff)
  then have "Suc (length b) = card (insert host (fst ` set b))"
    using assms(4) distinct_card [of "map fst b"] by simp
  also have "\<dots> \<le> card S" using assms(1,2) by (rule card_mono)
  finally show ?thesis using assms(3) by (simp add: with_room_def)
qed (simp add: with_room_def)

lemma admitted_bound:
  assumes "run_between rate t calls t'" "0 \<le> rate" "buckets_sane t b"
    and "finite S" "fst ` set calls \<union> fst ` set b \<subseteq> S" "card S \<le> MAX_BUCKETS" "distinct (map fst b)"
  shows "of_nat (admitted host calls (fst (admissions calls b)))
    \<le> available rate t b host + (t' - t) * of_int rate / 60"
  using assms
proof (induction calls arbitrary: t b)
  case Nil
  then have "0 \<le> (t' - t) * of_int rate / 60" by simp
  with available_nonneg [OF Nil.prems(3) order_refl Nil.prems(2), of host] show ?case by simp
next
  case (Cons call calls)
  obtain h r now where call: "call = (h, r, now)" by (cases call)
  with Cons.prems(1) have r: "r = rate" and t: "t \<le> now" and run: "run_between rate now calls t'" by auto
  define tokens where "tokens = available rate now b h"
  define b' where "b' = AList.update h (if tokens < 1 then tokens else tokens - 1, now) b"
  have room: "with_room h now b = b"
    by (rule with_room_same [OF Cons.prems(4) _ Cons.prems(6,7)]) (use Cons.prems(5) call in auto)
  have al: "allow h rate now b = (tokens \<ge> 1, b')"
    by (simp add: allow_available room tokens_def b'_def Let_def)
  have tok: "0 \<le> tokens" "tokens \<le> of_int rate"
    using available_nonneg [OF Cons.prems(3) t Cons.prems(2)] available_le by (simp_all add: tokens_def)
  have sane: "buckets_sane now b'"
    unfolding b'_def by (rule buckets_sane_update [OF Cons.prems(3) t]) (use tok in simp)
  have ih: "of_nat (admitted host calls (fst (admissions calls b')))
      \<le> available rate now b' host + (t' - now) * of_int rate / 60"
    by (rule Cons.IH [OF run Cons.prems(2) sane Cons.prems(4) _ Cons.prems(6)])
      (use Cons.prems(5,7) call in \<open>auto simp: b'_def keys_update\<close>)
  have step: "(if h = host \<and> tokens \<ge> 1 then 1 else 0) + available rate now b' host = available rate now b host"
    using tok by (auto simp: b'_def available_update tokens_def)
  have "of_nat (admitted host (call # calls) (fst (admissions (call # calls) b)))
      = (if h = host \<and> tokens \<ge> 1 then 1 else 0) + (of_nat (admitted host calls (fst (admissions calls b'))) :: rat)"
    by (simp add: call r al split: prod.splits)
  also have "\<dots> \<le> available rate now b host + (t' - now) * of_int rate / 60"
    using ih step by linarith
  also have "\<dots> \<le> available rate t b host + (t' - t) * of_int rate / 60"
    using available_later [OF t Cons.prems(2), of b host] by (simp add: field_simps)
  finally show ?case .
qed

text \<open>
  C36. The rate holds: over any stretch of time from an empty limiter, with at most 10000 clients asking
  in any order, a client is admitted at most \<open>rate\<close> times at once plus \<open>rate\<close> per minute of the stretch,
  whatever the others do.
\<close>

theorem admissions_within_rate:
  assumes "run_between rate t calls t'" "0 \<le> rate" "card (fst ` set calls) \<le> 10000"
  shows "of_nat (admitted host calls (fst (admissions calls []))) \<le> of_int rate + (t' - t) * of_int rate / 60"
proof -
  have "of_nat (admitted host calls (fst (admissions calls [])))
    \<le> available rate t [] host + (t' - t) * of_int rate / 60"
    by (rule admitted_bound [OF assms(1,2), where S = "fst ` set calls"])
      (use assms(3) in \<open>auto simp: buckets_sane_def MAX_BUCKETS_def\<close>)
  then show ?thesis by (simp add: available_def)
qed

theorem admissions_within_rate_witness:
  "run_between 2 0 [(''a'', 2, 0), (''a'', 2, 0), (''b'', 2, 1), (''a'', 2, 3)] 3 \<and>
   of_nat (admitted ''a'' [(''a'', 2, 0), (''a'', 2, 0), (''b'', 2, 1), (''a'', 2, 3)]
     (fst (admissions [(''a'', 2, 0), (''a'', 2, 0), (''b'', 2, 1), (''a'', 2, 3)] []))) \<le> (of_int 2 + (3 - 0) * of_int 2 / 60 :: rat)"
proof -
  have run: "run_between 2 0 [(''a'', 2, 0), (''a'', 2, 0), (''b'', 2, 1), (''a'', 2, 3)] 3" by simp
  have few: "card (fst ` set [(''a'', 2 :: int, 0 :: rat), (''a'', 2, 0), (''b'', 2, 1), (''a'', 2, 3)]) \<le> 10000"
    by (simp add: card_insert_if)
  show ?thesis using admissions_within_rate [OF run _ few, of "''a''"] run by (intro conjI) (rule run, simp only: zero_le_numeral)
qed

text \<open>
  C38. A client that waits is served: one that was last seen \<open>60 / rate\<close> seconds ago or more is admitted,
  however empty its bucket was.
\<close>

theorem waiting_client_admitted:
  assumes "1 \<le> rate" "map_of b host = Some (tokens, seen)" "0 \<le> tokens" "now - seen \<ge> 60 / of_int rate"
  shows "fst (allow host rate now b)"
proof -
  have r: "0 < (of_int rate :: rat)" using assms(1) by simp
  then have "1 \<le> (now - seen) * of_int rate / 60"
    using assms(4) by (simp add: field_simps)
  then have "1 \<le> min (of_int rate) (tokens + (now - seen) * of_int rate / 60)" using assms(1,3) by simp
  moreover have "with_room host now b = b" using assms(2) by (simp add: with_room_def)
  ultimately show ?thesis using assms(2) by (simp add: allow_available available_def Let_def)
qed

theorem waiting_client_admitted_witness: "fst (allow ''a'' 30 (102 :: rat) [(''a'', 0, 100)])"
  using waiting_client_admitted [of 30 "[(''a'', 0, 100)]" "''a''" 0 100 102] by simp

text \<open>
  Dropping an idle bucket changes nothing: for a client last seen a minute ago or more, the answer and
  the tokens left are the same whether its bucket is still held or was dropped, so making room first
  costs no client anything.
\<close>

theorem idle_bucket_is_no_bucket:
  assumes "map_of b host = Some (tokens, seen)" "0 \<le> tokens" "60 \<le> now - seen" "0 \<le> rate" "length b \<le> 10000"
    and "distinct (map fst b)"
  shows "fst (allow host rate now b) = fst (allow host rate now (drop_keys [host] b)) \<and>
    map_of (snd (allow host rate now b)) host = map_of (snd (allow host rate now (drop_keys [host] b))) host"
proof -
  have gone: "map_of (drop_keys [host] b) host = None" by (auto simp: drop_keys_def map_of_eq_None_iff)
  have "length (drop_keys [host] b) + 1 = length b"
    using drop_keys_length [OF assms(6), of "[host]"] assms(1) by (force dest: map_of_SomeD)
  then have room: "with_room host now (drop_keys [host] b) = drop_keys [host] b" "with_room host now b = b"
    using assms(1,5) by (simp_all add: with_room_def MAX_BUCKETS_def)
  have "60 * of_int rate \<le> (now - seen) * of_int rate"
    using assms(3,4) by (intro mult_right_mono) simp_all
  then have "available rate now b host = available rate now (drop_keys [host] b) host"
    using assms(1,2) gone by (simp add: available_def)
  then show ?thesis by (simp add: allow_available room Let_def)
qed

theorem idle_bucket_is_no_bucket_witness:
  "fst (allow ''a'' 5 (200 :: rat) [(''a'', 0, 100), (''b'', 1, 150)]) =
   fst (allow ''a'' 5 (200 :: rat) (drop_keys [''a''] [(''a'', 0, 100), (''b'', 1, 150)]))"
  using idle_bucket_is_no_bucket [of "[(''a'', 0, 100), (''b'', 1, 150)]" "''a''" 0 100 200 5] by simp

section \<open>Whose bucket it is\<close>

definition address_char :: "char \<Rightarrow> bool" where
  "address_char c = (is_hex_digit c \<or> c \<in> {CHR ''.'', CHR '':'', CHR ''%'', CHR ''/''})"

lemma digit_char_hex: "d < 16 \<Longrightarrow> is_hex_digit (digit_char d)"
  by (cases "d < 10") (simp_all add: is_hex_digit_def digit_char_def code_of_def Let_def)

lemma digits_of_less: "1 < base \<Longrightarrow> d \<in> set (digits_of base n) \<Longrightarrow> d < base"
  by (induction base n rule: digits_of.induct) (subst (asm) (2) digits_of.simps, auto split: if_splits)

lemma digits_of_not_Nil: "digits_of base n \<noteq> []"
  by (subst digits_of.simps) simp

lemma show_nat_hex: "c \<in> set (show_nat n) \<Longrightarrow> is_hex_digit c"
  using digits_of_less [of 10 _ n] by (fastforce simp: show_nat_def intro: digit_char_hex)

lemma show_hex_hex: "c \<in> set (show_hex n) \<Longrightarrow> is_hex_digit c"
  using digits_of_less [of 16 _ n] by (fastforce simp: show_hex_def intro: digit_char_hex)

lemma show_v4_head: "address_char (hd (show_v4 w))" "show_v4 w \<noteq> []"
proof -
  have "0 \<le> uint w div 16777216" by (simp add: div_int_pos_iff)
  then have s: "show_int (uint w div 16777216) = show_nat (nat (uint w div 16777216))"
    by (simp add: show_int_def)
  have ne: "show_nat (nat (uint w div 16777216)) \<noteq> []" by (simp add: show_nat_def digits_of_not_Nil)
  show "show_v4 w \<noteq> []" using ne s by (simp add: show_v4_def Let_def)
  show "address_char (hd (show_v4 w))"
    using ne s show_nat_hex [OF hd_in_set [OF ne]] by (simp add: show_v4_def Let_def address_char_def)
qed

lemma compress_parts: "p \<in> set (compress_hextets hs) \<Longrightarrow> p = [] \<or> p \<in> set hs"
  by (auto simp: compress_hextets_def split: prod.splits if_splits dest: in_set_takeD in_set_dropD)

lemma v6_body_chars: "c \<in> set (join_with '':'' (compress_hextets (hextets_of w))) \<Longrightarrow> address_char c"
  using set_join_with [of "'':''" "compress_hextets (hextets_of w)"] compress_parts [of _ "hextets_of w"]
  by (fastforce simp: address_char_def hextets_of_def dest: show_hex_hex)

lemma v6_network_head: "v6_network_64 w z \<noteq> []" "address_char (hd (v6_network_64 w z))"
proof -
  have body: "address_char (hd (join_with '':'' (compress_hextets (hextets_of v)) @ tail))"
    if "tail \<noteq> []" "address_char (hd tail)" for v tail
    using that v6_body_chars hd_in_set by (metis append_Nil hd_append2)
  show "v6_network_64 w z \<noteq> []" by (simp add: v6_network_64_def)
  show "address_char (hd (v6_network_64 w z))"
    by (auto simp: v6_network_64_def show_v6_def address_char_def [of "CHR ''/''"] address_char_def [of "CHR ''%''"]
        intro!: body split: option.splits)
qed

lemma not_address_p: "\<not> address_char (CHR ''p'')"
  by (simp add: address_char_def is_hex_digit_def code_of_def)

text \<open>
  No address can spend from, or exhaust, a key's bucket: whatever a client's address or name is
  spelled like, the bucket it gets is not any principal's, and neither is the peerless one.
\<close>

theorem principal_buckets_private:
  "bucket_key host \<noteq> ''principal:'' @ name \<and> PEERLESS_BUCKET \<noteq> ''principal:'' @ name \<and>
   bucket_key host \<noteq> PEERLESS_BUCKET"
proof -
  have heads: "hd (show_v4 w) \<noteq> CHR ''p''" "hd (v6_network_64 v z) \<noteq> CHR ''p''" for w v z
    using show_v4_head(1) v6_network_head(2) not_address_p by metis+
  have "bucket_key host = [] \<or> hd (bucket_key host) \<noteq> CHR ''p''"
    using heads by (auto simp: bucket_key_def LOOPBACK_BUCKET_def Let_def split: option.splits ip.splits)
  then have "bucket_key host \<noteq> CHR ''p'' # rest" for rest by auto
  then show ?thesis by (simp add: PEERLESS_BUCKET_def)
qed

text \<open>
  A caller cannot take a fresh allowance by changing its address inside the network it was handed:
  two IPv6 addresses of one /64, written without a zone, spend from one bucket.
\<close>

theorem one_bucket_per_64:
  assumes "ip_address host = Some (V6 v None)" "ip_address host' = Some (V6 w None)"
    and "ipv4_mapped v = None" "ipv4_mapped w = None" "v \<noteq> 1" "w \<noteq> 1" "drop_bit 64 v = drop_bit 64 w"
  shows "bucket_key host = bucket_key host'"
proof -
  have same: "v AND netmask 64 = w AND netmask 64" using assms(7) and_netmask_eq_iff [of v 64 w] by simp
  have "v6_network_64 u None = show_v6 (u AND netmask 64) None @ ''/64''" for u
    by (auto simp: v6_network_64_def)
  with same have "v6_network_64 v None = v6_network_64 w None" by simp
  with assms show ?thesis by (simp add: bucket_key_def unmapped_def)
qed

theorem one_bucket_per_64_witness: "bucket_key ''2001:db8::7'' = bucket_key ''2001:db8:0:0:a:b:c:d''"
proof -
  have a: "ip_address ''2001:db8::7'' = Some (V6 0x20010DB8000000000000000000000007 None)"
    "ip_address ''2001:db8:0:0:a:b:c:d'' = Some (V6 0x20010DB800000000000A000B000C000D None)"
    by code_simp+
  show ?thesis by (rule one_bucket_per_64 [OF a]) code_simp+
qed

end
