(* ===== verification/Particle_Model.thy ===== *)
theory Particle_Model
  imports Complex_Main Key_Rules
begin

text \<open>
  The vocabulary of the belief store: particles, their provenance, corpus entries and snapshots.
  The classes are declared in \<^verbatim>\<open>particles.core.schema\<close> and \<^verbatim>\<open>particles.core.status\<close>; the records hold the
  fields the modelled code reads or writes, and the enumerations the members it names. What the
  code calls in those packages is a parameter of the definitions that call it.

  From \<^verbatim>\<open>src/particles\<close> the theory holds the harvest marks (\<^verbatim>\<open>corpus/harvest_marks.py\<close>) and the
  rule-file test (\<^verbatim>\<open>corpus/rule_sources.py\<close>).
\<close>

section \<open>Particles\<close>

datatype status = ACTIVE | PROVENANCE_STALE | INCONSISTENCY | SUPERSEDED | RETRACTED

datatype status_reason =
    CONFLICT_PENDING | CONFLICT_RESOLVED | CORPUS_ENTRY_MISSING | DOCUMENT_SUPERSEDED | DUPLICATE_MERGED
  | EXPLICIT_RETRACTION | EXPLICIT_SUPERSESSION | LOWER_TRUST_SOURCE | RETRACTED_DEPENDENCY | SOURCE_RETRACTED
  | SUPERSEDED_BY_REANCHOR | SUPERSEDED_BY_REINDEX | SUPERSEDED_BY_UPDATE | TRUST_DEMOTED | VALIDITY_EXPIRED

datatype calibration = AGENT_ASSERTED | DERIVED | EXTRACTOR_DIRECT | HUMAN_REVIEW | IMPORTED

datatype nature = ALEATORY | EPISTEMIC

datatype ref_type = SOURCE | PARTICLE

record provenance_ref =
  ref_kind :: ref_type
  ref_entry :: string
  ref_snapshot :: "string option"
  ref_location :: "string option"
  ref_chunk :: "string option"

text \<open>A Python \<^verbatim>\<open>datetime\<close>, in microseconds; a naive one is read as UTC wherever the code compares.\<close>

datatype datetime = Naive int | Aware int

fun as_utc :: "datetime \<Rightarrow> int" where
  "as_utc (Naive t) = t"
| "as_utc (Aware t) = t"

record structured_claim =
  claim_subject :: string \<comment> \<open>\<^verbatim>\<open>subject.value\<close>\<close>
  claim_subject_id :: "string option"
  claim_structurizer :: "string \<times> string" \<comment> \<open>\<^verbatim>\<open>structurizer_id\<close> and \<^verbatim>\<open>structurizer_version\<close>\<close>
  claim_generated_at :: datetime

datatype valid_kind = EVENT | OTHER_KIND string

record particle =
  p_id :: string
  p_content :: string
  p_status :: status
  p_reason :: "status_reason option"
  p_supersedes :: "string option"
  p_nature :: nature
  p_confidence :: rat
  p_calibration :: calibration
  p_asserted_by :: string
  p_asserted_at :: datetime
  p_provenance :: "provenance_ref list"
  p_subject_ids :: "string list"
  p_claim :: "structured_claim option"
  p_properties :: "(string, json) dict option"
  p_tags :: "string list option"
  p_valid_from :: "datetime option"
  p_valid_until :: "datetime option"
  p_valid_kind :: "valid_kind option"
  p_modality :: string \<comment> \<open>\<^verbatim>\<open>assertion_modality\<close>\<close>

definition source_ref :: "particle \<Rightarrow> provenance_ref option" where
  "source_ref p = List.find (\<lambda>r. ref_kind r = SOURCE) (p_provenance p)"

lemma source_ref_Some: "source_ref p = Some r \<Longrightarrow> r \<in> set (p_provenance p) \<and> ref_kind r = SOURCE"
  by (auto simp: source_ref_def find_Some_iff)

section \<open>Corpus entries\<close>

record snapshot =
  s_id :: string
  s_author_id :: "string option"
  s_published_at :: "datetime option"

record corpus_entry =
  e_id :: string
  e_uri_r :: "string option"
  e_source_type :: string
  e_deposited_by :: string
  e_tags :: "string list option"
  e_contributors :: "(string \<times> string) list option" \<comment> \<open>each contributor's id and role\<close>
  e_snapshots :: "snapshot list"

section \<open>Harvest marks\<close>

definition MEMORY_FILE_TAG :: string where
  "MEMORY_FILE_TAG = ''memory-file''"

definition MEMORY_ARCHIVE_TAG :: string where
  "MEMORY_ARCHIVE_TAG = ''memory-archive''"

definition RULE_SOURCE_TAG :: string where
  "RULE_SOURCE_TAG = ''rule-file''"

definition RESERVED_TAGS :: "string list" where
  "RESERVED_TAGS = [''claude-code'', MEMORY_FILE_TAG, MEMORY_ARCHIVE_TAG, ''rule-file'']"

definition MEMORY_HARVEST_TAGS :: "string list" where
  "MEMORY_HARVEST_TAGS = [''memory-file'', ''claude-code'']"

text \<open>\<^verbatim>\<open>sorted(set(tags) & RESERVED_TAGS)\<close>: the reserved tags in code-point order, filtered.\<close>

definition reserved_marks :: "string list option \<Rightarrow> string option \<Rightarrow> string list" where
  "reserved_marks tags deposited_by =
     filter (\<lambda>t. case tags of None \<Rightarrow> False | Some ts \<Rightarrow> t \<in> set ts)
       [''claude-code'', MEMORY_ARCHIVE_TAG, MEMORY_FILE_TAG, ''rule-file'']
     @ (case deposited_by of
          None \<Rightarrow> []
        | Some d \<Rightarrow> if d \<in> set RESERVED_DEPOSITORS then [''deposited_by='' @ d] else [])"

definition reserved_marks_refusal :: "string list \<Rightarrow> string list option" where
  "reserved_marks_refusal marks = (if marks = [] then None else Some marks)"

definition strip_reserved_tags :: "string list \<Rightarrow> string list" where
  "strip_reserved_tags tags = filter (\<lambda>t. t \<notin> set RESERVED_TAGS) tags"

definition is_owner_harvest :: "corpus_entry \<Rightarrow> bool" where
  "is_owner_harvest e =
     (e_deposited_by e \<in> set HARVEST_DEPOSITORS \<and>
      list_ex (\<lambda>t. t \<in> set MEMORY_HARVEST_TAGS) (case e_tags e of None \<Rightarrow> [] | Some ts \<Rightarrow> ts))"

definition is_rule_source :: "corpus_entry \<Rightarrow> bool" where
  "is_rule_source e = (case e_tags e of None \<Rightarrow> False | Some ts \<Rightarrow> RULE_SOURCE_TAG \<in> set ts)"

text \<open>
  An intake that refuses reserved marks, or drops the reserved tags and keeps an unreserved
  depositor, cannot make an entry the owner's harvest or a rule file.
\<close>

lemma unmarked_not_harvest:
  assumes "reserved_marks (e_tags e) (Some (e_deposited_by e)) = []"
  shows "\<not> is_owner_harvest e \<and> \<not> is_rule_source e"
  using assms
  by (auto simp: reserved_marks_def is_owner_harvest_def is_rule_source_def RESERVED_DEPOSITORS_def
      RULE_SOURCE_TAG_def split: option.splits if_splits)

lemma stripped_no_marks: "reserved_marks (Some (strip_reserved_tags tags)) None = []"
  by (auto simp: reserved_marks_def strip_reserved_tags_def RESERVED_TAGS_def filter_empty_conv)

end
