(* ===== verification/Particle_Store.thy ===== *)
theory Particle_Store
  imports Particle_Model "HOL-Library.Product_Lexorder"
begin

text \<open>
  The writes of the particle store: \<^verbatim>\<open>src/particles/store/particle_store.py\<close> with the link tables it
  fills (\<^verbatim>\<open>subject_store.py\<close>, \<^verbatim>\<open>taxonomy_store.py\<close>, \<^verbatim>\<open>relation_store.py\<close>) and the event log
  (\<^verbatim>\<open>event_store.py\<close>). A session is the record \<open>store\<close>; an operation returns the new store or the
  error it raises, in which case the caller's transaction is rolled back. The clock is an argument.

  What \<^verbatim>\<open>particles.core\<close>, the embedding model and the scope rules supply are the fields of \<open>status_rules\<close>: the
  transition table (\<^verbatim>\<open>core.status.validate_transition\<close>), the one reversible reason, the stance kinds, the id of
  the embedding model, the content hash of \<^verbatim>\<open>core.duplicate_key\<close>, \<^verbatim>\<open>apply_source_exemption\<close>, the operator's
  classifier name and the property keys of \<^verbatim>\<open>core.validity\<close>.
\<close>

section \<open>The store\<close>

record validity_keys =
  vk_all :: "string list"
  vk_basis :: string
  vk_cue :: string
  vk_confidence :: string
  vk_granularity :: string
  vk_rule :: string

record status_rules =
  allowed :: "status option \<Rightarrow> status \<Rightarrow> bool" \<comment> \<open>\<^const>\<open>None\<close>: the status a particle is born with\<close>
  reversible_reason :: status_reason
  stance_kind :: "string \<Rightarrow> bool"
  embedding_model :: string
  content_digest :: "string \<Rightarrow> string"
  exemption :: "(string, json) dict option \<Rightarrow> (string, json) dict option" \<comment> \<open>\<^const>\<open>None\<close>: the same object back\<close>
  operator_classifier :: string
  validity_names :: validity_keys

record particle_row =
  r_particle :: particle
  r_retired_at :: "int option"
  r_born_retired :: bool
  r_domain_hint :: "string option"
  r_embedding :: "rat list option"
  r_embedding_model :: "string option"
  r_content_hash :: "string option" \<comment> \<open>\<^verbatim>\<open>content_norm_hash\<close>\<close>
  r_structurizer :: "((string \<times> string) \<times> datetime) option" \<comment> \<open>the three stamp columns of an annotation\<close>
  r_modality_stamp :: "(string \<times> string option \<times> datetime) option" \<comment> \<open>classifier, its model, when\<close>

datatype op_event = UPDATE_SUPERSESSION | TRUST_SUPERSESSION | DOCUMENT_SUPERSESSION | CONFLICT_CANDIDATE_DROPPED

datatype event_ref = E_PARTICLE | E_CORPUS_ENTRY | E_SUBJECT | E_TRUST_STATEMENT

record op_event_row =
  ev_actor :: string
  ev_type :: op_event
  ev_reason :: "string option"
  ev_refs :: "(event_ref \<times> string) list"
  ev_payload :: "(string, json) dict option"

record store =
  st_rows :: "(string, particle_row) dict"
  st_edges :: "(string \<times> string \<times> string option \<times> string option) list"
  st_subjects :: "(string \<times> string) list"
  st_tags :: "(string \<times> string) list"
  st_relations :: "(string \<times> string \<times> string) list"
  st_events :: "op_event_row list"

definition empty_store :: store where
  "empty_store =
     \<lparr>st_rows = [], st_edges = [], st_subjects = [], st_tags = [], st_relations = [], st_events = []\<rparr>"

datatype store_error =
  NOT_FOUND | BAD_BIRTH | BAD_TRANSITION | NOT_REVERSIBLE | NOT_STALE | SOLELY_SUPPORTED | KEY_TAKEN | TWO_ENDS

section \<open>Inserting\<close>

definition from_model :: "status_rules \<Rightarrow> particle \<Rightarrow> rat list option \<Rightarrow> particle_row" where
  "from_model rules p emb =
     (let given = (case emb of Some (x # xs) \<Rightarrow> True | _ \<Rightarrow> False) in
      \<lparr>r_particle = p, r_retired_at = None, r_born_retired = False, r_domain_hint = None,
       r_embedding = (if given then emb else None),
       r_embedding_model = (if given then Some (embedding_model rules) else None),
       r_content_hash = Some (content_digest rules (p_content p)),
       r_structurizer = map_option (\<lambda>c. (claim_structurizer c, claim_generated_at c)) (p_claim p),
       r_modality_stamp = None\<rparr>)"

text \<open>One edge per corpus entry, for its first ref.\<close>

fun edges_of :: "string \<Rightarrow> string list \<Rightarrow> provenance_ref list
                   \<Rightarrow> (string \<times> string \<times> string option \<times> string option) list" where
  "edges_of pid edged [] = []"
| "edges_of pid edged (r # rs) =
     (if ref_entry r \<in> set edged then edges_of pid edged rs
      else (pid, ref_entry r, ref_snapshot r, ref_chunk r) # edges_of pid (ref_entry r # edged) rs)"

text \<open>\<^verbatim>\<open>dict.fromkeys(xs)\<close>: the first of each, in order.\<close>

fun fromkeys :: "'a list \<Rightarrow> 'a list" where
  "fromkeys [] = []"
| "fromkeys (x # xs) = x # fromkeys (filter (\<lambda>y. y \<noteq> x) xs)"

definition link_particle_to_subjects :: "string \<Rightarrow> string list \<Rightarrow> store \<Rightarrow> store" where
  "link_particle_to_subjects pid sids st = st\<lparr>st_subjects := st_subjects st @ map (Pair pid) (fromkeys sids)\<rparr>"

definition link_particle_to_tags :: "string \<Rightarrow> string list \<Rightarrow> store \<Rightarrow> store" where
  "link_particle_to_tags pid tags st = st\<lparr>st_tags := st_tags st @ map (Pair pid) (fromkeys tags)\<rparr>"

definition insert_particle ::
  "status_rules \<Rightarrow> particle \<Rightarrow> rat list option \<Rightarrow> string option \<Rightarrow> store \<Rightarrow> store_error + store" where
  "insert_particle rules p emb hint st =
     (if p_status p = PROVENANCE_STALE \<and> p_reason p \<noteq> Some CONFLICT_PENDING then Inl BAD_BIRTH
      else if map_of (st_rows st) (p_id p) \<noteq> None then Inl KEY_TAKEN
      else
        let row = (from_model rules p emb)
              \<lparr>r_born_retired := p_status p \<in> {INCONSISTENCY, PROVENANCE_STALE}, r_domain_hint := hint\<rparr>;
            st1 = st\<lparr>st_rows := AList.update (p_id p) row (st_rows st),
                     st_edges := st_edges st @ edges_of (p_id p) [] (p_provenance p)\<rparr>;
            st2 = (if p_subject_ids p \<noteq> [] then link_particle_to_subjects (p_id p) (p_subject_ids p) st1 else st1)
        in Inr (case p_tags p of
                  Some (t # ts) \<Rightarrow> link_particle_to_tags (p_id p) (t # ts) st2
                | _ \<Rightarrow> st2))"

section \<open>Reading\<close>

definition row_of :: "store \<Rightarrow> string \<Rightarrow> particle_row option" where
  "row_of st pid = map_of (st_rows st) pid"

definition get_particle :: "store \<Rightarrow> string \<Rightarrow> particle option" where
  "get_particle st pid = map_option r_particle (row_of st pid)"

definition get_particle_status :: "store \<Rightarrow> string \<Rightarrow> status option" where
  "get_particle_status st pid = map_option (\<lambda>r. p_status (r_particle r)) (row_of st pid)"

text \<open>SQLite's \<^verbatim>\<open>LIKE\<close>, which a \<^verbatim>\<open>startswith\<close> on a column compiles to, ignores the case of ASCII letters.\<close>

definition ascii_lower :: "string \<Rightarrow> string" where
  "ascii_lower s = map (\<lambda>c. if code_of c < 128 then lower_char c else c) s"

definition get_active_particle_by_id_or_prefix :: "store \<Rightarrow> string \<Rightarrow> particle option" where
  "get_active_particle_by_id_or_prefix st pid =
     (case List.find (\<lambda>p. p_status p = ACTIVE) (case get_particle st pid of None \<Rightarrow> [] | Some p \<Rightarrow> [p]) of
        Some p \<Rightarrow> Some p
      | None \<Rightarrow>
          (case filter (\<lambda>(i, r). p_status (r_particle r) = ACTIVE \<and> startswith (ascii_lower pid) (ascii_lower i))
                  (st_rows st) of
             [(_, r)] \<Rightarrow> Some (r_particle r)
           | _ \<Rightarrow> None))"

definition get_retired_at :: "store \<Rightarrow> string \<Rightarrow> store_error + int option" where
  "get_retired_at st pid = (case row_of st pid of None \<Rightarrow> Inl NOT_FOUND | Some r \<Rightarrow> Inr (r_retired_at r))"

definition is_born_retired :: "store \<Rightarrow> string \<Rightarrow> store_error + bool" where
  "is_born_retired st pid = (case row_of st pid of None \<Rightarrow> Inl NOT_FOUND | Some r \<Rightarrow> Inr (r_born_retired r))"

definition load_born_retired_ids :: "store \<Rightarrow> string list" where
  "load_born_retired_ids st = map fst (filter (\<lambda>(_, r). r_born_retired r) (st_rows st))"

text \<open>
  The loader of the semantic reads. A table is its rows with their \<^verbatim>\<open>rowid\<close>; the query orders them by
  confidence and \<^verbatim>\<open>rowid\<close>, and \<^verbatim>\<open>or\<close> gives a row without a model id the historical one. Skipped rows are
  only counted for a log line.
\<close>

definition LEGACY_EMBEDDING_MODEL_ID :: string where
  "LEGACY_EMBEDDING_MODEL_ID = ''all-MiniLM-L6-v2''"

definition stored_model :: "particle_row \<Rightarrow> string" where
  "stored_model r = (case r_embedding_model r of None \<Rightarrow> LEGACY_EMBEDDING_MODEL_ID
     | Some m \<Rightarrow> if m = [] then LEGACY_EMBEDDING_MODEL_ID else m)"

definition row_order :: "nat \<times> particle_row \<Rightarrow> rat \<times> nat" where
  "row_order nr = (p_confidence (r_particle (snd nr)), fst nr)"

definition get_active_particles_with_embeddings ::
  "status_rules \<Rightarrow> (nat \<times> particle_row) list \<Rightarrow> (string \<times> string) list \<Rightarrow> rat \<Rightarrow> string option
     \<Rightarrow> (particle \<times> rat list) list" where
  "get_active_particles_with_embeddings rules tbl links min_confidence subject =
     (let linked = (\<lambda>r. case subject of None \<Rightarrow> True | Some s \<Rightarrow> (p_id (r_particle r), s) \<in> set links);
          hits = filter (\<lambda>(_, r). p_status (r_particle r) = ACTIVE \<and> p_confidence (r_particle r) \<ge> min_confidence
                   \<and> r_embedding r \<noteq> None \<and> linked r) tbl
      in map (\<lambda>(_, r). (r_particle r, the (r_embedding r)))
           (filter (\<lambda>(_, r). stored_model r = embedding_model rules) (sort_key row_order hits)))"

text \<open>The rows of a store with their \<^verbatim>\<open>rowid\<close>s: the modelled writes append rows and delete none.\<close>

definition table_of :: "store \<Rightarrow> (nat \<times> particle_row) list" where
  "table_of st = zip [0..<length (st_rows st)] (map snd (st_rows st))"

section \<open>Updating\<close>

definition put_row :: "string \<Rightarrow> particle_row \<Rightarrow> store \<Rightarrow> store" where
  "put_row pid row st = st\<lparr>st_rows := AList.update pid row (st_rows st)\<rparr>"

definition remove_particle_from_relations :: "status_rules \<Rightarrow> string \<Rightarrow> store \<Rightarrow> store" where
  "remove_particle_from_relations rules pid st =
     st\<lparr>st_relations := filter (\<lambda>(a, b, kind). \<not> ((a = pid \<or> b = pid) \<and> \<not> stance_kind rules kind)) (st_relations st)\<rparr>"

definition retire_stamp :: "int \<Rightarrow> status \<Rightarrow> status \<Rightarrow> int option \<Rightarrow> int option" where
  "retire_stamp now from_status new_status retired =
     (let stamped = (if from_status = ACTIVE \<and> new_status \<noteq> ACTIVE \<and> retired = None then Some now else retired)
      in if new_status = ACTIVE then None else stamped)"

definition update_particle_status ::
  "status_rules \<Rightarrow> int \<Rightarrow> string \<Rightarrow> status \<Rightarrow> status_reason option \<Rightarrow> nature option \<Rightarrow> store \<Rightarrow> store_error + store" where
  "update_particle_status rules now pid new_status reason unc st =
     (case row_of st pid of
        None \<Rightarrow> Inl NOT_FOUND
      | Some row \<Rightarrow>
          let p = r_particle row; from_status = p_status p in
          if \<not> allowed rules (Some from_status) new_status then Inl BAD_TRANSITION
          else if from_status = SUPERSEDED \<and> new_status = ACTIVE \<and> p_reason p \<noteq> Some (reversible_reason rules)
          then Inl NOT_REVERSIBLE
          else
            let p' = p\<lparr>p_status := new_status, p_reason := reason,
                       p_nature := (case unc of None \<Rightarrow> p_nature p | Some n \<Rightarrow> n)\<rparr>;
                row' = row\<lparr>r_particle := p', r_retired_at := retire_stamp now from_status new_status (r_retired_at row)\<rparr>;
                st' = put_row pid row' st
            in Inr (if new_status = RETRACTED then remove_particle_from_relations rules pid st' else st'))"

definition update_status_reason :: "string \<Rightarrow> status_reason \<Rightarrow> store \<Rightarrow> store_error + store" where
  "update_status_reason pid reason st =
     (case row_of st pid of
        None \<Rightarrow> Inl NOT_FOUND
      | Some row \<Rightarrow>
          if p_status (r_particle row) \<noteq> PROVENANCE_STALE then Inl NOT_STALE
          else Inr (put_row pid (row\<lparr>r_particle := (r_particle row)\<lparr>p_reason := Some reason\<rparr>\<rparr>) st))"

definition copy_particle_embedding :: "string \<Rightarrow> string \<Rightarrow> store \<Rightarrow> store_error + store" where
  "copy_particle_embedding source_id target_id st =
     (case (row_of st source_id, row_of st target_id) of
        (Some source, Some target) \<Rightarrow>
          Inr (if r_embedding source = None then st
               else put_row target_id (target\<lparr>r_embedding := r_embedding source,
                                              r_embedding_model := r_embedding_model source\<rparr>) st)
      | _ \<Rightarrow> Inl NOT_FOUND)"

definition append_provenance_ref :: "string \<Rightarrow> provenance_ref \<Rightarrow> store \<Rightarrow> bool \<times> store" where
  "append_provenance_ref pid ref st =
     (case row_of st pid of
        None \<Rightarrow> (False, st)
      | Some row \<Rightarrow>
          let p = r_particle row in
          if ref \<in> set (p_provenance p) then (False, st)
          else
            let st' = put_row pid (row\<lparr>r_particle := p\<lparr>p_provenance := p_provenance p @ [ref]\<rparr>\<rparr>) st
            in (True,
                if list_ex (\<lambda>(i, e, _). i = pid \<and> e = ref_entry ref) (st_edges st) then st'
                else st'\<lparr>st_edges := st_edges st @ [(pid, ref_entry ref, ref_snapshot ref, ref_chunk ref)]\<rparr>))"

definition strip_entry_provenance_refs :: "string \<Rightarrow> string \<Rightarrow> store \<Rightarrow> store_error + nat \<times> store" where
  "strip_entry_provenance_refs pid entry st =
     (case row_of st pid of
        None \<Rightarrow> Inl NOT_FOUND
      | Some row \<Rightarrow>
          let p = r_particle row;
              kept = filter (\<lambda>r. \<not> (ref_kind r = SOURCE \<and> ref_entry r = entry)) (p_provenance p);
              removed = length (p_provenance p) - length kept
          in if \<not> list_ex (\<lambda>r. ref_kind r = SOURCE) kept then Inl SOLELY_SUPPORTED
             else
               let st' = (if removed \<noteq> 0
                          then put_row pid (row\<lparr>r_particle := p\<lparr>p_provenance := kept\<rparr>\<rparr>) st else st)
               in Inr (removed, st'\<lparr>st_edges := filter (\<lambda>(i, e, _). \<not> (i = pid \<and> e = entry)) (st_edges st)\<rparr>))"

definition set_particle_property :: "string \<Rightarrow> string \<Rightarrow> json \<Rightarrow> store \<Rightarrow> bool \<times> store" where
  "set_particle_property pid key val st =
     (case row_of st pid of
        None \<Rightarrow> (False, st)
      | Some row \<Rightarrow>
          let p = r_particle row; props = (case p_properties p of None \<Rightarrow> [] | Some d \<Rightarrow> d)
          in (True, put_row pid (row\<lparr>r_particle := p\<lparr>p_properties := Some (AList.update key val props)\<rparr>\<rparr>) st))"

definition set_supersedes_if_unset :: "string \<Rightarrow> string \<Rightarrow> store \<Rightarrow> bool \<times> store" where
  "set_supersedes_if_unset pid predecessor st =
     (case row_of st pid of
        None \<Rightarrow> (False, st)
      | Some row \<Rightarrow>
          if p_supersedes (r_particle row) \<noteq> None then (False, st)
          else (True, put_row pid (row\<lparr>r_particle := (r_particle row)\<lparr>p_supersedes := Some predecessor\<rparr>\<rparr>) st))"

definition update_uncertainty_nature :: "string \<Rightarrow> nature \<Rightarrow> store \<Rightarrow> store_error + store" where
  "update_uncertainty_nature pid n st =
     (case row_of st pid of
        None \<Rightarrow> Inl NOT_FOUND
      | Some row \<Rightarrow> Inr (put_row pid (row\<lparr>r_particle := (r_particle row)\<lparr>p_nature := n\<rparr>\<rparr>) st))"

text \<open>The annotations: the structured claim, the world-time record, the modality and the scope exemption.\<close>

definition set_structured_claim :: "string \<Rightarrow> structured_claim \<Rightarrow> store \<Rightarrow> store_error + store" where
  "set_structured_claim pid claim st =
     (case row_of st pid of
        None \<Rightarrow> Inl NOT_FOUND
      | Some row \<Rightarrow>
          Inr (put_row pid (row\<lparr>r_particle := (r_particle row)\<lparr>p_claim := Some claim\<rparr>,
                 r_structurizer := Some (claim_structurizer claim, claim_generated_at claim)\<rparr>) st))"

definition record_structured_claim_declined :: "datetime \<Rightarrow> string \<Rightarrow> string \<times> string \<Rightarrow> store \<Rightarrow> store_error + store" where
  "record_structured_claim_declined now pid structurizer st =
     (case row_of st pid of
        None \<Rightarrow> Inl NOT_FOUND
      | Some row \<Rightarrow>
          Inr (put_row pid (row\<lparr>r_particle := (r_particle row)\<lparr>p_claim := None\<rparr>,
                 r_structurizer := Some (structurizer, now)\<rparr>) st))"

record validity_record =
  vr_from :: "datetime option"
  vr_kind :: "valid_kind option"
  vr_basis :: string
  vr_cue :: "string option"
  vr_confidence :: "json option"
  vr_granularity :: "string option"
  vr_rule :: "string option"

definition put_given :: "string \<Rightarrow> string option \<Rightarrow> (string, json) dict \<Rightarrow> (string, json) dict" where
  "put_given key v d = (case v of Some (c # cs) \<Rightarrow> AList.update key (JStr (c # cs)) d | _ \<Rightarrow> d)"

definition validity_crumbs :: "validity_keys \<Rightarrow> validity_record \<Rightarrow> (string, json) dict \<Rightarrow> (string, json) dict" where
  "validity_crumbs names vr props =
     (let cleared = filter (\<lambda>(k, _). k \<notin> set (vk_all names)) props
      in if vr_from vr = None then cleared
         else
           let d1 = put_given (vk_cue names) (vr_cue vr) (AList.update (vk_basis names) (JStr (vr_basis vr)) cleared);
               d2 = (case vr_confidence vr of None \<Rightarrow> d1 | Some c \<Rightarrow> AList.update (vk_confidence names) c d1)
           in put_given (vk_rule names) (vr_rule vr) (put_given (vk_granularity names) (vr_granularity vr) d2))"

definition set_validity_record ::
  "status_rules \<Rightarrow> string \<Rightarrow> validity_record \<Rightarrow> string list \<Rightarrow> store \<Rightarrow> store_error + bool \<times> store" where
  "set_validity_record rules pid vr preserve st =
     (case row_of st pid of
        None \<Rightarrow> Inl NOT_FOUND
      | Some row \<Rightarrow>
          let p = r_particle row; props = (case p_properties p of None \<Rightarrow> [] | Some d \<Rightarrow> d) in
          if (case map_of props (vk_basis (validity_names rules)) of Some (JStr b) \<Rightarrow> b \<in> set preserve | _ \<Rightarrow> False)
          then Inr (False, st)
          else if vr_kind vr = Some EVENT \<and> p_valid_until p \<noteq> None then Inl TWO_ENDS
          else
            let kept = validity_crumbs (validity_names rules) vr props
            in Inr (True, put_row pid (row\<lparr>r_particle := p\<lparr>p_valid_from := vr_from vr, p_valid_kind := vr_kind vr,
                      p_properties := (if kept = [] then None else Some kept)\<rparr>\<rparr>) st))"

definition set_modality_record ::
  "status_rules \<Rightarrow> string \<Rightarrow> string \<Rightarrow> string \<times> string option \<times> datetime \<Rightarrow> bool \<Rightarrow> store
     \<Rightarrow> store_error + string option \<times> store" where
  "set_modality_record rules pid modality stamp preserve_operator st =
     (case row_of st pid of
        None \<Rightarrow> Inl NOT_FOUND
      | Some row \<Rightarrow>
          if preserve_operator \<and> map_option fst (r_modality_stamp row) = Some (operator_classifier rules) then Inr (None, st)
          else Inr (Some (p_modality (r_particle row)),
                    put_row pid (row\<lparr>r_particle := (r_particle row)\<lparr>p_modality := modality\<rparr>,
                      r_modality_stamp := Some stamp\<rparr>) st))"

definition copy_modality_stamp :: "string \<Rightarrow> string \<Rightarrow> store \<Rightarrow> store_error + store" where
  "copy_modality_stamp source_id target_id st =
     (case (row_of st source_id, row_of st target_id) of
        (Some source, Some target) \<Rightarrow> Inr (put_row target_id (target\<lparr>r_modality_stamp := r_modality_stamp source\<rparr>) st)
      | _ \<Rightarrow> Inl NOT_FOUND)"

definition exempted :: "status_rules \<Rightarrow> string \<Rightarrow> store \<Rightarrow> string \<Rightarrow> particle_row \<Rightarrow> particle_row option" where
  "exempted rules entry st pid row =
     (if list_ex (\<lambda>(i, e, _). i = pid \<and> e = entry) (st_edges st)
      then map_option (\<lambda>d. row\<lparr>r_particle := (r_particle row)\<lparr>p_properties := Some d\<rparr>\<rparr>)
             (exemption rules (p_properties (r_particle row)))
      else None)"

definition stamp_scope_exemption_for_entry :: "status_rules \<Rightarrow> string \<Rightarrow> store \<Rightarrow> nat \<times> store" where
  "stamp_scope_exemption_for_entry rules entry st =
     (length (filter (\<lambda>(i, r). exempted rules entry st i r \<noteq> None) (st_rows st)),
      st\<lparr>st_rows := map (\<lambda>(i, r). (i, case exempted rules entry st i r of None \<Rightarrow> r | Some r' \<Rightarrow> r')) (st_rows st)\<rparr>)"

text \<open>\<open>http\<close> is the caller the request gate bound, its principal and key id; outside a request, none.\<close>

definition record_event :: "(string \<times> string) option \<Rightarrow> op_event_row \<Rightarrow> store \<Rightarrow> store" where
  "record_event http ev st =
     (let payload = (case http of
                       None \<Rightarrow> ev_payload ev
                     | Some (who, key) \<Rightarrow>
                         Some (AList.update ''http_key_id'' (JStr key)
                           (AList.update ''http_principal'' (JStr who)
                             (case ev_payload ev of None \<Rightarrow> [] | Some d \<Rightarrow> d))))
      in st\<lparr>st_events := st_events st @ [ev\<lparr>ev_payload := payload, ev_refs := fromkeys (ev_refs ev)\<rparr>]\<rparr>)"

section \<open>Sessions as sequences of writes\<close>

text \<open>
  Every write of \<^verbatim>\<open>particle_store.py\<close> as a command, and the event log's. \<open>Insert\<close> is \<^verbatim>\<open>insert_particle\<close> alone: most
  callers check the birth status first, a restore from a bundle does not, so a row may be born in any
  status the insertion itself admits. Writes of other modules to the same table (merging subjects rewrites
  subject ids, deleting a corpus entry deletes rows) are not commands here.
\<close>

datatype store_command =
    Insert particle "rat list option" "string option"
  | SetStatus int string status "status_reason option" "nature option"
  | SetReason string status_reason
  | CopyEmbedding string string
  | AppendRef string provenance_ref
  | StripRefs string string
  | SetProperty string string json
  | SetSupersedes string string
  | SetNature string nature
  | SetClaim string structured_claim
  | DeclineClaim datetime string "string \<times> string"
  | SetValidity string validity_record "string list"
  | SetModality string string "string \<times> string option \<times> datetime" bool
  | CopyModality string string
  | StampExemption string
  | RecordEvent "(string \<times> string) option" op_event_row

fun run_command :: "status_rules \<Rightarrow> store_command \<Rightarrow> store \<Rightarrow> store_error + store" where
  "run_command rules (Insert p emb hint) st = insert_particle rules p emb hint st"
| "run_command rules (SetStatus now pid s reason unc) st = update_particle_status rules now pid s reason unc st"
| "run_command rules (SetReason pid reason) st = update_status_reason pid reason st"
| "run_command rules (CopyEmbedding a b) st = copy_particle_embedding a b st"
| "run_command rules (AppendRef pid ref) st = Inr (snd (append_provenance_ref pid ref st))"
| "run_command rules (StripRefs pid e) st = map_sum id snd (strip_entry_provenance_refs pid e st)"
| "run_command rules (SetProperty pid k v) st = Inr (snd (set_particle_property pid k v st))"
| "run_command rules (SetSupersedes pid q) st = Inr (snd (set_supersedes_if_unset pid q st))"
| "run_command rules (SetNature pid n) st = update_uncertainty_nature pid n st"
| "run_command rules (SetClaim pid claim) st = set_structured_claim pid claim st"
| "run_command rules (DeclineClaim now pid who) st = record_structured_claim_declined now pid who st"
| "run_command rules (SetValidity pid vr preserve) st = map_sum id snd (set_validity_record rules pid vr preserve st)"
| "run_command rules (SetModality pid m stamp keep) st = map_sum id snd (set_modality_record rules pid m stamp keep st)"
| "run_command rules (CopyModality a b) st = copy_modality_stamp a b st"
| "run_command rules (StampExemption e) st = Inr (snd (stamp_scope_exemption_for_entry rules e st))"
| "run_command rules (RecordEvent http ev) st = Inr (record_event http ev st)"

fun run_all :: "('c \<Rightarrow> 's \<Rightarrow> 'e + 's) \<Rightarrow> 'c list \<Rightarrow> 's \<Rightarrow> 'e + 's" where
  "run_all run [] s = Inr s"
| "run_all run (c # cs) s = (case run c s of Inl e \<Rightarrow> Inl e | Inr s' \<Rightarrow> run_all run cs s')"

inductive store_reach :: "status_rules \<Rightarrow> store \<Rightarrow> bool" for rules where
  fresh: "store_reach rules empty_store"
| wrote: "store_reach rules st \<Longrightarrow> run_command rules c st = Inr st' \<Longrightarrow> store_reach rules st'"

section \<open>What one write may do to a row\<close>

text \<open>
  A change to one row: the claim and who made it are never rewritten, the birth mark stays, and
  a \<^verbatim>\<open>supersedes\<close> pointer once set is kept.
\<close>

definition row_keeps :: "particle_row \<Rightarrow> particle_row \<Rightarrow> bool" where
  "row_keeps r r' =
     (let p = r_particle r; p' = r_particle r' in
      p_id p' = p_id p \<and> p_content p' = p_content p \<and> p_asserted_by p' = p_asserted_by p
      \<and> p_asserted_at p' = p_asserted_at p \<and> p_calibration p' = p_calibration p
      \<and> p_subject_ids p' = p_subject_ids p \<and> p_confidence p' = p_confidence p \<and> p_tags p' = p_tags p
      \<and> p_valid_until p' = p_valid_until p \<and> r_content_hash r' = r_content_hash r
      \<and> r_born_retired r' = r_born_retired r \<and> r_domain_hint r' = r_domain_hint r
      \<and> (p_supersedes p = None \<or> p_supersedes p' = p_supersedes p))"

lemma row_keeps_refl [simp]: "row_keeps r r"
  by (auto simp: row_keeps_def Let_def)

lemma row_keeps_trans: "row_keeps r1 r2 \<Longrightarrow> row_keeps r2 r3 \<Longrightarrow> row_keeps r1 r3"
  by (auto simp: row_keeps_def Let_def)

lemma row_of_put [simp]: "row_of (put_row pid r st) i = (if i = pid then Some r else row_of st i)"
  by (simp add: row_of_def put_row_def)

lemma row_of_unchanged [simp]:
  "row_of (st\<lparr>st_edges := es\<rparr>) = row_of st" "row_of (st\<lparr>st_relations := rs\<rparr>) = row_of st"
  "row_of (st\<lparr>st_events := evs\<rparr>) = row_of st" "row_of (st\<lparr>st_subjects := ls\<rparr>) = row_of st"
  "row_of (st\<lparr>st_tags := ts\<rparr>) = row_of st"
  by (auto simp: row_of_def)

lemma insert_row:
  "insert_particle rules p emb hint st = Inr st' \<Longrightarrow>
     row_of st (p_id p) = None \<and>
     row_of st' = (row_of st)(p_id p \<mapsto> (from_model rules p emb)
        \<lparr>r_born_retired := p_status p \<in> {INCONSISTENCY, PROVENANCE_STALE}, r_domain_hint := hint\<rparr>) \<and>
     st_edges st' = st_edges st @ edges_of (p_id p) [] (p_provenance p) \<and>
     \<not> (p_status p = PROVENANCE_STALE \<and> p_reason p \<noteq> Some CONFLICT_PENDING)"
  by (auto simp: insert_particle_def Let_def link_particle_to_subjects_def link_particle_to_tags_def row_of_def
      split: if_splits option.splits list.splits)

lemma map_of_map_values: "map_of (map (\<lambda>(k, v). (k, f k v)) xs) k = map_option (f k) (map_of xs k)"
  by (induction xs) auto

text \<open>The restamp changes the properties of a row and nothing else.\<close>

lemma stamped_row:
  "row_of (snd (stamp_scope_exemption_for_entry rules e st)) i =
     map_option (\<lambda>r. case exempted rules e st i r of None \<Rightarrow> r | Some r' \<Rightarrow> r') (row_of st i)"
  by (simp add: stamp_scope_exemption_for_entry_def row_of_def map_of_map_values)

lemma exempted_row:
  "\<exists>q. (case exempted rules e st i r of None \<Rightarrow> r | Some r' \<Rightarrow> r') = r\<lparr>r_particle := (r_particle r)\<lparr>p_properties := q\<rparr>\<rparr>"
proof (cases "exempted rules e st i r")
  case None
  have "r = r\<lparr>r_particle := (r_particle r)\<lparr>p_properties := p_properties (r_particle r)\<rparr>\<rparr>" by simp
  with None show ?thesis by (metis option.simps(4))
qed (auto simp: exempted_def split: if_splits)

lemma stamp_cases:
  assumes "run_command rules (StampExemption e) st = Inr st'"
  shows "row_of st i = None \<Longrightarrow> row_of st' i = None"
    and "row_of st i = Some r \<Longrightarrow> \<exists>q. row_of st' i = Some (r\<lparr>r_particle := (r_particle r)\<lparr>p_properties := q\<rparr>\<rparr>)"
  using assms exempted_row [where rules = rules and e = e and st = st and i = i and r = r] by (auto simp: stamped_row)

lemmas annotation_defs = update_status_reason_def copy_particle_embedding_def append_provenance_ref_def
  strip_entry_provenance_refs_def set_particle_property_def record_event_def set_supersedes_if_unset_def
  update_uncertainty_nature_def set_structured_claim_def record_structured_claim_declined_def
  set_validity_record_def set_modality_record_def copy_modality_stamp_def Let_def

lemma run_command_keeps:
  assumes "run_command rules c st = Inr st'" "row_of st i = Some r"
  shows "\<exists>r'. row_of st' i = Some r' \<and> row_keeps r r'"
proof (cases c)
  case (Insert p emb hint)
  then show ?thesis
    using assms insert_row [of rules p emb hint st st'] by auto
next
  case (StampExemption e)
  then show ?thesis using assms stamp_cases(2) [of rules e st st' i r] by (auto simp: row_keeps_def)
qed (use assms in \<open>auto simp: update_particle_status_def remove_particle_from_relations_def row_keeps_def annotation_defs
    split: option.splits if_splits sum.splits\<close>)

text \<open>Any system of commands whose single steps keep a preorder on rows keeps it over a whole session.\<close>

locale row_history =
  fixes run :: "'c \<Rightarrow> 's \<Rightarrow> 'e + 's" and row :: "'s \<Rightarrow> 'k \<Rightarrow> 'r option" and keeps :: "'r \<Rightarrow> 'r \<Rightarrow> bool"
  assumes keeps_refl: "keeps r r"
    and keeps_trans: "keeps r1 r2 \<Longrightarrow> keeps r2 r3 \<Longrightarrow> keeps r1 r3"
    and run_keeps: "run c s = Inr s' \<Longrightarrow> row s k = Some r \<Longrightarrow> \<exists>r'. row s' k = Some r' \<and> keeps r r'"
begin

lemma session_keeps: "run_all run cs s = Inr s' \<Longrightarrow> row s k = Some r \<Longrightarrow> \<exists>r'. row s' k = Some r' \<and> keeps r r'"
proof (induction cs arbitrary: s r)
  case Nil
  then show ?case using keeps_refl by auto
next
  case (Cons c cs)
  then obtain s1 where s1: "run c s = Inr s1" "run_all run cs s1 = Inr s'"
    by (auto split: sum.splits)
  obtain r1 where r1: "row s1 k = Some r1" "keeps r r1"
    using run_keeps [OF s1(1) Cons.prems(2)] by blast
  then obtain r' where "row s' k = Some r'" "keeps r1 r'"
    using Cons.IH [OF s1(2)] by blast
  with r1 show ?case by (blast intro: keeps_trans)
qed

end

interpretation store_history: row_history "run_command rules" row_of row_keeps for rules
  by unfold_locales (auto intro: row_keeps_trans run_command_keeps)

section \<open>The invariant\<close>

text \<open>
  A row that is believed carries no retirement instant, and an embedding comes with the id of its model. A
  row outside belief need not carry an instant: it may have been born retired, or restored so from a bundle.
\<close>

definition row_inv :: "particle_row \<Rightarrow> bool" where
  "row_inv r =
     ((p_status (r_particle r) = ACTIVE \<longrightarrow> r_retired_at r = None) \<and>
      (r_embedding r = None \<longleftrightarrow> r_embedding_model r = None))"

definition ref_entries :: "particle_row \<Rightarrow> string set" where
  "ref_entries r = ref_entry ` set (p_provenance (r_particle r))"

definition edge_keys :: "store \<Rightarrow> (string \<times> string) list" where
  "edge_keys st = map (\<lambda>(i, e, _). (i, e)) (st_edges st)"

definition rows_inv :: "store \<Rightarrow> bool" where
  "rows_inv st = (\<forall>i r. row_of st i = Some r \<longrightarrow> p_id (r_particle r) = i \<and> row_inv r)"

text \<open>The provenance index: keyed by particle and entry, every edge backed by a ref of its particle.\<close>

definition edges_inv :: "store \<Rightarrow> bool" where
  "edges_inv st =
     (distinct (edge_keys st) \<and>
      (\<forall>i e. (i, e) \<in> set (edge_keys st) \<longrightarrow> (\<exists>r. row_of st i = Some r \<and> e \<in> ref_entries r)))"

text \<open>The hash column of each row: nullable, but written from the content whenever a row is inserted.\<close>

definition rows_hashed :: "status_rules \<Rightarrow> store \<Rightarrow> bool" where
  "rows_hashed rules st =
     (\<forall>i r. row_of st i = Some r \<longrightarrow> r_content_hash r = Some (content_digest rules (p_content (r_particle r))))"

text \<open>A row is stamped when it is believed or carries the instant it left belief.\<close>

definition stamped :: "particle_row \<Rightarrow> bool" where
  "stamped r = (p_status (r_particle r) = ACTIVE \<or> r_retired_at r \<noteq> None)"

lemma rows_inv_put [inv_intros]:
  "rows_inv st \<Longrightarrow> p_id (r_particle r) = i \<Longrightarrow> row_inv r \<Longrightarrow> rows_inv (put_row i r st)"
  by (simp add: rows_inv_def)

lemma rows_invD: "rows_inv st \<Longrightarrow> row_of st i = Some r \<Longrightarrow> p_id (r_particle r) = i \<and> row_inv r"
  by (simp add: rows_inv_def)

lemma rows_inv_put_annotated:
  assumes "row_of st i = Some r" "rows_inv st"
    and "p_id (r_particle r') = p_id (r_particle r)" "p_status (r_particle r') = p_status (r_particle r)"
    and "r_retired_at r' = r_retired_at r"
    and "r_embedding r' = r_embedding r \<and> r_embedding_model r' = r_embedding_model r
           \<or> (r_embedding r' = None \<longleftrightarrow> r_embedding_model r' = None)"
  shows "rows_inv (put_row i r' st)"
  using rows_invD [OF assms(2,1)] assms(2-) by (auto simp: row_inv_def intro!: inv_intros)

lemma rows_inv_embedding: "rows_inv st \<Longrightarrow> row_of st i = Some r \<Longrightarrow> r_embedding r = None \<longleftrightarrow> r_embedding_model r = None"
  by (auto simp: rows_inv_def row_inv_def Let_def)

lemma rows_inv_unchanged [simp]:
  "rows_inv (st\<lparr>st_edges := es\<rparr>) = rows_inv st" "rows_inv (st\<lparr>st_relations := rs\<rparr>) = rows_inv st"
  "rows_inv (st\<lparr>st_events := evs\<rparr>) = rows_inv st"
  by (auto simp: rows_inv_def)

lemma row_inv_status:
  "row_inv r \<Longrightarrow> row_inv (r\<lparr>r_particle := (r_particle r)\<lparr>p_status := s, p_reason := x, p_nature := n\<rparr>,
     r_retired_at := retire_stamp now (p_status (r_particle r)) s (r_retired_at r)\<rparr>)"
  by (auto simp: row_inv_def retire_stamp_def Let_def)

text \<open>The row a successful transition writes.\<close>

definition moved_row :: "int \<Rightarrow> status \<Rightarrow> status_reason option \<Rightarrow> nature option \<Rightarrow> particle_row \<Rightarrow> particle_row" where
  "moved_row now s reason unc r =
     r\<lparr>r_particle := (r_particle r)\<lparr>p_status := s, p_reason := reason,
          p_nature := (case unc of None \<Rightarrow> p_nature (r_particle r) | Some n \<Rightarrow> n)\<rparr>,
       r_retired_at := retire_stamp now (p_status (r_particle r)) s (r_retired_at r)\<rparr>"

lemma row_of_put_fun: "row_of (put_row pid r st) = (row_of st)(pid \<mapsto> r)"
  by (simp add: fun_eq_iff)

lemma put_row_simps [simp]:
  "st_edges (put_row pid r st) = st_edges st" "st_events (put_row pid r st) = st_events st"
  by (simp_all add: put_row_def)

lemma update_particle_status_eq:
  "update_particle_status rules now pid s reason unc st =
     (case row_of st pid of
        None \<Rightarrow> Inl NOT_FOUND
      | Some r \<Rightarrow>
          if \<not> allowed rules (Some (p_status (r_particle r))) s then Inl BAD_TRANSITION
          else if p_status (r_particle r) = SUPERSEDED \<and> s = ACTIVE
                  \<and> p_reason (r_particle r) \<noteq> Some (reversible_reason rules) then Inl NOT_REVERSIBLE
          else Inr (if s = RETRACTED then remove_particle_from_relations rules pid (put_row pid (moved_row now s reason unc r) st)
                    else put_row pid (moved_row now s reason unc r) st))"
  unfolding update_particle_status_def Let_def moved_row_def by (rule refl)

lemma update_row:
  assumes "update_particle_status rules now pid s reason unc st = Inr st'"
  obtains r where "row_of st pid = Some r" "allowed rules (Some (p_status (r_particle r))) s"
    "p_status (r_particle r) = SUPERSEDED \<and> s = ACTIVE \<Longrightarrow> p_reason (r_particle r) = Some (reversible_reason rules)"
    "row_of st' = (row_of st)(pid \<mapsto> moved_row now s reason unc r)" "st_edges st' = st_edges st"
    "st_events st' = st_events st"
  using assms unfolding update_particle_status_eq
  by (auto simp: row_of_put_fun remove_particle_from_relations_def split: option.splits if_splits)

lemma row_inv_moved: "row_inv r \<Longrightarrow> row_inv (moved_row now s reason unc r)"
  by (simp add: row_inv_status moved_row_def)

lemma moved_row_simps [simp]:
  "p_id (r_particle (moved_row now s reason unc r)) = p_id (r_particle r)"
  "p_status (r_particle (moved_row now s reason unc r)) = s"
  "p_reason (r_particle (moved_row now s reason unc r)) = reason"
  "p_supersedes (r_particle (moved_row now s reason unc r)) = p_supersedes (r_particle r)"
  "r_retired_at (moved_row now s reason unc r) = retire_stamp now (p_status (r_particle r)) s (r_retired_at r)"
  "ref_entries (moved_row now s reason unc r) = ref_entries r"
  by (simp_all add: moved_row_def ref_entries_def)

lemma row_inv_born:
  "row_inv ((from_model rules p emb)
     \<lparr>r_born_retired := p_status p \<in> {INCONSISTENCY, PROVENANCE_STALE}, r_domain_hint := hint\<rparr>)"
  by (auto simp: row_inv_def from_model_def Let_def split: option.splits list.splits)

lemma insert_rows_inv:
  assumes "insert_particle rules p emb hint st = Inr st'" "rows_inv st"
  shows "rows_inv st'"
  using insert_row [OF assms(1)] row_inv_born [where rules = rules and p = p and emb = emb and hint = hint] assms(2)
  by (auto simp: rows_inv_def from_model_def Let_def)

lemma run_command_rows_inv:
  assumes "run_command rules c st = Inr st'" "rows_inv st"
  shows "rows_inv st'"
proof (cases c)
  case (Insert p emb hint)
  then show ?thesis using assms insert_rows_inv by auto
next
  case (SetStatus now pid s reason unc)
  then have "update_particle_status rules now pid s reason unc st = Inr st'" using assms by simp
  then show ?thesis
    by (rule update_row) (use assms(2) row_inv_moved in \<open>auto simp: rows_inv_def\<close>)
next
  case (StampExemption e)
  note stamp = stamp_cases [OF assms(1) [unfolded StampExemption]]
  show ?thesis unfolding rows_inv_def
  proof (intro allI impI)
    fix i r' assume r': "row_of st' i = Some r'"
    then obtain r where r: "row_of st i = Some r" using stamp(1) [of i] by fastforce
    then show "p_id (r_particle r') = i \<and> row_inv r'"
      using stamp(2) [OF r] rows_invD [OF assms(2) r] r' by (auto simp: row_inv_def)
  qed
qed (use assms in \<open>auto simp: annotation_defs rows_inv_embedding intro!: rows_inv_put_annotated
    split: option.splits if_splits sum.splits\<close>)

lemma edges_of_keys:
  "set (map (\<lambda>(i, e, _). (i, e)) (edges_of pid edged rs)) = Pair pid ` (ref_entry ` set rs - set edged)"
  by (induction rs arbitrary: edged) auto

lemma edges_of_distinct: "distinct (map (\<lambda>(i, e, _). (i, e)) (edges_of pid edged rs))"
proof (induction rs arbitrary: edged)
  case (Cons r rs)
  have "(pid, ref_entry r) \<notin> set (map (\<lambda>(i, e, _). (i, e)) (edges_of pid (ref_entry r # edged) rs))"
    unfolding edges_of_keys by auto
  with Cons show ?case by simp
qed simp

lemma insert_edges_inv:
  assumes "insert_particle rules p emb hint st = Inr st'" "edges_inv st"
  shows "edges_inv st'"
proof -
  note ins = insert_row [OF assms(1)]
  let ?new = "map (\<lambda>(i, e, _). (i, e)) (edges_of (p_id p) [] (p_provenance p))"
  have keys: "edge_keys st' = edge_keys st @ ?new"
    using ins by (simp add: edge_keys_def)
  have old: "i \<noteq> p_id p" if "(i, e) \<in> set (edge_keys st)" for i e
    using that ins assms(2) unfolding edges_inv_def by (metis option.distinct(1))
  have new: "set ?new = Pair (p_id p) ` ref_entry ` set (p_provenance p)"
    using edges_of_keys [of "p_id p" "[]"] by simp
  have "distinct (edge_keys st')"
    unfolding keys distinct_append new using assms(2) edges_of_distinct [of "p_id p" "[]"] old
    by (auto simp: edges_inv_def)
  moreover have "\<exists>r. row_of st' i = Some r \<and> e \<in> ref_entries r" if "(i, e) \<in> set (edge_keys st')" for i e
  proof (cases "(i, e) \<in> set (edge_keys st)")
    case True
    then show ?thesis using assms(2) ins old [OF True] by (auto simp: edges_inv_def)
  next
    case False
    then have "i = p_id p" "e \<in> ref_entry ` set (p_provenance p)"
      using that new unfolding keys by auto
    then show ?thesis using ins by (auto simp: ref_entries_def from_model_def Let_def)
  qed
  ultimately show ?thesis by (simp add: edges_inv_def)
qed

lemma edges_inv_rows:
  assumes "edges_inv st" "st_edges st' = st_edges st"
    and "\<And>i r. row_of st i = Some r \<Longrightarrow> \<exists>r'. row_of st' i = Some r' \<and> ref_entries r \<subseteq> ref_entries r'"
  shows "edges_inv st'"
proof -
  have "\<exists>r'. row_of st' i = Some r' \<and> e \<in> ref_entries r'" if "(i, e) \<in> set (edge_keys st)" for i e
  proof -
    from that assms(1) obtain r where "row_of st i = Some r" "e \<in> ref_entries r"
      unfolding edges_inv_def by blast
    with assms(3) show ?thesis by blast
  qed
  then show ?thesis using assms(1,2) by (simp add: edges_inv_def edge_keys_def)
qed

lemma edges_inv_put:
  assumes "row_of st i = Some r" "edges_inv st" "p_provenance (r_particle r') = p_provenance (r_particle r)"
  shows "edges_inv (put_row i r' st)"
proof (rule edges_inv_rows [OF assms(2)])
  show "\<exists>y. row_of (put_row i r' st) j = Some y \<and> ref_entries x \<subseteq> ref_entries y" if "row_of st j = Some x" for j x
    using that assms(1,3) by (cases "j = i") (simp_all add: ref_entries_def)
qed simp

lemma edges_inv_events: "edges_inv st \<Longrightarrow> edges_inv (st\<lparr>st_events := evs\<rparr>)"
  by (simp add: edges_inv_def edge_keys_def)

lemma list_ex_edge: "list_ex (\<lambda>(i, e, _). i = pid \<and> e = x) (st_edges st) \<longleftrightarrow> (pid, x) \<in> set (edge_keys st)"
  by (force simp: list_ex_iff edge_keys_def)

lemma append_edges_inv:
  assumes "edges_inv st"
  shows "edges_inv (snd (append_provenance_ref pid ref st))"
proof (cases "row_of st pid")
  case None
  then show ?thesis using assms by (simp add: append_provenance_ref_def)
next
  case (Some row)
  let ?p = "r_particle row"
  let ?st = "put_row pid (row\<lparr>r_particle := ?p\<lparr>p_provenance := p_provenance ?p @ [ref]\<rparr>\<rparr>) st"
  have base: "edges_inv ?st"
    using assms Some by (auto intro!: edges_inv_rows [of st] simp: put_row_def [of _ _ st] ref_entries_def row_of_def)
  have "edges_inv (?st\<lparr>st_edges := st_edges st @ [(pid, ref_entry ref, ref_snapshot ref, ref_chunk ref)]\<rparr>)"
    if "(pid, ref_entry ref) \<notin> set (edge_keys st)"
    using base that by (auto simp: edges_inv_def edge_keys_def put_row_def [of _ _ st] row_of_def ref_entries_def)
  with base Some assms show ?thesis
    unfolding append_provenance_ref_def Let_def list_ex_edge by simp
qed

lemma strip_edges_inv:
  assumes "strip_entry_provenance_refs pid entry st = Inr (n, st')" "edges_inv st"
  shows "edges_inv st'"
proof -
  obtain row where row: "row_of st pid = Some row"
    using assms(1) by (auto simp: strip_entry_provenance_refs_def split: option.splits)
  let ?keep = "\<lambda>(i, e, _). \<not> (i = pid \<and> e = entry)"
  let ?p = "r_particle row"
  let ?kept = "filter (\<lambda>r. \<not> (ref_kind r = SOURCE \<and> ref_entry r = entry)) (p_provenance ?p)"
  have edges: "st_edges st' = filter ?keep (st_edges st)"
    and rows: "row_of st' = (row_of st)(pid \<mapsto> row\<lparr>r_particle := ?p\<lparr>p_provenance := ?kept\<rparr>\<rparr>)
        \<or> row_of st' = row_of st"
    using assms(1) row
    by (auto simp: strip_entry_provenance_refs_def Let_def put_row_def row_of_def split: if_splits)
  have keys: "edge_keys st' = filter (\<lambda>(i, e). \<not> (i = pid \<and> e = entry)) (edge_keys st)"
    unfolding edge_keys_def edges filter_map by (rule arg_cong [where f = "map _"], rule filter_cong) auto
  show ?thesis
    using assms(2) rows row unfolding edges_inv_def keys
    by (fastforce simp: ref_entries_def)
qed

lemma run_command_edges_inv:
  assumes "run_command rules c st = Inr st'" "edges_inv st"
  shows "edges_inv st'"
proof (cases c)
  case (Insert p emb hint)
  then show ?thesis using assms insert_edges_inv by auto
next
  case (SetStatus now pid s reason unc)
  then have "update_particle_status rules now pid s reason unc st = Inr st'" using assms by simp
  then show ?thesis
    by (rule update_row) (use assms(2) in \<open>auto intro!: edges_inv_rows [of st]\<close>)
next
  case (AppendRef pid ref)
  then show ?thesis using assms append_edges_inv by auto
next
  case (StripRefs pid e)
  then show ?thesis using assms strip_edges_inv by (auto simp: map_sum_def split: sum.splits)
next
  case (StampExemption e)
  have rows: "\<exists>r'. row_of st' i = Some r' \<and> ref_entries r \<subseteq> ref_entries r'" if "row_of st i = Some r" for i r
    using stamp_cases(2) [OF assms(1) [unfolded StampExemption] that] by (auto simp: ref_entries_def)
  have edges: "st_edges st' = st_edges st"
    using assms(1) StampExemption by (auto simp: stamp_scope_exemption_for_entry_def)
  show ?thesis by (rule edges_inv_rows [OF assms(2) edges rows])
qed (use assms in \<open>auto simp: annotation_defs intro!: edges_inv_put edges_inv_events
    split: option.splits if_splits\<close>)

lemma store_reach_inv: "store_reach rules st \<Longrightarrow> rows_inv st \<and> edges_inv st"
proof (induction rule: store_reach.induct)
  case fresh
  then show ?case by (simp add: rows_inv_def edges_inv_def edge_keys_def row_of_def empty_store_def)
next
  case (wrote st c st')
  then show ?case using run_command_rows_inv run_command_edges_inv by blast
qed

lemma run_command_distinct:
  assumes "run_command rules c st = Inr st'"
  shows "distinct (map fst (st_rows st')) = distinct (map fst (st_rows st))"
proof (cases c)
  case (Insert p emb hint)
  with assms show ?thesis
    by (auto simp: insert_particle_def Let_def link_particle_to_subjects_def link_particle_to_tags_def
        split: if_splits option.splits list.splits)
next
  case (SetStatus now pid s reason unc)
  with assms show ?thesis
    by (auto simp: update_particle_status_eq put_row_def remove_particle_from_relations_def
        split: if_splits option.splits)
next
  case (StampExemption e)
  with assms show ?thesis
    by (auto simp: stamp_scope_exemption_for_entry_def comp_def case_prod_beta)
qed (use assms in \<open>auto simp: annotation_defs put_row_def split: option.splits if_splits sum.splits\<close>)

lemma store_reach_distinct: "store_reach rules st \<Longrightarrow> distinct (map fst (st_rows st))"
proof (induction rule: store_reach.induct)
  case fresh
  then show ?case by (simp add: empty_store_def)
next
  case (wrote st c st')
  then show ?case using run_command_distinct [OF wrote.hyps(2)] by simp
qed

lemma reach_run_all: "store_reach rules st \<Longrightarrow> run_all (run_command rules) cs st = Inr st' \<Longrightarrow> store_reach rules st'"
  by (induction cs arbitrary: st) (auto split: sum.splits intro: store_reach.wrote)

lemma run_all_rows_inv: "run_all (run_command rules) cs st = Inr st' \<Longrightarrow> rows_inv st \<Longrightarrow> rows_inv st'"
  by (induction cs arbitrary: st) (auto split: sum.splits intro: run_command_rows_inv)

text \<open>Every row of a later store is an earlier row kept, or a freshly inserted one.\<close>

lemma run_command_row_origin:
  assumes "run_command rules c st = Inr st'" "row_of st' i = Some r'"
  shows "(\<exists>r. row_of st i = Some r) \<or> r_content_hash r' = Some (content_digest rules (p_content (r_particle r')))"
proof (cases c)
  case (Insert p emb hint)
  then show ?thesis
    using assms insert_row [of rules p emb hint st st'] by (auto simp: from_model_def Let_def split: if_splits)
next
  case (SetStatus now pid s reason unc)
  then have "update_particle_status rules now pid s reason unc st = Inr st'" using assms by simp
  then show ?thesis by (rule update_row) (use assms(2) in \<open>auto split: if_splits\<close>)
next
  case (StampExemption e)
  then show ?thesis using assms stamp_cases(1) [of rules e st st' i] by fastforce
qed (use assms in \<open>auto simp: annotation_defs split: option.splits if_splits sum.splits\<close>)

lemma run_command_hashed:
  assumes "run_command rules c st = Inr st'" "rows_hashed rules st"
  shows "rows_hashed rules st'"
  unfolding rows_hashed_def
proof (intro allI impI)
  fix i r' assume r': "row_of st' i = Some r'"
  show "r_content_hash r' = Some (content_digest rules (p_content (r_particle r')))"
  proof (cases "row_of st i")
    case None
    then show ?thesis using run_command_row_origin [OF assms(1) r'] by simp
  next
    case (Some r)
    then show ?thesis
      using run_command_keeps [OF assms(1) Some] r' assms(2) by (auto simp: row_keeps_def rows_hashed_def Let_def)
  qed
qed

lemma store_reach_hashed: "store_reach rules st \<Longrightarrow> rows_hashed rules st"
proof (induction rule: store_reach.induct)
  case fresh
  then show ?case by (simp add: rows_hashed_def row_of_def empty_store_def)
next
  case (wrote st c st')
  then show ?case using run_command_hashed by blast
qed

section \<open>Leaving and returning to belief\<close>

text \<open>The documented part of the transition table: only a superseded particle may become active again.\<close>

definition returns_from_superseded_only :: "status_rules \<Rightarrow> bool" where
  "returns_from_superseded_only rules = (\<forall>s. allowed rules (Some s) ACTIVE \<longrightarrow> s \<in> {ACTIVE, SUPERSEDED})"

lemma run_command_other_row:
  assumes "run_command rules c st = Inr st'" "row_of st i = Some r" "row_of st' i = Some r'"
    and "\<And>now s reason unc. c \<noteq> SetStatus now i s reason unc"
  shows "p_status (r_particle r') = p_status (r_particle r) \<and> r_retired_at r' = r_retired_at r"
proof (cases c)
  case (Insert p emb hint)
  then show ?thesis using assms insert_row [of rules p emb hint st st'] by (auto split: if_splits)
next
  case (StampExemption e)
  then show ?thesis using assms(1,3) stamp_cases(2) [OF _ assms(2), of rules e st'] by auto
next
  case (SetStatus now pid s reason unc)
  then have "update_particle_status rules now pid s reason unc st = Inr st'" using assms by simp
  moreover have "pid \<noteq> i" using SetStatus assms(4) by blast
  ultimately show ?thesis
    by - (erule update_row, use assms(2,3) in auto)
qed (use assms(1-3) in \<open>auto simp: annotation_defs split: option.splits if_splits sum.splits\<close>)

text \<open>A row that is stamped stays so.\<close>

lemma run_command_stamped:
  assumes "run_command rules c st = Inr st'" "row_of st i = Some r" "stamped r"
  shows "\<exists>r'. row_of st' i = Some r' \<and> stamped r'"
proof -
  obtain r' where r': "row_of st' i = Some r'" using run_command_keeps [OF assms(1,2)] by blast
  show ?thesis
  proof (cases "\<exists>now s reason unc. c = SetStatus now i s reason unc")
    case True
    then obtain now s reason unc where "update_particle_status rules now i s reason unc st = Inr st'"
      using assms(1) by auto
    then show ?thesis
      by (rule update_row) (use assms(2,3) r' in \<open>auto simp: stamped_def retire_stamp_def Let_def split: if_splits\<close>)
  next
    case False
    then show ?thesis using run_command_other_row [OF assms(1,2) r'] assms(3) r' by (auto simp: stamped_def)
  qed
qed

interpretation stamp_history: row_history "run_command rules" row_of "\<lambda>r r'. stamped r \<longrightarrow> stamped r'" for rules
  by unfold_locales (use run_command_keeps run_command_stamped in \<open>blast+\<close>)

lemma departed_row_stamped:
  assumes "run_all (run_command rules) cs st = Inr st'"
    and "row_of st i = Some r \<and> p_status (r_particle r) = ACTIVE \<and> row_of st' i = Some r' \<and> p_status (r_particle r') \<noteq> ACTIVE"
  shows "r_retired_at r' \<noteq> None"
  using stamp_history.session_keeps [OF assms(1), of i r] assms(2) by (auto simp: stamped_def)

lemma status_change:
  assumes "returns_from_superseded_only rules" "run_command rules c st = Inr st'"
    and "row_of st i = Some r" "p_status (r_particle r) \<noteq> ACTIVE" "row_of st' i = Some r'"
  shows "if p_status (r_particle r') = ACTIVE
         then p_status (r_particle r) = SUPERSEDED \<and> p_reason (r_particle r) = Some (reversible_reason rules)
              \<and> r_retired_at r' = None
         else r_retired_at r' = r_retired_at r"
proof (cases "\<exists>now s reason unc. c = SetStatus now i s reason unc")
  case True
  then obtain now s reason unc where "update_particle_status rules now i s reason unc st = Inr st'"
    using assms(2) by auto
  then show ?thesis
    by (rule update_row)
      (use assms in \<open>auto simp: returns_from_superseded_only_def retire_stamp_def Let_def\<close>)
next
  case False
  then show ?thesis using run_command_other_row [OF assms(2,3,5)] assms(4) by auto
qed

section \<open>A small store\<close>

definition demo_rules :: status_rules where
  "demo_rules =
     \<lparr>allowed = (\<lambda>from s. case from of
          None \<Rightarrow> s \<in> {ACTIVE, INCONSISTENCY, PROVENANCE_STALE}
        | Some ACTIVE \<Rightarrow> s \<noteq> ACTIVE
        | Some SUPERSEDED \<Rightarrow> s = ACTIVE
        | Some RETRACTED \<Rightarrow> False
        | Some _ \<Rightarrow> s \<in> {SUPERSEDED, RETRACTED}),
      reversible_reason = DUPLICATE_MERGED, stance_kind = (\<lambda>k. k = ''ENDORSES''), embedding_model = ''m'',
      content_digest = (\<lambda>s. ''h'' @ s), exemption = (\<lambda>d. None), operator_classifier = ''operator'',
      validity_names = \<lparr>vk_all = [''b'', ''c''], vk_basis = ''b'', vk_cue = ''c'', vk_confidence = ''f'',
        vk_granularity = ''g'', vk_rule = ''r''\<rparr>\<rparr>"

definition demo_ref :: "string \<Rightarrow> string \<Rightarrow> provenance_ref" where
  "demo_ref e s = \<lparr>ref_kind = SOURCE, ref_entry = e, ref_snapshot = Some s, ref_location = None, ref_chunk = None\<rparr>"

definition demo_particle :: "string \<Rightarrow> string \<Rightarrow> particle" where
  "demo_particle i c =
     \<lparr>p_id = i, p_content = c, p_status = ACTIVE, p_reason = None, p_supersedes = None, p_nature = EPISTEMIC,
      p_confidence = 1, p_calibration = EXTRACTOR_DIRECT, p_asserted_by = ''x'', p_asserted_at = Aware 0,
      p_provenance = [demo_ref ''e'' ''s''], p_subject_ids = [''u''], p_claim = None, p_properties = None,
      p_tags = None, p_valid_from = None, p_valid_until = None, p_valid_kind = None, p_modality = ''asserted''\<rparr>"

definition demo_store :: store where
  "demo_store = projr (insert_particle demo_rules (demo_particle ''a'' ''old'') None None empty_store)"

lemma demo_rules_laws: "returns_from_superseded_only demo_rules"
  by (auto simp: returns_from_superseded_only_def demo_rules_def split: status.splits)

lemma demo_reach: "store_reach demo_rules demo_store"
proof (rule store_reach.wrote [OF store_reach.fresh])
  show "run_command demo_rules (Insert (demo_particle ''a'' ''old'') None None) empty_store = Inr demo_store"
    by (simp add: demo_store_def demo_rules_def demo_particle_def insert_particle_def empty_store_def Let_def)
qed

lemmas demo_store_simps = demo_store_def demo_rules_def demo_particle_def demo_ref_def insert_particle_def
  empty_store_def from_model_def link_particle_to_subjects_def row_of_def

section \<open>The properties\<close>

text \<open>
  C3. In every store a sequence of the writes of \<^verbatim>\<open>particle_store.py\<close> can reach, rows restored in any status
  included: a particle that is ACTIVE has no retirement instant; an embedding is stored exactly when its model id
  is; each row is filed under its own id and its hash column is the hash of its content; and the
  provenance index has one edge per particle and entry, each backed by a ref the particle still has. And from
  any such store on, a row that was ACTIVE at one point and is not at a later one carries a retirement instant.
\<close>

theorem store_invariant:
  assumes "store_reach rules st" "run_all (run_command rules) cs st = Inr st'"
  shows "rows_inv st' \<and> edges_inv st' \<and> rows_hashed rules st' \<and>
    (\<forall>i r r'. row_of st i = Some r \<and> p_status (r_particle r) = ACTIVE \<and> row_of st' i = Some r'
        \<and> p_status (r_particle r') \<noteq> ACTIVE \<longrightarrow> r_retired_at r' \<noteq> None)"
  using store_reach_inv [OF reach_run_all [OF assms]] store_reach_hashed [OF reach_run_all [OF assms]]
    departed_row_stamped [OF assms(2)] by blast

text \<open>A restored row keeps no instant; the row that was believed gets one.\<close>

definition demo_restored :: "store_command list" where
  "demo_restored = [Insert ((demo_particle ''b'' ''gone'')\<lparr>p_status := RETRACTED\<rparr>) None None,
     SetStatus 7 ''a'' PROVENANCE_STALE (Some SUPERSEDED_BY_UPDATE) None]"

theorem store_invariant_witness:
  "(let st' = projr (run_all (run_command demo_rules) demo_restored demo_store) in
     rows_inv st' \<and> edges_inv st' \<and> rows_hashed demo_rules st' \<and>
     map_option r_retired_at (row_of st' ''a'') = Some (Some 7) \<and>
     map_option r_retired_at (row_of st' ''b'') = Some None)"
proof -
  let ?st = "projr (run_all (run_command demo_rules) demo_restored demo_store)"
  have run: "run_all (run_command demo_rules) demo_restored demo_store = Inr ?st"
    and rows: "map_option r_retired_at (row_of ?st ''a'') = Some (Some 7)"
      "map_option r_retired_at (row_of ?st ''b'') = Some None"
    by (simp_all add: demo_restored_def demo_store_simps update_particle_status_def put_row_def retire_stamp_def Let_def)
  show ?thesis using store_invariant [OF demo_reach run] rows by (simp add: Let_def)
qed

text \<open>
  C4. Over a whole session of the writes of \<^verbatim>\<open>particle_store.py\<close> no row disappears, and no row's content, asserter,
  assertion time, calibration, subjects, confidence, tags, end of validity, content hash, birth mark or domain hint is
  rewritten; a \<^verbatim>\<open>supersedes\<close> pointer once written is never changed. (The annotation of a row may be replaced;
  merging subjects and deleting corpus entries are writes of other modules.)
\<close>

theorem beliefs_are_not_rewritten:
  assumes "run_all (run_command rules) cs st = Inr st'" "row_of st i = Some r"
  shows "\<exists>r'. row_of st' i = Some r' \<and> row_keeps r r'"
  using store_history.session_keeps [OF assms] .

theorem beliefs_are_not_rewritten_witness:
  "\<exists>r'. row_of (projr (run_all (run_command demo_rules)
       [SetStatus 7 ''a'' PROVENANCE_STALE (Some SUPERSEDED_BY_UPDATE) None, SetSupersedes ''a'' ''z''] demo_store)) ''a'' = Some r'
     \<and> p_content (r_particle r') = ''old''"
proof -
  let ?cs = "[SetStatus 7 ''a'' PROVENANCE_STALE (Some SUPERSEDED_BY_UPDATE) None, SetSupersedes ''a'' ''z'']"
  have "\<exists>st'. run_all (run_command demo_rules) ?cs demo_store = Inr st'"
    by (simp add: demo_store_simps update_particle_status_def Let_def)
  then obtain st' where "run_all (run_command demo_rules) ?cs demo_store = Inr st'" by blast
  moreover have "\<exists>r. row_of demo_store ''a'' = Some r \<and> p_content (r_particle r) = ''old''"
    by (simp add: demo_store_simps)
  ultimately show ?thesis
    using beliefs_are_not_rewritten [of demo_rules ?cs demo_store st' "''a''"]
    by (auto simp: row_keeps_def Let_def)
qed

text \<open>
  C5. Whatever write is made, a particle that is not ACTIVE becomes ACTIVE only from SUPERSEDED and
  only when its recorded reason is the reversible one, which withdraws its retirement instant; in
  every other case the instant it first left ACTIVE is kept.
\<close>

theorem retirement_is_final:
  assumes "returns_from_superseded_only rules" "run_command rules c st = Inr st'"
    and "row_of st i = Some r" "p_status (r_particle r) \<noteq> ACTIVE" "row_of st' i = Some r'"
  shows "if p_status (r_particle r') = ACTIVE
         then p_status (r_particle r) = SUPERSEDED \<and> p_reason (r_particle r) = Some (reversible_reason rules)
              \<and> r_retired_at r' = None
         else r_retired_at r' = r_retired_at r"
  by (rule status_change [OF assms])

definition demo_retired :: store where
  "demo_retired = projr (update_particle_status demo_rules 7 ''a'' SUPERSEDED (Some EXPLICIT_SUPERSESSION) None demo_store)"

theorem retirement_is_final_witness:
  "map_option r_retired_at (row_of (snd (set_particle_property ''a'' ''k'' JNull demo_retired)) ''a'') = Some (Some 7)"
  using retirement_is_final [OF demo_rules_laws, of "SetProperty ''a'' ''k'' JNull" demo_retired _ "''a''"]
  by (simp add: demo_retired_def demo_store_simps update_particle_status_def put_row_def set_particle_property_def
      retire_stamp_def Let_def)

end
