(* ===== verification/Candidate_Cache.thy ===== *)
theory Candidate_Cache
  imports Particle_Store
begin

text \<open>
  The candidate cache and the change journal it rests on: \<^verbatim>\<open>src/particles/store/candidate_cache.py\<close> and
  \<^verbatim>\<open>src/particles/store/change_journal.py\<close>. The journal is kept by triggers inside the database, so every
  process's writes are in it; the cache holds one process's decoded ACTIVE rows and re-reads what the
  journal names.

  A database is the \<^verbatim>\<open>particles\<close> table with its \<^verbatim>\<open>rowid\<close>s, the subject links and the journal. The \<open>n\<close>-th
  \<^verbatim>\<open>randomblob(8)\<close> the database ever draws is \<open>draw n\<close>; a rolled-back transaction takes its rows and entries
  back, not its draws. The garbage-collector tuning of \<^verbatim>\<open>_exempt_from_collection\<close> changes no value and is
  left out, as are log lines.
\<close>

section \<open>The journal\<close>

type_synonym token = "64 word"

record change =
  ch_seq :: nat
  ch_id :: string
  ch_token :: token

record database =
  t_rows :: "(string, nat \<times> particle_row) dict"
  t_links :: "(string \<times> string) list"
  t_journal :: "change list"

definition JOURNAL_RETENTION :: nat where
  "JOURNAL_RETENTION = 100000"

text \<open>An \<^verbatim>\<open>INTEGER PRIMARY KEY\<close> without \<^verbatim>\<open>AUTOINCREMENT\<close>: one more than the largest in the table.\<close>

definition next_seq :: "change list \<Rightarrow> nat" where
  "next_seq j = (if j = [] then 1 else Suc (ch_seq (last j)))"

text \<open>One journal insertion and the prune trigger that follows it.\<close>

definition journal_entry :: "string \<Rightarrow> token \<Rightarrow> change list \<Rightarrow> change list" where
  "journal_entry pid t j =
     (let n = next_seq j
      in filter (\<lambda>c. \<not> ch_seq c + JOURNAL_RETENTION \<le> n) (j @ [\<lparr>ch_seq = n, ch_id = pid, ch_token = t\<rparr>]))"

definition install_journal :: "token \<Rightarrow> database \<Rightarrow> database" where
  "install_journal t db = (if t_journal db = [] then db\<lparr>t_journal := journal_entry [] t []\<rparr> else db)"

definition read_head :: "database \<Rightarrow> (nat \<times> token) option" where
  "read_head db = (if t_journal db = [] then None else Some (ch_seq (last (t_journal db)), ch_token (last (t_journal db))))"

definition token_at :: "database \<Rightarrow> nat \<Rightarrow> token option" where
  "token_at db s = map_option ch_token (List.find (\<lambda>c. ch_seq c = s) (t_journal db))"

definition changed_ids :: "database \<Rightarrow> nat \<Rightarrow> string list" where
  "changed_ids db s = remdups (map ch_id (filter (\<lambda>c. ch_seq c > s \<and> ch_id c \<noteq> []) (t_journal db)))"

definition changed_since :: "database \<Rightarrow> nat \<Rightarrow> nat \<Rightarrow> string list option" where
  "changed_since db s limit = (let ids = take (Suc limit) (changed_ids db s) in if length ids > limit then None else Some ids)"

section \<open>Writes to the table\<close>

text \<open>
  Whatever any process does to a row, as SQL: an insertion, an update (of the id too), a deletion. A
  statement that violates the primary key or matches no row changes nothing and fires no trigger. Links
  and a deletion of the journal itself are writes the triggers do not see.
\<close>

datatype row_write =
    InsertRow particle_row
  | UpdateRow string particle_row
  | DeleteRow string
  | SetLinks "(string \<times> string) list"
  | EmptyJournal

definition next_rowid :: "database \<Rightarrow> nat" where
  "next_rowid db = Suc (foldr max (map (fst \<circ> snd) (t_rows db)) 0)"

fun table_write :: "(nat \<Rightarrow> token) \<Rightarrow> row_write \<Rightarrow> nat \<times> database \<Rightarrow> nat \<times> database" where
  "table_write draw (InsertRow r) (n, db) =
     (if map_of (t_rows db) (p_id (r_particle r)) \<noteq> None then (n, db)
      else (Suc n, db\<lparr>t_rows := AList.update (p_id (r_particle r)) (next_rowid db, r) (t_rows db),
                      t_journal := journal_entry (p_id (r_particle r)) (draw n) (t_journal db)\<rparr>))"
| "table_write draw (UpdateRow pid r) (n, db) =
     (case map_of (t_rows db) pid of
        None \<Rightarrow> (n, db)
      | Some (k, _) \<Rightarrow>
          if p_id (r_particle r) = pid
          then (Suc n, db\<lparr>t_rows := AList.update pid (k, r) (t_rows db),
                          t_journal := journal_entry pid (draw n) (t_journal db)\<rparr>)
          else if map_of (t_rows db) (p_id (r_particle r)) \<noteq> None then (n, db)
          else (Suc (Suc n),
                db\<lparr>t_rows := AList.update (p_id (r_particle r)) (k, r) (AList.delete pid (t_rows db)),
                   t_journal := journal_entry (p_id (r_particle r)) (draw (Suc n))
                     (journal_entry pid (draw n) (t_journal db))\<rparr>))"
| "table_write draw (DeleteRow pid) (n, db) =
     (if map_of (t_rows db) pid = None then (n, db)
      else (Suc n, db\<lparr>t_rows := AList.delete pid (t_rows db),
                      t_journal := journal_entry pid (draw n) (t_journal db)\<rparr>))"
| "table_write draw (SetLinks ls) (n, db) = (n, db\<lparr>t_links := ls\<rparr>)"
| "table_write draw EmptyJournal (n, db) = (n, db\<lparr>t_journal := []\<rparr>)"

section \<open>The cache\<close>

record cache_entry =
  ce_particle :: particle
  ce_embedding :: "rat list"
  ce_confidence :: rat
  ce_model :: string
  ce_order :: "rat \<times> nat"

record cache_state =
  cs_head :: "nat \<times> token"
  cs_by_id :: "(string, cache_entry) dict"
  cs_ordered :: "cache_entry list"
  cs_rebuilt :: bool

definition DELTA_CHUNK :: nat where
  "DELTA_CHUNK = 500"

definition DELTA_FLOOR :: nat where
  "DELTA_FLOOR = 1000"

definition entry_of :: "nat \<times> particle_row \<Rightarrow> cache_entry" where
  "entry_of nr =
     (let r = snd nr in
      \<lparr>ce_particle = r_particle r, ce_embedding = (case r_embedding r of None \<Rightarrow> [] | Some e \<Rightarrow> e),
       ce_confidence = p_confidence (r_particle r), ce_model = stored_model r, ce_order = row_order nr\<rparr>)"

definition cacheable :: "particle_row \<Rightarrow> bool" where
  "cacheable r = (p_status (r_particle r) = ACTIVE \<and> r_embedding r \<noteq> None)"

definition build_cache :: "nat \<times> token \<Rightarrow> database \<Rightarrow> cache_state" where
  "build_cache h db =
     (let rows = sort_key row_order (filter (\<lambda>nr. cacheable (snd nr)) (map snd (t_rows db)));
          ordered = map entry_of rows
      in \<lparr>cs_head = h, cs_by_id = fold (\<lambda>e. AList.update (p_id (ce_particle e)) e) ordered [],
          cs_ordered = ordered, cs_rebuilt = True\<rparr>)"

definition apply_chunk :: "database \<Rightarrow> string list \<Rightarrow> (string, cache_entry) dict \<Rightarrow> (string, cache_entry) dict" where
  "apply_chunk db chunk by_id =
     (let found = filter (\<lambda>(i, _). i \<in> set chunk) (t_rows db)
      in fold (\<lambda>pid d. case map_of found pid of
                 Some hit \<Rightarrow> if cacheable (snd hit) then AList.update pid (entry_of hit) d else AList.delete pid d
               | None \<Rightarrow> AList.delete pid d) chunk by_id)"

definition apply_changes :: "database \<Rightarrow> cache_state \<Rightarrow> nat \<times> token \<Rightarrow> string list \<Rightarrow> cache_state" where
  "apply_changes db st h changed =
     (let by_id = fold (apply_chunk db) (chunks DELTA_CHUNK (sort changed)) (cs_by_id st)
      in \<lparr>cs_head = h, cs_by_id = by_id, cs_ordered = sort_key ce_order (map snd by_id), cs_rebuilt = False\<rparr>)"

text \<open>
  \<open>db0\<close> is the database when the journal is read and \<open>db1\<close> when the rows are: another process may commit
  in between. Within one read transaction they are the same.
\<close>

definition current_state :: "database \<Rightarrow> database \<Rightarrow> cache_state option \<Rightarrow> bool \<Rightarrow> cache_state option" where
  "current_state db0 db1 state may_rebuild =
     (case read_head db0 of
        None \<Rightarrow> None
      | Some h \<Rightarrow>
          let rebuild = (if may_rebuild then Some (build_cache h db1) else None) in
          (case state of
             None \<Rightarrow> rebuild
           | Some st \<Rightarrow>
               if cs_head st = h then Some st
               else if token_at db0 (fst (cs_head st)) = Some (snd (cs_head st))
               then (case changed_since db0 (fst (cs_head st)) (max DELTA_FLOOR (length (cs_by_id st) div 4)) of
                       Some changed \<Rightarrow> Some (apply_changes db1 st h changed)
                     | None \<Rightarrow> rebuild)
               else rebuild))"

definition cached_rows :: "cache_state option \<Rightarrow> nat option" where
  "cached_rows state = map_option (\<lambda>st. length (cs_ordered st)) state"

definition get_particles_for_subject :: "(string \<times> string) list \<Rightarrow> string \<Rightarrow> nat option \<Rightarrow> nat \<Rightarrow> string list" where
  "get_particles_for_subject links sid limit offset =
     (let pids = drop offset (sort (map fst (filter (\<lambda>(_, s). s = sid) links)))
      in case limit of None \<Rightarrow> pids | Some k \<Rightarrow> take k pids)"

definition select_entries :: "status_rules \<Rightarrow> cache_state \<Rightarrow> rat \<Rightarrow> string list option \<Rightarrow> (particle \<times> rat list) list" where
  "select_entries rules st min_confidence allowed_ids =
     (let entries = (case allowed_ids of
            None \<Rightarrow> cs_ordered st
          | Some pids \<Rightarrow> sort_key ce_order (List.map_filter (map_of (cs_by_id st)) (remdups pids)))
      in map (\<lambda>e. (ce_particle e, ce_embedding e))
           (filter (\<lambda>e. \<not> ce_confidence e < min_confidence \<and> ce_model e = embedding_model rules) entries))"

definition load_active_candidates ::
  "status_rules \<Rightarrow> bool \<Rightarrow> database \<Rightarrow> database \<Rightarrow> cache_state option \<Rightarrow> rat \<Rightarrow> string option
     \<Rightarrow> (particle \<times> rat list) list \<times> cache_state option" where
  "load_active_candidates rules usable db0 db1 previous min_confidence subject =
     (let direct = get_active_particles_with_embeddings rules (map snd (t_rows db1)) (t_links db1) min_confidence subject in
      if \<not> usable then (direct, previous)
      else
        (case current_state db0 db1 previous (subject = None) of
           None \<Rightarrow> (direct, previous)
         | Some st \<Rightarrow>
             (select_entries rules st min_confidence
                (map_option (\<lambda>s. get_particles_for_subject (t_links db1) s None 0) subject), Some st)))"

section \<open>Processes, transactions and reads\<close>

text \<open>
  One process's cache beside a database that any process writes. SQLite admits one write transaction at
  a time: \<open>sy_work\<close> is its uncommitted state. A statement outside a transaction commits at once.
  \<open>ReadOwn\<close> reads inside the open transaction (the reader's own), \<open>ReadCommitted\<close> outside it, and
  \<open>ReadAcross\<close> reads the journal, after which another process commits writes, and then the rows.
\<close>

record cache_sys =
  sy_committed :: database
  sy_work :: "database option"
  sy_cache :: "cache_state option"
  sy_drawn :: nat

datatype cache_event =
    BeginWrite
  | Write row_write
  | CommitWrite
  | RollbackWrite
  | ReadOwn rat "string option"
  | ReadCommitted rat "string option"
  | ReadAcross "row_write list" rat "string option"
  | ClearCache

fun cache_step :: "(nat \<Rightarrow> token) \<Rightarrow> status_rules \<Rightarrow> bool \<Rightarrow> cache_event \<Rightarrow> cache_sys \<Rightarrow> cache_sys" where
  "cache_step draw rules usable BeginWrite s =
     (case sy_work s of None \<Rightarrow> s\<lparr>sy_work := Some (sy_committed s)\<rparr> | Some _ \<Rightarrow> s)"
| "cache_step draw rules usable (Write w) s =
     (case sy_work s of
        None \<Rightarrow> let (n, db) = table_write draw w (sy_drawn s, sy_committed s) in s\<lparr>sy_committed := db, sy_drawn := n\<rparr>
      | Some db0 \<Rightarrow> let (n, db) = table_write draw w (sy_drawn s, db0) in s\<lparr>sy_work := Some db, sy_drawn := n\<rparr>)"
| "cache_step draw rules usable CommitWrite s =
     (case sy_work s of None \<Rightarrow> s | Some db \<Rightarrow> s\<lparr>sy_committed := db, sy_work := None\<rparr>)"
| "cache_step draw rules usable RollbackWrite s = s\<lparr>sy_work := None\<rparr>"
| "cache_step draw rules usable (ReadOwn c subj) s =
     (let db = (case sy_work s of None \<Rightarrow> sy_committed s | Some db \<Rightarrow> db)
      in s\<lparr>sy_cache := snd (load_active_candidates rules usable db db (sy_cache s) c subj)\<rparr>)"
| "cache_step draw rules usable (ReadCommitted c subj) s =
     (let db = sy_committed s in s\<lparr>sy_cache := snd (load_active_candidates rules usable db db (sy_cache s) c subj)\<rparr>)"
| "cache_step draw rules usable (ReadAcross ws c subj) s =
     (case sy_work s of
        Some _ \<Rightarrow> s
      | None \<Rightarrow>
          let (n, db) = fold (table_write draw) ws (sy_drawn s, sy_committed s)
          in s\<lparr>sy_committed := db, sy_drawn := n,
               sy_cache := snd (load_active_candidates rules usable (sy_committed s) db (sy_cache s) c subj)\<rparr>)"
| "cache_step draw rules usable ClearCache s = s\<lparr>sy_cache := None\<rparr>"

text \<open>A store whose journal has just been installed, and a process that has read nothing yet.\<close>

definition cache_start :: "(nat \<Rightarrow> token) \<Rightarrow> database \<Rightarrow> cache_sys" where
  "cache_start draw db =
     \<lparr>sy_committed = install_journal (draw 0) (db\<lparr>t_journal := []\<rparr>), sy_work = None, sy_cache = None, sy_drawn = 1\<rparr>"

definition cache_run :: "(nat \<Rightarrow> token) \<Rightarrow> status_rules \<Rightarrow> bool \<Rightarrow> cache_event list \<Rightarrow> database \<Rightarrow> cache_sys" where
  "cache_run draw rules usable evs db = fold (cache_step draw rules usable) evs (cache_start draw db)"

section \<open>What a remembered marker is worth\<close>

text \<open>
  The contract between the journal and a reader that remembers a marker \<open>h\<close> and a picture \<open>f\<close> of the
  contents: as long as the entry \<open>h\<close> names is still there with its token, the picture is right about
  every key not changed since.
\<close>

definition coherent ::
  "('d \<Rightarrow> nat \<Rightarrow> 't option) \<Rightarrow> ('d \<Rightarrow> nat \<Rightarrow> 'k set) \<Rightarrow> ('d \<Rightarrow> 'k \<Rightarrow> 'e) \<Rightarrow> nat \<times> 't \<Rightarrow> ('k \<Rightarrow> 'e) \<Rightarrow> 'd \<Rightarrow> bool" where
  "coherent tok chg content h f d =
     (tok d (fst h) = Some (snd h) \<longrightarrow> (\<forall>k. k \<notin> chg d (fst h) \<longrightarrow> f k = content d k))"

locale change_log =
  fixes ok :: "'d \<Rightarrow> bool" and head :: "'d \<Rightarrow> (nat \<times> 't) option" and tok :: "'d \<Rightarrow> nat \<Rightarrow> 't option"
    and chg :: "'d \<Rightarrow> nat \<Rightarrow> 'k set" and content :: "'d \<Rightarrow> 'k \<Rightarrow> 'e"
  assumes head_token: "ok d \<Longrightarrow> head d = Some h \<Longrightarrow> tok d (fst h) = Some (snd h)"
    and head_newest: "ok d \<Longrightarrow> head d = Some h \<Longrightarrow> chg d (fst h) = {}"
begin

lemma exact_at_head: "ok d \<Longrightarrow> head d = Some h \<Longrightarrow> coherent tok chg content h f d \<Longrightarrow> f = content d"
  using head_token head_newest by (auto simp: coherent_def fun_eq_iff)

lemma own_content: "coherent tok chg content h (content d) d"
  by (simp add: coherent_def)

text \<open>Catching up: what was read at \<open>d0\<close>, with the keys changed since \<open>h0\<close> re-read at \<open>d1\<close>.\<close>

lemma catch_up:
  assumes "ok d0" "head d0 = Some h" "coherent tok chg content h0 f d0" "tok d0 (fst h0) = Some (snd h0)"
    and "coherent tok chg content h (content d0) d1"
  shows "coherent tok chg content h (\<lambda>k. if k \<in> chg d0 (fst h0) then content d1 k else f k) d1"
  using assms by (auto simp: coherent_def)

lemma catch_up_exact:
  assumes "coherent tok chg content h0 f d" "tok d (fst h0) = Some (snd h0)"
  shows "(\<lambda>k. if k \<in> chg d (fst h0) then content d k else f k) = content d"
  using assms by (auto simp: coherent_def)

lemma unchanged_state:
  assumes "ok d0" "head d0 = Some h" "coherent tok chg content h f d0" "coherent tok chg content h (content d0) d1"
  shows "coherent tok chg content h f d1"
  using exact_at_head [OF assms(1-3)] assms(4) by simp

end

text \<open>The contents a cache mirrors: the decoded row of each id that is cacheable.\<close>

definition entry_at :: "database \<Rightarrow> string \<Rightarrow> cache_entry option" where
  "entry_at db pid =
     (case map_of (t_rows db) pid of None \<Rightarrow> None | Some nr \<Rightarrow> if cacheable (snd nr) then Some (entry_of nr) else None)"

definition changed_set :: "database \<Rightarrow> nat \<Rightarrow> string set" where
  "changed_set db s = set (changed_ids db s)"

definition database_wf :: "database \<Rightarrow> bool" where
  "database_wf db =
     (distinct (map fst (t_rows db)) \<and> distinct (map (fst \<circ> snd) (t_rows db))
      \<and> (\<forall>(i, n, r) \<in> set (t_rows db). p_id (r_particle r) = i \<and> i \<noteq> [])
      \<and> sorted_wrt (<) (map ch_seq (t_journal db)))"

lemma find_sorted:
  assumes "sorted_wrt (<) (map ch_seq j)" "c \<in> set j"
  shows "List.find (\<lambda>x. ch_seq x = ch_seq c) j = Some c"
  using assms
proof (induction j)
  case (Cons a j)
  then show ?case by (cases "c = a") auto
qed simp

lemma token_at_iff:
  assumes "sorted_wrt (<) (map ch_seq (t_journal db))"
  shows "token_at db s = Some t \<longleftrightarrow> (\<exists>c \<in> set (t_journal db). ch_seq c = s \<and> ch_token c = t)"
proof
  assume "token_at db s = Some t"
  then show "\<exists>c \<in> set (t_journal db). ch_seq c = s \<and> ch_token c = t"
    by (auto simp: token_at_def find_Some_iff)
next
  assume "\<exists>c \<in> set (t_journal db). ch_seq c = s \<and> ch_token c = t"
  then show "token_at db s = Some t" using find_sorted [OF assms] by (auto simp: token_at_def)
qed

lemma last_largest: "sorted_wrt (<) (map ch_seq j) \<Longrightarrow> c \<in> set j \<Longrightarrow> ch_seq c \<le> ch_seq (last j)"
  by (induction j) (auto simp: last_in_set intro: less_imp_le)

interpretation journal: change_log database_wf read_head token_at changed_set entry_at
proof
  fix db h assume wf: "database_wf db" and head: "read_head db = Some h"
  then have j: "t_journal db \<noteq> []" "h = (ch_seq (last (t_journal db)), ch_token (last (t_journal db)))"
      "sorted_wrt (<) (map ch_seq (t_journal db))"
    by (auto simp: read_head_def database_wf_def split: if_splits)
  show "token_at db (fst h) = Some (snd h)"
    unfolding token_at_iff [OF j(3)] using j(1,2) by (auto intro: last_in_set)
  show "changed_set db (fst h) = {}"
    using j last_largest by (force simp: changed_set_def changed_ids_def filter_empty_conv)
qed

section \<open>A write keeps every reader's marker honest\<close>

definition tokens :: "database \<Rightarrow> token set" where
  "tokens db = ch_token ` set (t_journal db)"

definition rows_wf :: "(string, nat \<times> particle_row) dict \<Rightarrow> bool" where
  "rows_wf rows = (distinct (map fst rows) \<and> distinct (map (fst \<circ> snd) rows)
      \<and> (\<forall>(i, n, r) \<in> set rows. p_id (r_particle r) = i \<and> i \<noteq> []))"

abbreviation journal_sorted :: "database \<Rightarrow> bool" where
  "journal_sorted db \<equiv> sorted_wrt (<) (map ch_seq (t_journal db))"

lemma database_wf_iff: "database_wf db \<longleftrightarrow> rows_wf (t_rows db) \<and> journal_sorted db"
  by (auto simp: database_wf_def rows_wf_def)

lemma next_seq_above: "sorted_wrt (<) (map ch_seq j) \<Longrightarrow> c \<in> set j \<Longrightarrow> ch_seq c < next_seq j"
  using last_largest [of j c] by (auto simp: next_seq_def)

lemma set_journal_entry:
  "set (journal_entry pid t j) =
     {c \<in> insert \<lparr>ch_seq = next_seq j, ch_id = pid, ch_token = t\<rparr> (set j). next_seq j < ch_seq c + JOURNAL_RETENTION}"
  by (auto simp: journal_entry_def Let_def)

lemma journal_entry_sorted:
  assumes "sorted_wrt (<) (map ch_seq j)"
  shows "sorted_wrt (<) (map ch_seq (journal_entry pid t j))"
proof -
  have "sorted_wrt (<) (map ch_seq (j @ [\<lparr>ch_seq = next_seq j, ch_id = pid, ch_token = t\<rparr>]))"
    using assms next_seq_above by (auto simp: sorted_wrt_append)
  then show ?thesis
    unfolding journal_entry_def Let_def sorted_wrt_map by (rule sorted_wrt_filter)
qed

lemma journal_entry_last [simp]:
  "journal_entry pid t j \<noteq> []" "last (journal_entry pid t j) = \<lparr>ch_seq = next_seq j, ch_id = pid, ch_token = t\<rparr>"
  by (simp_all add: journal_entry_def Let_def JOURNAL_RETENTION_def)

text \<open>A change of at most one key's content, with its entry.\<close>

definition logged :: "string \<Rightarrow> token \<Rightarrow> database \<Rightarrow> database \<Rightarrow> bool" where
  "logged pid t db db' =
     (pid \<noteq> [] \<and> t_journal db' = journal_entry pid t (t_journal db) \<and> (\<forall>k. k \<noteq> pid \<longrightarrow> entry_at db' k = entry_at db k))"

abbreviation honest :: "nat \<times> token \<Rightarrow> (string \<Rightarrow> cache_entry option) \<Rightarrow> database \<Rightarrow> bool" where
  "honest \<equiv> coherent token_at changed_set entry_at"

lemma changed_set_iff: "k \<in> changed_set db s \<longleftrightarrow> k \<noteq> [] \<and> (\<exists>c \<in> set (t_journal db). ch_seq c > s \<and> ch_id c = k)"
  by (auto simp: changed_set_def changed_ids_def)

lemma logged_honest:
  assumes "journal_sorted db" "logged pid t db db'" "snd h \<noteq> t" "honest h f db"
  shows "honest h f db'"
  unfolding coherent_def
proof (intro impI allI)
  fix k assume tok: "token_at db' (fst h) = Some (snd h)" and k: "k \<notin> changed_set db' (fst h)"
  let ?new = "\<lparr>ch_seq = next_seq (t_journal db), ch_id = pid, ch_token = t\<rparr>"
  have j': "t_journal db' = journal_entry pid t (t_journal db)" "pid \<noteq> []"
    using assms(2) by (simp_all add: logged_def)
  have sorted': "journal_sorted db'" unfolding j'(1) by (rule journal_entry_sorted [OF assms(1)])
  obtain c where c: "c \<in> set (t_journal db')" "ch_seq c = fst h" "ch_token c = snd h"
    using tok token_at_iff [OF sorted'] by blast
  then have old: "c \<in> set (t_journal db)" and kept: "next_seq (t_journal db) < ch_seq c + JOURNAL_RETENTION"
    using assms(3) unfolding j'(1) set_journal_entry by auto
  have "token_at db (fst h) = Some (snd h)"
    using old c(2,3) token_at_iff [OF assms(1)] by blast
  moreover have "k \<notin> changed_set db (fst h)"
  proof
    assume "k \<in> changed_set db (fst h)"
    then obtain c2 where "c2 \<in> set (t_journal db)" "ch_seq c2 > fst h" "ch_id c2 = k" "k \<noteq> []"
      by (auto simp: changed_set_iff)
    then have "k \<in> changed_set db' (fst h)"
      using kept c(2) unfolding changed_set_iff j'(1) set_journal_entry by auto
    with k show False by blast
  qed
  moreover have "k \<noteq> pid"
  proof
    assume "k = pid"
    moreover have "?new \<in> set (t_journal db')"
      using j'(1) journal_entry_last last_in_set by metis
    ultimately show False
      using k j'(2) next_seq_above [OF assms(1) old] c(2) unfolding changed_set_iff by force
  qed
  ultimately show "f k = entry_at db' k"
    using assms(2,4) by (auto simp: coherent_def logged_def)
qed

lemma logged_tokens: "logged pid t db db' \<Longrightarrow> tokens db' \<subseteq> insert t (tokens db)"
  by (auto simp: logged_def tokens_def set_journal_entry)

lemma logged_head: "logged pid t db db' \<Longrightarrow> \<exists>h. read_head db' = Some h \<and> snd h = t"
  by (simp add: logged_def read_head_def)

lemma logged_sorted: "logged pid t db db' \<Longrightarrow> journal_sorted db \<Longrightarrow> journal_sorted db'"
  by (simp add: logged_def journal_entry_sorted)

subsection \<open>The rows\<close>

lemma map_of_delete [simp]: "map_of (AList.delete k al) = (map_of al)(k := None)"
  by (rule delete_conv')

lemma entry_at_rows: "(\<And>k. k \<noteq> pid \<Longrightarrow> map_of (t_rows db') k = map_of (t_rows db) k) \<Longrightarrow> k \<noteq> pid \<Longrightarrow> entry_at db' k = entry_at db k"
  by (simp add: entry_at_def)

lemma update_set: "set (AList.update k v al) \<subseteq> insert (k, v) (set al)"
  by (induction al) auto

lemma update_rowids:
  "map_of rows k = Some (n, r) \<Longrightarrow> map (fst \<circ> snd) (AList.update k (n, r') rows) = map (fst \<circ> snd) rows"
  by (induction rows) auto

lemma update_new_rowids:
  "map_of rows k = None \<Longrightarrow> map (fst \<circ> snd) (AList.update k (n, r') rows) = map (fst \<circ> snd) rows @ [n]"
  by (induction rows) auto

lemma rows_wf_update:
  assumes "rows_wf rows" "map_of rows k = Some (n, r0)" "p_id (r_particle r) = k"
  shows "rows_wf (AList.update k (n, r) rows)"
proof -
  have "k \<noteq> []" using assms(1,2) by (auto simp: rows_wf_def dest!: map_of_SomeD)
  then show ?thesis
    using assms update_set [of k "(n, r)" rows] update_rowids [OF assms(2)]
    by (fastforce simp: rows_wf_def)
qed

lemma rows_wf_insert:
  assumes "rows_wf rows" "map_of rows k = None" "p_id (r_particle r) = k" "k \<noteq> []" "n \<notin> set (map (fst \<circ> snd) rows)"
  shows "rows_wf (AList.update k (n, r) rows)"
  using assms update_set [of k "(n, r)" rows] unfolding rows_wf_def update_new_rowids [OF assms(2)]
  by fastforce

lemma delete_filter: "AList.delete k rows = filter (\<lambda>kv. k \<noteq> fst kv) rows"
  by (simp add: AList.delete_eq case_prod_beta')

lemma rows_wf_delete: "rows_wf rows \<Longrightarrow> rows_wf (AList.delete k rows)"
  unfolding rows_wf_def delete_filter by (auto simp: distinct_map_filter)

lemma next_rowid_fresh: "next_rowid db \<notin> set (map (fst \<circ> snd) (t_rows db))"
proof -
  have "x \<in> set xs \<Longrightarrow> x \<le> foldr max xs (0 :: nat)" for x xs by (induction xs) auto
  then show ?thesis unfolding next_rowid_def by fastforce
qed

lemma rowid_gone:
  assumes "rows_wf rows" "map_of rows k = Some (n, r)"
  shows "n \<notin> set (map (fst \<circ> snd) (AList.delete k rows))"
proof
  assume "n \<in> set (map (fst \<circ> snd) (AList.delete k rows))"
  then obtain x where x: "x \<in> set rows" "fst x \<noteq> k" "fst (snd x) = n" unfolding delete_filter by auto
  have "(k, n, r) \<in> set rows" using assms(2) by (rule map_of_SomeD)
  moreover have "inj_on (fst \<circ> snd) (set rows)" using assms(1) by (simp add: rows_wf_def distinct_map)
  ultimately have "x = (k, n, r)" using x(1,3) by (auto elim: inj_onD)
  with x(2) show False by simp
qed

subsection \<open>Every write\<close>

fun write_named :: "row_write \<Rightarrow> bool" where
  "write_named (InsertRow r) = (p_id (r_particle r) \<noteq> [])"
| "write_named (UpdateRow pid r) = (p_id (r_particle r) \<noteq> [])"
| "write_named _ = True"

text \<open>What a write does, seen by readers: nothing, one or two logged changes, or an emptied journal.\<close>

lemma table_write_cases:
  assumes "table_write draw w (n, db) = (n', db')" "rows_wf (t_rows db)" "write_named w"
  obtains (silent) "n' = n" "t_journal db' = t_journal db" "entry_at db' = entry_at db" "t_rows db' = t_rows db"
  | (one) pid where "n' = Suc n" "logged pid (draw n) db db'" "rows_wf (t_rows db')"
  | (two) pid pid' db1 where "n' = Suc (Suc n)" "logged pid (draw n) db db1" "logged pid' (draw (Suc n)) db1 db'"
      "rows_wf (t_rows db1)" "rows_wf (t_rows db')"
  | (emptied) "n' = n" "t_journal db' = []" "t_rows db' = t_rows db"
proof (cases w)
  case (InsertRow r)
  let ?pid = "p_id (r_particle r)"
  show thesis
  proof (cases "map_of (t_rows db) ?pid")
    case None
    then have "rows_wf (AList.update ?pid (next_rowid db, r) (t_rows db))"
      using assms(2,3) InsertRow next_rowid_fresh by (intro rows_wf_insert) auto
    then show ?thesis
      using assms(1,3) None InsertRow by (intro one [of ?pid]) (auto simp: logged_def entry_at_def)
  qed (use assms(1) InsertRow in \<open>auto intro!: silent\<close>)
next
  case (UpdateRow pid r)
  let ?new = "p_id (r_particle r)"
  consider (gone) "map_of (t_rows db) pid = None" | (taken) k r0 where "map_of (t_rows db) pid = Some (k, r0)" "?new \<noteq> pid" "map_of (t_rows db) ?new \<noteq> None"
    | (same) k r0 where "map_of (t_rows db) pid = Some (k, r0)" "?new = pid"
    | (moved) k r0 where "map_of (t_rows db) pid = Some (k, r0)" "?new \<noteq> pid" "map_of (t_rows db) ?new = None"
    by (cases "map_of (t_rows db) pid"; cases "map_of (t_rows db) ?new"; cases "?new = pid") auto
  then show thesis
  proof cases
    case same
    then show ?thesis
      using assms UpdateRow rows_wf_update [OF assms(2) same(1)]
      by (intro one [of pid]) (auto simp: logged_def entry_at_def)
  next
    case moved
    define db1 where "db1 = db\<lparr>t_rows := AList.delete pid (t_rows db), t_journal := journal_entry pid (draw n) (t_journal db)\<rparr>"
    have "pid \<noteq> []" using assms(2) moved(1) by (auto simp: rows_wf_def dest!: map_of_SomeD)
    then have "logged pid (draw n) db db1" by (auto simp: logged_def entry_at_def db1_def)
    moreover have "logged ?new (draw (Suc n)) db1 db'" "n' = Suc (Suc n)"
      using assms(1,3) UpdateRow moved by (auto simp: logged_def entry_at_def db1_def)
    moreover have "rows_wf (t_rows db1)" by (simp add: db1_def rows_wf_delete assms(2))
    moreover have "rows_wf (t_rows db')"
      using assms UpdateRow moved rows_wf_delete [OF assms(2)] rowid_gone [OF assms(2) moved(1)]
        rows_wf_insert [of "AList.delete pid (t_rows db)" ?new r k] by auto
    ultimately show ?thesis by (intro two)
  qed (use assms(1) UpdateRow in \<open>auto intro!: silent\<close>)
next
  case (DeleteRow pid)
  show thesis
  proof (cases "map_of (t_rows db) pid")
    case (Some nr)
    then have "pid \<noteq> []" using assms(2) by (auto simp: rows_wf_def dest!: map_of_SomeD)
    then show ?thesis
      using assms(1) Some DeleteRow rows_wf_delete [OF assms(2)] by (intro one [of pid]) (auto simp: logged_def entry_at_def)
  qed (use assms(1) DeleteRow in \<open>auto intro!: silent\<close>)
next
  case (SetLinks ls)
  then show thesis using assms(1) by (intro silent) (auto simp: entry_at_def fun_eq_iff)
next
  case EmptyJournal
  then show thesis using assms(1) by (intro emptied) auto
qed

text \<open>What readers rely on, for one write and so for any sequence of them.\<close>

definition safe_writes :: "(nat \<Rightarrow> token) \<Rightarrow> nat \<times> database \<Rightarrow> nat \<times> database \<Rightarrow> bool" where
  "safe_writes draw a b =
     (fst a \<le> fst b \<and> database_wf (snd b) \<and> tokens (snd b) \<subseteq> tokens (snd a) \<union> draw ` {fst a..<fst b}
      \<and> (\<forall>h f. honest h f (snd a) \<longrightarrow> snd h \<notin> draw ` {fst a..<fst b} \<longrightarrow> honest h f (snd b))
      \<and> (t_journal (snd b) = t_journal (snd a) \<and> entry_at (snd b) = entry_at (snd a) \<or> t_journal (snd b) = []
         \<or> (\<exists>h. read_head (snd b) = Some h \<and> snd h \<in> draw ` {fst a..<fst b})))"

lemma safe_one:
  assumes "logged pid (draw n) db db'" "database_wf db" "rows_wf (t_rows db')"
  shows "safe_writes draw (n, db) (Suc n, db')"
  using assms logged_tokens [OF assms(1)] logged_head [OF assms(1)] logged_sorted [OF assms(1)]
    logged_honest [OF _ assms(1)]
  by (auto simp: safe_writes_def database_wf_iff)

lemma safe_trans:
  assumes "safe_writes draw a b" "safe_writes draw b c"
  shows "safe_writes draw a c"
proof -
  have le: "fst a \<le> fst b" "fst b \<le> fst c" using assms by (simp_all add: safe_writes_def)
  have drawn: "draw ` {fst a..<fst c} = draw ` {fst a..<fst b} \<union> draw ` {fst b..<fst c}"
    unfolding image_Un [symmetric] ivl_disj_un(17) [OF le] by (rule refl)
  have head: "read_head (snd c) = read_head (snd b)" if "t_journal (snd c) = t_journal (snd b)"
    using that by (simp add: read_head_def)
  have "tokens (snd c) \<subseteq> tokens (snd a) \<union> draw ` {fst a..<fst c}"
    unfolding drawn using assms by (auto simp: safe_writes_def)
  moreover have "honest h f (snd c)" if "honest h f (snd a)" "snd h \<notin> draw ` {fst a..<fst c}" for h f
    using that assms unfolding drawn safe_writes_def by blast
  moreover have "t_journal (snd c) = t_journal (snd a) \<and> entry_at (snd c) = entry_at (snd a) \<or> t_journal (snd c) = []
      \<or> (\<exists>h. read_head (snd c) = Some h \<and> snd h \<in> draw ` {fst a..<fst c})"
    using assms head unfolding drawn safe_writes_def by (metis Un_iff)
  ultimately show ?thesis using assms le by (simp add: safe_writes_def)
qed

lemma safe_write:
  assumes "database_wf db" "write_named w" "table_write draw w (n, db) = (n', db')"
  shows "safe_writes draw (n, db) (n', db')"
proof -
  have rows: "rows_wf (t_rows db)" using assms(1) by (simp add: database_wf_iff)
  show ?thesis
    using assms(3) rows assms(2)
  proof (cases rule: table_write_cases)
    case silent
    then have "changed_set db' = changed_set db" "token_at db' = token_at db"
      by (simp_all add: fun_eq_iff changed_set_def changed_ids_def token_at_def)
    with silent assms(1) show ?thesis
      by (simp add: safe_writes_def database_wf_iff tokens_def coherent_def)
  next
    case (one pid)
    then show ?thesis using safe_one assms(1) by simp
  next
    case (two pid pid' db1)
    have "safe_writes draw (n, db) (Suc n, db1)" using safe_one two assms(1) by blast
    moreover have "database_wf db1" using calculation by (simp add: safe_writes_def)
    ultimately show ?thesis using safe_one two safe_trans by blast
  next
    case emptied
    then show ?thesis
      using assms(1) by (simp add: safe_writes_def database_wf_iff tokens_def coherent_def token_at_def)
  qed
qed

lemma safe_refl: "database_wf db \<Longrightarrow> safe_writes draw (n, db) (n, db)"
  by (simp add: safe_writes_def)

lemma safe_many:
  assumes "database_wf db" "\<forall>w \<in> set ws. write_named w"
  shows "safe_writes draw (n, db) (fold (table_write draw) ws (n, db))"
  using assms
proof (induction ws arbitrary: n db)
  case (Cons w ws)
  obtain n1 db1 where step: "table_write draw w (n, db) = (n1, db1)" by fastforce
  then have first: "safe_writes draw (n, db) (n1, db1)" using Cons.prems by (intro safe_write) auto
  then have "database_wf db1" by (simp add: safe_writes_def)
  then show ?case using Cons.IH Cons.prems(2) safe_trans [OF first] step by simp
qed (simp add: safe_refl)

section \<open>An exact cache answers as the loader does\<close>

lemma sort_key_map: "sort_key f (map g xs) = map g (sort_key (f \<circ> g) xs)"
proof -
  have "insort_key f (g x) (map g xs) = map g (insort_key (f \<circ> g) x xs)" for x xs
    by (induction xs) auto
  then show ?thesis by (induction xs) auto
qed

definition cache_wf :: "cache_state \<Rightarrow> bool" where
  "cache_wf st = (distinct (map fst (cs_by_id st)) \<and> sorted (map ce_order (cs_ordered st))
     \<and> mset (cs_ordered st) = mset (map snd (cs_by_id st)))"

definition cacheable_rows :: "database \<Rightarrow> (nat \<times> particle_row) list" where
  "cacheable_rows db = filter (\<lambda>nr. cacheable (snd nr)) (map snd (t_rows db))"

lemma entry_of_simps [simp]:
  "ce_order (entry_of nr) = row_order nr" "ce_particle (entry_of nr) = r_particle (snd nr)"
  "ce_confidence (entry_of nr) = p_confidence (r_particle (snd nr))" "ce_model (entry_of nr) = stored_model (snd nr)"
  by (simp_all add: entry_of_def Let_def)

definition entry_pairs :: "database \<Rightarrow> (string \<times> cache_entry) list" where
  "entry_pairs db = map (\<lambda>(i, nr). (i, entry_of nr)) (filter (\<lambda>(i, nr). cacheable (snd nr)) (t_rows db))"

lemma entry_pairs_keys: "rows_wf (t_rows db) \<Longrightarrow> distinct (map fst (entry_pairs db))"
  by (auto simp: entry_pairs_def rows_wf_def distinct_map_filter comp_def case_prod_beta')

lemma map_of_map_filter:
  "distinct (map fst al) \<Longrightarrow>
   map_of (map (\<lambda>(i, v). (i, g v)) (filter (\<lambda>(i, v). P v) al)) k =
     (case map_of al k of None \<Rightarrow> None | Some v \<Rightarrow> if P v then Some (g v) else None)"
  by (induction al) (auto split: option.splits simp: map_of_eq_None_iff [symmetric] dest: map_of_SomeD)

lemma map_of_entry_pairs: "rows_wf (t_rows db) \<Longrightarrow> map_of (entry_pairs db) = entry_at db"
  unfolding entry_pairs_def entry_at_def rows_wf_def fun_eq_iff by (simp add: map_of_map_filter)

lemma entry_pairs_rows: "map snd (entry_pairs db) = map entry_of (cacheable_rows db)"
proof -
  have "map snd (map (\<lambda>(i, nr). (i, entry_of nr)) (filter (\<lambda>(i, nr). cacheable (snd nr)) rows)) =
        map entry_of (filter (\<lambda>nr. cacheable (snd nr)) (map snd rows))" for rows
    by (induction rows) auto
  then show ?thesis by (simp add: entry_pairs_def cacheable_rows_def)
qed

lemma exact_values:
  assumes "rows_wf (t_rows db)" "distinct (map fst al)" "map_of al = entry_at db"
  shows "mset al = mset (entry_pairs db)"
proof -
  have "set al = set (entry_pairs db)"
    using assms map_of_inject_set [OF assms(2) entry_pairs_keys [OF assms(1)]] map_of_entry_pairs by metis
  then show ?thesis
    using assms(2) entry_pairs_keys [OF assms(1)] by (simp add: set_eq_iff_mset_eq_distinct [symmetric] distinct_map)
qed

lemma order_inj:
  assumes "rows_wf (t_rows db)"
  shows "inj_on ce_order (set (map entry_of (cacheable_rows db)))"
proof -
  have "inj_on fst (set (map snd (t_rows db)))"
    using assms unfolding rows_wf_def by (auto simp: distinct_map inj_on_def)
  then have "inj_on row_order (set (cacheable_rows db))"
    unfolding inj_on_def cacheable_rows_def row_order_def by (simp add: Ball_def) blast
  then show ?thesis by (auto simp: inj_on_def)
qed

lemma loader_as_entries:
  fixes db subj
  defines "linked \<equiv> (\<lambda>e. case subj of None \<Rightarrow> True | Some s \<Rightarrow> (p_id (ce_particle e), s) \<in> set (t_links db))"
  shows "get_active_particles_with_embeddings rules (map snd (t_rows db)) (t_links db) c subj =
    map (\<lambda>e. (ce_particle e, ce_embedding e)) (filter (\<lambda>e. \<not> ce_confidence e < c \<and> ce_model e = embedding_model rules)
      (sort_key ce_order (filter linked (map entry_of (cacheable_rows db)))))"
proof -
  have pick: "the (r_embedding (snd nr)) = ce_embedding (entry_of nr)" if "nr \<in> set (cacheable_rows db)" for nr
    using that by (auto simp: entry_of_def cacheable_rows_def cacheable_def Let_def)
  have hits: "filter (\<lambda>(_, r). p_status (r_particle r) = ACTIVE \<and> p_confidence (r_particle r) \<ge> c \<and> r_embedding r \<noteq> None
        \<and> (case subj of None \<Rightarrow> True | Some s \<Rightarrow> (p_id (r_particle r), s) \<in> set (t_links db))) (map snd (t_rows db))
      = filter (\<lambda>nr. \<not> ce_confidence (entry_of nr) < c \<and> linked (entry_of nr)) (cacheable_rows db)"
    unfolding cacheable_rows_def filter_filter
    by (rule filter_cong) (auto simp: cacheable_def linked_def split: option.splits)
  show ?thesis
    unfolding get_active_particles_with_embeddings_def Let_def hits
    by (simp add: sort_key_map filter_map comp_def filter_sort [symmetric] conj_ac case_prod_beta' pick cong: map_cong)
qed

lemma mset_map_eq: "mset xs = mset ys \<Longrightarrow> mset (map f xs) = mset (map f ys)"
  by (simp add: mset_map)

lemma chosen_entries:
  assumes "distinct (map fst al)"
  shows "mset (List.map_filter (map_of al) (remdups pids)) = mset (map snd (filter (\<lambda>kv. fst kv \<in> set pids) al))"
proof -
  let ?pair = "\<lambda>p. (p, the (map_of al p))" and ?ps = "filter (\<lambda>p. map_of al p \<noteq> None) (remdups pids)"
  have "kv \<in> set (map ?pair ?ps) \<longleftrightarrow> kv \<in> set (filter (\<lambda>kv. fst kv \<in> set pids) al)" for kv
  proof -
    have "kv \<in> set al \<longleftrightarrow> map_of al (fst kv) = Some (snd kv)"
      using map_of_eq_Some_iff [OF assms, of "fst kv" "snd kv"] by simp
    moreover have "kv \<in> set (map ?pair ?ps) \<longleftrightarrow> fst kv \<in> set pids \<and> map_of al (fst kv) = Some (snd kv)"
      by (cases kv) (auto simp del: not_None_eq)
    ultimately show ?thesis by auto
  qed
  then have "set (map ?pair ?ps) = set (filter (\<lambda>kv. fst kv \<in> set pids) al)" by blast
  moreover have "distinct (map ?pair ?ps)" by (simp add: distinct_map inj_on_def)
  moreover have "distinct (filter (\<lambda>kv. fst kv \<in> set pids) al)" using assms by (simp add: distinct_map)
  ultimately have "mset (map ?pair ?ps) = mset (filter (\<lambda>kv. fst kv \<in> set pids) al)"
    using set_eq_iff_mset_eq_distinct by blast
  then have "mset (map snd (map ?pair ?ps)) = mset (map snd (filter (\<lambda>kv. fst kv \<in> set pids) al))"
    by (rule mset_map_eq)
  then show ?thesis by (simp add: List.map_filter_def comp_def)
qed

lemma select_exact:
  assumes "rows_wf (t_rows db)" "cache_wf st" "map_of (cs_by_id st) = entry_at db"
  shows "select_entries rules st c (map_option (\<lambda>s. get_particles_for_subject (t_links db) s None 0) subj) =
         get_active_particles_with_embeddings rules (map snd (t_rows db)) (t_links db) c subj"
proof -
  have al: "distinct (map fst (cs_by_id st))" and ordered: "sorted (map ce_order (cs_ordered st))"
      "mset (cs_ordered st) = mset (map snd (cs_by_id st))"
    using assms(2) by (simp_all add: cache_wf_def)
  have vals: "mset (cs_by_id st) = mset (entry_pairs db)" by (rule exact_values [OF assms(1) al assms(3)])
  have all: "mset (map snd (cs_by_id st)) = mset (map entry_of (cacheable_rows db))"
    using vals entry_pairs_rows by (metis mset_map)
  note inj = order_inj [OF assms(1)]
  show ?thesis
  proof (cases subj)
    case None
    have "sort_key ce_order (map entry_of (cacheable_rows db)) = cs_ordered st"
      using sort_key_inj_key_eq [OF _ inj ordered(1)] ordered(2) all by simp
    with None show ?thesis by (simp add: loader_as_entries select_entries_def)
  next
    case (Some s)
    let ?pids = "get_particles_for_subject (t_links db) s None 0"
    have pids: "i \<in> set ?pids \<longleftrightarrow> (i, s) \<in> set (t_links db)" for i
      by (force simp: get_particles_for_subject_def)
    have keys: "fst kv = p_id (ce_particle (snd kv))" if "kv \<in> set (cs_by_id st)" for kv
    proof -
      have "kv \<in> set (entry_pairs db)" using that vals by (metis set_mset_mset)
      then show ?thesis using assms(1) by (auto simp: entry_pairs_def rows_wf_def)
    qed
    have "filter (\<lambda>kv. fst kv \<in> set ?pids) (cs_by_id st) = filter (\<lambda>kv. (p_id (ce_particle (snd kv)), s) \<in> set (t_links db)) (cs_by_id st)"
      using keys pids by (intro filter_cong) auto
    then have "mset (List.map_filter (map_of (cs_by_id st)) (remdups ?pids)) =
        mset (filter (\<lambda>e. (p_id (ce_particle e), s) \<in> set (t_links db)) (map snd (cs_by_id st)))"
      unfolding chosen_entries [OF al] by (simp add: filter_map comp_def)
    also have "\<dots> = mset (filter (\<lambda>e. (p_id (ce_particle e), s) \<in> set (t_links db)) (map entry_of (cacheable_rows db)))"
      using all by (simp only: mset_filter)
    finally have same: "mset (List.map_filter (map_of (cs_by_id st)) (remdups ?pids)) =
        mset (filter (\<lambda>e. (p_id (ce_particle e), s) \<in> set (t_links db)) (map entry_of (cacheable_rows db)))" .
    have "sort_key ce_order (filter (\<lambda>e. (p_id (ce_particle e), s) \<in> set (t_links db)) (map entry_of (cacheable_rows db))) =
        sort_key ce_order (List.map_filter (map_of (cs_by_id st)) (remdups ?pids))"
      by (rule sort_key_inj_key_eq) (use same inj in \<open>auto intro: inj_on_subset\<close>)
    with Some show ?thesis by (simp add: loader_as_entries select_entries_def)
  qed
qed

section \<open>Bringing the cache up\<close>

lemma found_row: "map_of (filter (\<lambda>(i, _). i \<in> set chunk) rows) k = (if k \<in> set chunk then map_of rows k else None)"
  using map_of_filter_key [of "\<lambda>i. i \<in> set chunk" rows k] by (simp add: case_prod_beta')

definition reread :: "database \<Rightarrow> string \<Rightarrow> (string, cache_entry) dict \<Rightarrow> (string, cache_entry) dict" where
  "reread db pid d = (case entry_at db pid of Some e \<Rightarrow> AList.update pid e d | None \<Rightarrow> AList.delete pid d)"

lemma fold_reread:
  "map_of (fold (reread db) pids d) = (\<lambda>k. if k \<in> set pids then entry_at db k else map_of d k)"
  "distinct (map fst d) \<Longrightarrow> distinct (map fst (fold (reread db) pids d))"
  by (induction pids arbitrary: d) (auto simp: reread_def fun_eq_iff distinct_delete split: option.splits)

lemma apply_chunk_eq: "apply_chunk db chunk d = fold (reread db) chunk d"
  unfolding apply_chunk_def Let_def
  by (rule fold_cong) (auto simp: reread_def found_row entry_at_def fun_eq_iff split: option.splits)

lemma fold_chunks:
  assumes "n \<noteq> 0"
  shows "fold (apply_chunk db) (chunks n pids) d = fold (reread db) pids d"
proof -
  have "fold (apply_chunk db) cs d = fold (reread db) (concat cs) d" for cs
    by (induction cs arbitrary: d) (auto simp: apply_chunk_eq)
  then show ?thesis using concat_chunks [OF assms, of pids] by simp
qed

lemma apply_changes_state:
  assumes "cache_wf st"
  shows "cache_wf (apply_changes db st h changed)" "cs_head (apply_changes db st h changed) = h"
    "map_of (cs_by_id (apply_changes db st h changed)) = (\<lambda>k. if k \<in> set changed then entry_at db k else map_of (cs_by_id st) k)"
  using assms fold_reread [where db = db and pids = "sort changed" and d = "cs_by_id st"]
  by (simp_all add: apply_changes_def cache_wf_def Let_def fold_chunks DELTA_CHUNK_def)

lemma fold_update_entries:
  assumes "distinct (map k es @ map fst d)"
  shows "fold (\<lambda>e. AList.update (k e) e) es d = d @ map (\<lambda>e. (k e, e)) es"
  using assms
proof (induction es arbitrary: d)
  case (Cons e es)
  have "AList.update (k e) e d = d @ [(k e, e)]"
    using Cons.prems by (induction d) auto
  with Cons show ?case by simp
qed simp

lemma build_cache_state:
  assumes "rows_wf (t_rows db)"
  shows "cache_wf (build_cache h db)" "cs_head (build_cache h db) = h" "map_of (cs_by_id (build_cache h db)) = entry_at db"
proof -
  let ?ids = "\<lambda>e. p_id (ce_particle e)" and ?es = "map entry_of (sort_key row_order (cacheable_rows db))"
  have "map (\<lambda>e. (?ids e, e)) (map snd (entry_pairs db)) = entry_pairs db"
    using assms by (auto simp: entry_pairs_def rows_wf_def intro!: map_idI)
  then have pairs: "map (\<lambda>nr. (p_id (r_particle (snd nr)), entry_of nr)) (cacheable_rows db) = entry_pairs db"
    unfolding entry_pairs_rows by (simp add: comp_def)
  have same: "mset (map (\<lambda>e. (?ids e, e)) ?es) = mset (entry_pairs db)"
    unfolding pairs [symmetric] by (simp add: comp_def mset_map)
  have "mset (map fst (map (\<lambda>e. (?ids e, e)) ?es)) = mset (map fst (entry_pairs db))"
    using same by (rule mset_map_eq)
  then have keys: "distinct (map ?ids ?es)"
    using entry_pairs_keys [OF assms] by (metis (no_types, lifting) comp_apply fst_conv list.map_comp map_eq_conv mset_eq_imp_distinct_iff)
  then have by_id: "cs_by_id (build_cache h db) = map (\<lambda>e. (?ids e, e)) ?es"
    using fold_update_entries [of ?ids ?es "[]"] by (simp add: build_cache_def cacheable_rows_def Let_def)
  have ordered: "cs_ordered (build_cache h db) = ?es"
    by (simp add: build_cache_def cacheable_rows_def Let_def)
  have "sorted (map row_order (sort_key row_order (cacheable_rows db)))" by simp
  then show "cache_wf (build_cache h db)"
    using keys unfolding cache_wf_def by_id ordered by (simp add: comp_def)
  have "set (map (\<lambda>e. (?ids e, e)) ?es) = set (entry_pairs db)" using same by (metis set_mset_mset)
  then show "map_of (cs_by_id (build_cache h db)) = entry_at db"
    using keys map_of_inject_set [of "map (\<lambda>e. (?ids e, e)) ?es" "entry_pairs db"] entry_pairs_keys [OF assms]
    unfolding by_id map_of_entry_pairs [OF assms, symmetric] by (simp add: comp_def)
  show "cs_head (build_cache h db) = h" by (simp add: build_cache_def Let_def)
qed

lemma changed_since_set: "changed_since db s limit = Some ids \<Longrightarrow> set ids = changed_set db s"
  by (auto simp: changed_since_def changed_set_def Let_def split: if_splits)

text \<open>
  The state a read leaves: marked with the journal's head at \<open>db0\<close>, right about everything not changed
  since; and exact when nothing was committed in between.
\<close>

lemma refreshed:
  assumes "database_wf db0" "database_wf db1" "current_state db0 db1 old may = Some st"
    and "\<And>s. old = Some s \<Longrightarrow> cache_wf s \<and> honest (cs_head s) (map_of (cs_by_id s)) db0"
    and "\<And>h. read_head db0 = Some h \<Longrightarrow> honest h (entry_at db0) db1"
  shows "cache_wf st \<and> read_head db0 = Some (cs_head st) \<and> honest (cs_head st) (map_of (cs_by_id st)) db1
     \<and> (db1 = db0 \<longrightarrow> map_of (cs_by_id st) = entry_at db0)"
proof -
  obtain h where h: "read_head db0 = Some h" using assms(3) by (auto simp: current_state_def split: option.splits)
  have rows1: "rows_wf (t_rows db1)" using assms(2) by (simp add: database_wf_iff)
  consider (kept) "old = Some st" "cs_head st = h" | (built) "st = build_cache h db1"
    | (caught) s changed where "old = Some s" "token_at db0 (fst (cs_head s)) = Some (snd (cs_head s))"
        "set changed = changed_set db0 (fst (cs_head s))" "st = apply_changes db1 s h changed"
    using assms(3) h by (auto simp: current_state_def Let_def split: option.splits if_splits dest!: changed_since_set)
  then show ?thesis
  proof cases
    case kept
    then show ?thesis
      using assms(4) h journal.exact_at_head [OF assms(1) h] journal.unchanged_state [OF assms(1) h _ assms(5)] by auto
  next
    case built
    then show ?thesis using build_cache_state [OF rows1, of h] h journal.own_content [of h db1] by auto
  next
    case caught
    have s: "cache_wf s" "honest (cs_head s) (map_of (cs_by_id s)) db0" using assms(4) caught(1) by auto
    note state = apply_changes_state [OF s(1), of db1 h changed, folded caught(4)]
    show ?thesis
      using state journal.catch_up [OF assms(1) h s(2) caught(2) assms(5) [OF h]] journal.catch_up_exact [OF s(2) caught(2)] h
      unfolding caught(3) by auto
  qed
qed

section \<open>The invariant of the whole system\<close>

definition views :: "cache_sys \<Rightarrow> database set" where
  "views s = insert (sy_committed s) (set_option (sy_work s))"

definition drawn_tokens :: "(nat \<Rightarrow> token) \<Rightarrow> cache_sys \<Rightarrow> token set" where
  "drawn_tokens draw s = draw ` {..<sy_drawn s}"

text \<open>
  Every view of the database is well formed and its tokens were drawn; an open transaction either has
  logged nothing or heads the journal with a token no committed entry has, and a reader that knows the
  committed contents can rely on its marker inside the transaction; and the cache is honest in every view.
\<close>

definition cache_inv :: "(nat \<Rightarrow> token) \<Rightarrow> cache_sys \<Rightarrow> bool" where
  "cache_inv draw s =
     ((\<forall>db \<in> views s. database_wf db \<and> tokens db \<subseteq> drawn_tokens draw s)
      \<and> (\<forall>w. sy_work s = Some w \<longrightarrow>
           (\<forall>h. read_head w = Some h \<longrightarrow> snd h \<notin> tokens (sy_committed s) \<or> entry_at w = entry_at (sy_committed s))
           \<and> (\<forall>h. read_head (sy_committed s) = Some h \<longrightarrow> honest h (entry_at (sy_committed s)) w))
      \<and> (\<forall>st. sy_cache s = Some st \<longrightarrow> cache_wf st \<and> snd (cs_head st) \<in> drawn_tokens draw s
           \<and> (\<forall>db \<in> views s. honest (cs_head st) (map_of (cs_by_id st)) db)))"

lemma read_head_token: "read_head db = Some h \<Longrightarrow> snd h \<in> tokens db"
  by (auto simp: read_head_def tokens_def split: if_splits)

lemma honest_elsewhere:
  assumes "snd h \<notin> tokens db" "journal_sorted db"
  shows "honest h f db"
proof -
  have "token_at db (fst h) \<noteq> Some (snd h)"
    using assms(1) unfolding token_at_iff [OF assms(2)] tokens_def by (metis image_eqI)
  then show ?thesis by (simp add: coherent_def)
qed

lemma fresh_token:
  fixes draw :: "nat \<Rightarrow> token"
  assumes "inj_on draw {..<m}" "n \<le> n'" "n' \<le> m" "t \<in> draw ` {..<n}"
  shows "t \<notin> draw ` {n..<n'}"
proof
  assume "t \<in> draw ` {n..<n'}"
  then obtain i where i: "i \<in> {n..<n'}" "t = draw i" by blast
  from assms(4) obtain k where k: "k < n" "t = draw k" by blast
  then have "i \<in> {..<m}" "k \<in> {..<m}" using i assms(2,3) by auto
  then have "i = k" using inj_onD [OF assms(1)] i k by metis
  with i(1) k(1) show False by simp
qed

text \<open>A cache read in one view stays honest in the other.\<close>

lemma read_inv:
  assumes "cache_inv draw s" "db \<in> views s" "current_state db db (sy_cache s) may = Some st"
  shows "cache_inv draw (s\<lparr>sy_cache := Some st\<rparr>)"
proof -
  have wf: "database_wf db" and toks: "tokens db \<subseteq> drawn_tokens draw s"
    using assms(1,2) by (auto simp: cache_inv_def)
  have st: "cache_wf st" "read_head db = Some (cs_head st)" "map_of (cs_by_id st) = entry_at db"
    using refreshed [OF wf wf assms(3)] journal.own_content assms(1,2) by (auto simp: cache_inv_def)
  have "honest (cs_head st) (entry_at db) db'" if v: "db' \<in> views s" for db'
  proof (cases "db' = db")
    case True
    then show ?thesis by (simp add: journal.own_content)
  next
    case False
    then obtain w where w: "sy_work s = Some w" and two: "db = w \<and> db' = sy_committed s \<or> db = sy_committed s \<and> db' = w"
      using v assms(2) by (cases "sy_work s") (auto simp: views_def)
    from two show ?thesis
    proof (elim disjE conjE)
      assume own: "db = w" "db' = sy_committed s"
      then have "snd (cs_head st) \<notin> tokens db' \<or> entry_at db = entry_at db'"
        using assms(1) w st(2) unfolding cache_inv_def by blast
      moreover have "journal_sorted db'"
        using assms(1) v by (auto simp: cache_inv_def database_wf_iff)
      ultimately show ?thesis using honest_elsewhere journal.own_content by metis
    next
      assume "db = sy_committed s" "db' = w"
      then show ?thesis using assms(1) w st(2) unfolding cache_inv_def by blast
    qed
  qed
  moreover have "snd (cs_head st) \<in> drawn_tokens draw s" using read_head_token [OF st(2)] toks by blast
  ultimately show ?thesis
    using assms(1) st by (simp add: cache_inv_def views_def drawn_tokens_def)
qed

lemma drawn_split: "(n :: nat) \<le> n' \<Longrightarrow> draw ` {..<n'} = draw ` {..<n} \<union> draw ` {n..<n'}"
  unfolding image_Un [symmetric] by (rule arg_cong [where f = "image draw"]) auto

lemma write_committed_inv:
  assumes "cache_inv draw s" "sy_work s = None" "safe_writes draw (sy_drawn s, sy_committed s) (n', db')"
    and "inj_on draw {..<m}" "n' \<le> m"
  shows "cache_inv draw (s\<lparr>sy_committed := db', sy_drawn := n'\<rparr>)"
proof -
  have le: "sy_drawn s \<le> n'" and wf: "database_wf db'"
    and toks: "tokens db' \<subseteq> tokens (sy_committed s) \<union> draw ` {sy_drawn s..<n'}"
    and keep: "\<And>h f. honest h f (sy_committed s) \<Longrightarrow> snd h \<notin> draw ` {sy_drawn s..<n'} \<Longrightarrow> honest h f db'"
    using assms(3) [unfolded safe_writes_def fst_conv snd_conv] by blast+
  have "tokens db' \<subseteq> draw ` {..<n'}"
    using toks assms(1,2) unfolding drawn_split [OF le] cache_inv_def drawn_tokens_def views_def by auto
  moreover have "cache_wf st \<and> snd (cs_head st) \<in> draw ` {..<n'} \<and> honest (cs_head st) (map_of (cs_by_id st)) db'"
    if "sy_cache s = Some st" for st
    using that assms(1,2) keep fresh_token [OF assms(4) le assms(5)]
    unfolding drawn_split [OF le] cache_inv_def drawn_tokens_def views_def by auto
  ultimately show ?thesis
    using assms(2) wf by (simp add: cache_inv_def views_def drawn_tokens_def)
qed

lemma write_work_inv:
  assumes "cache_inv draw s" "sy_work s = Some w" "safe_writes draw (sy_drawn s, w) (n', db')"
    and "inj_on draw {..<m}" "n' \<le> m"
  shows "cache_inv draw (s\<lparr>sy_work := Some db', sy_drawn := n'\<rparr>)"
proof -
  let ?c = "sy_committed s"
  have le: "sy_drawn s \<le> n'" and wf: "database_wf db'"
    and toks: "tokens db' \<subseteq> tokens w \<union> draw ` {sy_drawn s..<n'}"
    and keep: "\<And>h f. honest h f w \<Longrightarrow> snd h \<notin> draw ` {sy_drawn s..<n'} \<Longrightarrow> honest h f db'"
    and seen: "t_journal db' = t_journal w \<and> entry_at db' = entry_at w \<or> t_journal db' = []
         \<or> (\<exists>h. read_head db' = Some h \<and> snd h \<in> draw ` {sy_drawn s..<n'})"
    using assms(3) [unfolded safe_writes_def fst_conv snd_conv] by blast+
  have c: "database_wf ?c" "tokens ?c \<subseteq> draw ` {..<sy_drawn s}" "tokens w \<subseteq> draw ` {..<sy_drawn s}"
    using assms(1,2) by (simp_all add: cache_inv_def views_def drawn_tokens_def)
  note fresh = fresh_token [OF assms(4) le assms(5)]
  have own: "snd h \<notin> tokens ?c \<or> entry_at db' = entry_at ?c" if h: "read_head db' = Some h" for h
    using seen
  proof (elim disjE conjE exE)
    assume same: "t_journal db' = t_journal w" "entry_at db' = entry_at w"
    have "read_head w = Some h" using h unfolding read_head_def same(1) .
    then show ?thesis using assms(1,2) unfolding cache_inv_def same(2) by blast
  next
    assume "t_journal db' = []"
    then show ?thesis using h by (simp add: read_head_def)
  next
    fix h' assume "read_head db' = Some h'" "snd h' \<in> draw ` {sy_drawn s..<n'}"
    then have "snd h \<in> draw ` {sy_drawn s..<n'}" using h by simp
    then show ?thesis using fresh c(2) by blast
  qed
  have outer: "honest h (entry_at ?c) db'" if h: "read_head ?c = Some h" for h
  proof (rule keep)
    show "honest h (entry_at ?c) w" using assms(1,2) h unfolding cache_inv_def by simp
    show "snd h \<notin> draw ` {sy_drawn s..<n'}" using fresh c(2) read_head_token [OF h] by blast
  qed
  have "cache_wf st \<and> snd (cs_head st) \<in> draw ` {..<n'} \<and> honest (cs_head st) (map_of (cs_by_id st)) ?c
      \<and> honest (cs_head st) (map_of (cs_by_id st)) db'" if "sy_cache s = Some st" for st
    using that assms(1,2) keep fresh unfolding drawn_split [OF le] cache_inv_def drawn_tokens_def views_def by auto
  moreover have "tokens ?c \<subseteq> draw ` {..<n'}" "tokens db' \<subseteq> draw ` {..<n'}"
    using toks c(2,3) unfolding drawn_split [OF le] by auto
  ultimately show ?thesis
    using wf own outer c(1) unfolding cache_inv_def views_def drawn_tokens_def by simp
qed

lemma read_across_inv:
  assumes "cache_inv draw s" "sy_work s = None" "safe_writes draw (sy_drawn s, sy_committed s) (n', db')"
    and "inj_on draw {..<m}" "n' \<le> m" "current_state (sy_committed s) db' (sy_cache s) may = Some st"
  shows "cache_inv draw (s\<lparr>sy_committed := db', sy_drawn := n', sy_cache := Some st\<rparr>)"
proof -
  have le: "sy_drawn s \<le> n'" and wf: "database_wf db'"
    and keep: "\<And>h f. honest h f (sy_committed s) \<Longrightarrow> snd h \<notin> draw ` {sy_drawn s..<n'} \<Longrightarrow> honest h f db'"
    using assms(3) [unfolded safe_writes_def fst_conv snd_conv] by blast+
  have c: "database_wf (sy_committed s)" "tokens (sy_committed s) \<subseteq> draw ` {..<sy_drawn s}"
    using assms(1) by (simp_all add: cache_inv_def views_def drawn_tokens_def)
  have known: "honest h (entry_at (sy_committed s)) db'" if h: "read_head (sy_committed s) = Some h" for h
    using keep [OF journal.own_content] fresh_token [OF assms(4) le assms(5)] read_head_token [OF h] c(2) by blast
  have st: "cache_wf st" "read_head (sy_committed s) = Some (cs_head st)" "honest (cs_head st) (map_of (cs_by_id st)) db'"
    using refreshed [OF c(1) wf assms(6) _ known] assms(1) by (auto simp: cache_inv_def views_def)
  have "snd (cs_head st) \<in> draw ` {..<n'}"
    using read_head_token [OF st(2)] c(2) unfolding drawn_split [OF le] by blast
  with write_committed_inv [OF assms(1-5)] assms(2) st(1,3) show ?thesis
    by (simp add: cache_inv_def views_def drawn_tokens_def)
qed

lemma cache_of_load:
  "snd (load_active_candidates rules usable db0 db1 old c subj) =
     (if usable then (case current_state db0 db1 old (subj = None) of None \<Rightarrow> old | Some st \<Rightarrow> Some st) else old)"
  by (simp add: load_active_candidates_def Let_def split: option.splits)

fun event_named :: "cache_event \<Rightarrow> bool" where
  "event_named (Write w) = write_named w"
| "event_named (ReadAcross ws c subj) = (\<forall>w \<in> set ws. write_named w)"
| "event_named _ = True"

lemma drawn_mono: "sy_drawn s \<le> sy_drawn (cache_step draw rules usable e s)"
proof -
  have one: "n \<le> fst (table_write draw w (n, db))" for w n db
    by (cases w) (auto split: option.splits)
  have "n \<le> fst (fold (table_write draw) ws (n, db))" for ws n db
  proof (induction ws arbitrary: n db)
    case (Cons w ws)
    then show ?case using one [of n w db] by (cases "table_write draw w (n, db)") (auto intro: order_trans)
  qed simp
  then show ?thesis using one by (cases e) (auto simp: Let_def split: option.splits prod.splits, (metis fst_conv)+)
qed

lemma step_inv:
  assumes "cache_inv draw s" "event_named e" "inj_on draw {..<m}" "sy_drawn (cache_step draw rules usable e s) \<le> m"
  shows "cache_inv draw (cache_step draw rules usable e s)"
proof (cases e)
  case (Write w)
  show ?thesis
  proof (cases "sy_work s")
    case None
    obtain n' db' where w: "table_write draw w (sy_drawn s, sy_committed s) = (n', db')" by fastforce
    have "database_wf (sy_committed s)" using assms(1) by (simp add: cache_inv_def views_def)
    then have "safe_writes draw (sy_drawn s, sy_committed s) (n', db')"
      using safe_write w assms(2) Write by simp
    then show ?thesis
      using write_committed_inv [OF assms(1) None _ assms(3)] assms(4) Write None w by simp
  next
    case (Some db)
    obtain n' db' where w: "table_write draw w (sy_drawn s, db) = (n', db')" by fastforce
    have "database_wf db" using assms(1) Some by (simp add: cache_inv_def views_def)
    then have "safe_writes draw (sy_drawn s, db) (n', db')"
      using safe_write w assms(2) Write by simp
    then show ?thesis
      using write_work_inv [OF assms(1) Some _ assms(3)] assms(4) Write Some w by simp
  qed
next
  case (ReadOwn c subj)
  then show ?thesis
    using assms(1) read_inv [OF assms(1)] by (auto simp: cache_of_load Let_def views_def split: option.splits)
next
  case (ReadCommitted c subj)
  then show ?thesis
    using assms(1) read_inv [OF assms(1)] by (auto simp: cache_of_load Let_def views_def split: option.splits)
next
  case (ReadAcross ws c subj)
  show ?thesis
  proof (cases "sy_work s")
    case None
    obtain n' db' where w: "fold (table_write draw) ws (sy_drawn s, sy_committed s) = (n', db')" by fastforce
    have "database_wf (sy_committed s)" using assms(1) by (simp add: cache_inv_def views_def)
    then have safe: "safe_writes draw (sy_drawn s, sy_committed s) (n', db')"
      using safe_many [of "sy_committed s" ws draw "sy_drawn s"] w assms(2) ReadAcross by simp
    have "n' \<le> m" using assms(4) ReadAcross None w by simp
    then show ?thesis
      using write_committed_inv [OF assms(1) None safe assms(3)] read_across_inv [OF assms(1) None safe assms(3)] ReadAcross None w
      by (auto simp: cache_of_load split: option.splits)
  qed (use assms(1) ReadAcross in simp)
qed (use assms(1) in \<open>auto simp: cache_inv_def views_def drawn_tokens_def journal.own_content split: option.splits\<close>)

lemma run_inv:
  assumes "cache_inv draw s" "\<forall>e \<in> set evs. event_named e"
    and "inj_on draw {..<sy_drawn (fold (cache_step draw rules usable) evs s)}"
  shows "cache_inv draw (fold (cache_step draw rules usable) evs s)"
  using assms
proof (induction evs arbitrary: s)
  case (Cons e evs)
  let ?s1 = "cache_step draw rules usable e s"
  have "sy_drawn x \<le> sy_drawn (fold (cache_step draw rules usable) es x)" for x es
    by (induction es arbitrary: x) (auto intro: order_trans [OF drawn_mono])
  then have "cache_inv draw ?s1"
    using Cons.prems by (intro step_inv [where m = "sy_drawn (fold (cache_step draw rules usable) (e # evs) s)"]) auto
  with Cons show ?case by simp
qed simp

lemma start_inv: "database_wf db \<Longrightarrow> cache_inv draw (cache_start draw db)"
  by (auto simp: cache_inv_def cache_start_def views_def drawn_tokens_def database_wf_def install_journal_def
      tokens_def journal_entry_def next_seq_def)

section \<open>The properties\<close>

text \<open>
  C2. The candidate cache is invisible. Start from any store whose journal has just been installed and
  let any processes insert, update, delete and relink rows, open transactions, commit them or roll them
  back, empty the journal, and let the reading process read at any point, inside its own open
  transaction, outside it, or across another process's commit. As long as the random tokens drawn in
  the run differ and no row has the empty id, a read in any view the process can have returns exactly
  what the uncached loader returns there: the same particles and vectors in the same order.
\<close>

theorem cache_is_transparent:
  assumes "database_wf db" "\<forall>e \<in> set evs. event_named e"
    and "s = cache_run draw rules usable evs db" "inj_on draw {..<sy_drawn s}" "view \<in> views s"
  shows "fst (load_active_candidates rules usable view view (sy_cache s) c subj) =
         get_active_particles_with_embeddings rules (map snd (t_rows view)) (t_links view) c subj"
proof -
  have inv: "cache_inv draw s"
    using run_inv [OF start_inv [OF assms(1)] assms(2)] assms(3,4) by (simp add: cache_run_def)
  have wf: "database_wf view" using inv assms(5) by (auto simp: cache_inv_def)
  have rows: "rows_wf (t_rows view)" using wf by (simp add: database_wf_iff)
  have exact: "cache_wf st \<and> map_of (cs_by_id st) = entry_at view" if "current_state view view (sy_cache s) may = Some st" for st may
    using refreshed [OF wf wf that _ journal.own_content] inv assms(5) by (auto simp: cache_inv_def)
  show ?thesis
    using exact select_exact [OF rows] by (auto simp: load_active_candidates_def Let_def split: option.splits)
qed

definition demo_trow :: "string \<Rightarrow> rat \<Rightarrow> particle_row" where
  "demo_trow i c = (from_model demo_rules ((demo_particle i ''x'')\<lparr>p_confidence := c\<rparr>) (Some [1]))"

definition demo_db :: database where
  "demo_db = \<lparr>t_rows = [(''a'', (1, demo_trow ''a'' 1))], t_links = [(''b'', ''u'')], t_journal = []\<rparr>"

text \<open>A read inside a transaction that is rolled back, and a later write that reuses its \<^verbatim>\<open>seq\<close>.\<close>

definition demo_events :: "cache_event list" where
  "demo_events = [BeginWrite, Write (InsertRow (demo_trow ''b'' (1/2))), ReadOwn 0 None, RollbackWrite,
     Write (DeleteRow ''a''), Write (InsertRow (demo_trow ''c'' 1))]"

theorem cache_is_transparent_witness:
  "map (p_id \<circ> fst) (fst (load_active_candidates demo_rules True
     (sy_committed (cache_run of_nat demo_rules True demo_events demo_db))
     (sy_committed (cache_run of_nat demo_rules True demo_events demo_db))
     (sy_cache (cache_run of_nat demo_rules True demo_events demo_db)) 0 None)) = [''c'']"
proof -
  let ?s = "cache_run of_nat demo_rules True demo_events demo_db"
  note run = cache_run_def cache_start_def demo_events_def demo_db_def demo_trow_def from_model_def demo_particle_def
    next_rowid_def install_journal_def Let_def
  have "sy_drawn ?s = 4" by (simp add: run)
  moreover have "t_rows (sy_committed ?s) = [(''c'', (1, demo_trow ''c'' 1))]" by (simp add: run)
  moreover have "map (p_id \<circ> fst) (get_active_particles_with_embeddings demo_rules [(1, demo_trow ''c'' 1)] ls 0 None) = [''c'']" for ls
    by (simp add: get_active_particles_with_embeddings_def demo_trow_def from_model_def demo_particle_def stored_model_def demo_rules_def)
  moreover have "database_wf demo_db" by (simp add: database_wf_def run)
  moreover have "\<forall>e \<in> set demo_events. event_named e" by (simp add: run)
  moreover have "inj_on (of_nat :: nat \<Rightarrow> token) {..<4}"
    by (auto simp: inj_on_def word_of_nat_eq_iff take_bit_nat_eq_self)
  ultimately show ?thesis
    using cache_is_transparent [of demo_db demo_events ?s of_nat demo_rules True "sy_committed ?s" 0 None]
    by (simp add: views_def)
qed

end
