(* ===== verification/Document_Supersession.thy ===== *)
theory Document_Supersession
  imports Request_Origin Key_Rules
begin

text \<open>
  \<^verbatim>\<open>src/particles/corpus/supersession.py\<close>: which source document supersedes which. The ADR adapter
  reads a relation from a document's front matter, the relation is stamped on the corpus entry,
  and \<^verbatim>\<open>entry_supersedes\<close> follows it transitively inside one document collection.

  Text decoded from bytes or from percent escapes is a list of code points (\<open>utext\<close>). A stored JSON
  column is the value it parses to, or \<open>Malformed\<close>. The YAML loader (\<^verbatim>\<open>particles.core.bounded_yaml\<close>)
  is the parameter \<open>load\<close>; the order in which Python visits a \<^verbatim>\<open>set\<close> is the parameter \<open>ord\<close>. A result
  of type \<open>option\<close> around a returned value is \<^const>\<open>None\<close> where the code raises.
\<close>

type_synonym utext = "nat list"

section \<open>The relation and its column\<close>

record document_relation =
  rel_key :: string
  rel_supersedes :: "string list"
  rel_superseded_by :: "string list"

datatype json_column = Malformed | Parsed json

definition to_json :: "document_relation \<Rightarrow> json_column" where
  "to_json r =
     Parsed (JObj [(''key'', JStr (rel_key r)),
                   (''supersedes'', JList (map JStr (rel_supersedes r))),
                   (''superseded_by'', JList (map JStr (rel_superseded_by r)))])"

text \<open>The truth value Python gives a parsed JSON value.\<close>

fun truthy :: "json \<Rightarrow> bool" where
  "truthy JNull = False"
| "truthy (JBool b) = b"
| "truthy (JInt i) = (i \<noteq> 0)"
| "truthy (JFloat s) = (s \<noteq> ''0.0'' \<and> s \<noteq> ''-0.0'')"
| "truthy (JStr s) = (s \<noteq> [])"
| "truthy (JList xs) = (xs \<noteq> [])"
| "truthy (JObj kvs) = (kvs \<noteq> [])"

definition key_list :: "(string \<times> json) list \<Rightarrow> string \<Rightarrow> string list option" where
  "key_list obj name =
     map_option (\<lambda>ks. map py_str (filter truthy ks))
       (case map_of obj name of None \<Rightarrow> Some [] | Some v \<Rightarrow> py_iter v)"

definition from_json :: "json_column \<Rightarrow> document_relation option option" where
  "from_json raw =
     (case raw of
        Parsed (JObj obj) \<Rightarrow>
          if \<not> truthy (get_or_none obj ''key'') then Some None
          else do {
            sup \<leftarrow> key_list obj ''supersedes'';
            subs \<leftarrow> key_list obj ''superseded_by'';
            Some (Some \<lparr>rel_key = py_str (get_or_none obj ''key''), rel_supersedes = sup,
                        rel_superseded_by = subs\<rparr>)
          }
      | _ \<Rightarrow> Some None)"

section \<open>The genre adapter\<close>

datatype yaml =
    YNull | YBool bool | YInt int | YStr string | YList "yaml list"
  | YMap "(yaml \<times> yaml) list" | YOther string

datatype yaml_outcome = YAML_ERROR | YAML_VALUE yaml

type_synonym yaml_load = "utext \<Rightarrow> yaml_outcome"

definition is_cont :: "nat \<Rightarrow> bool" where
  "is_cont b = (128 \<le> b \<and> b \<le> 191)"

text \<open>
  How many bytes a UTF-8 sequence starting with \<open>b\<close> has, and the bytes that may come second; \<open>0\<close>
  for a byte that starts none.
\<close>

definition utf8_len :: "nat \<Rightarrow> nat" where
  "utf8_len b =
     (if b < 128 then 1 else if 194 \<le> b \<and> b \<le> 223 then 2 else if 224 \<le> b \<and> b \<le> 239 then 3
      else if 240 \<le> b \<and> b \<le> 244 then 4 else 0)"

definition second_ok :: "nat \<Rightarrow> nat \<Rightarrow> bool" where
  "second_ok b c =
     (is_cont c \<and> (b = 224 \<longrightarrow> 160 \<le> c) \<and> (b = 237 \<longrightarrow> c \<le> 159) \<and> (b = 240 \<longrightarrow> 144 \<le> c) \<and> (b = 244 \<longrightarrow> c \<le> 143))"

text \<open>The bytes of the well-formed beginning of the sequence that starts with \<open>b\<close>, at most \<open>n\<close> of them.\<close>

definition utf8_take :: "nat \<Rightarrow> nat list \<Rightarrow> nat list" where
  "utf8_take b bs =
     (case bs of
        c # cs \<Rightarrow>
          if 2 \<le> utf8_len b \<and> second_ok b c
          then c # takeWhile is_cont (take (utf8_len b - 2) cs) else []
      | [] \<Rightarrow> [])"

definition utf8_value :: "nat \<Rightarrow> nat list \<Rightarrow> nat" where
  "utf8_value b cs =
     foldl (\<lambda>v c. v * 64 + (c - 128)) (b mod 2 ^ (7 - utf8_len b)) cs"

lemma utf8_take_le: "length (utf8_take b bs) \<le> length bs"
proof (cases bs)
  case (Cons c cs)
  have "length (takeWhile is_cont (take n cs)) \<le> length cs" for n
    using length_takeWhile_le [of is_cont "take n cs"] by simp
  with Cons show ?thesis by (simp add: utf8_take_def)
qed (simp add: utf8_take_def)

text \<open>
  \<^verbatim>\<open>bytes.decode("utf-8")\<close>. An ill-formed sequence raises (\<open>replace = False\<close>) or becomes one
  U+FFFD for its longest well-formed beginning (\<open>replace = True\<close>).
\<close>

function utf8_decode :: "bool \<Rightarrow> nat list \<Rightarrow> utext option" where
  "utf8_decode replace [] = Some []"
| "utf8_decode replace (b # bs) =
     (if utf8_len b = 1 then map_option (\<lambda>t. b # t) (utf8_decode replace bs)
      else
        let cs = utf8_take b bs;
            complete = (utf8_len b = Suc (length cs) \<and> 2 \<le> utf8_len b)
        in if complete then map_option (\<lambda>t. utf8_value b cs # t) (utf8_decode replace (drop (length cs) bs))
           else if replace then map_option (\<lambda>t. 65533 # t) (utf8_decode replace (drop (length cs) bs))
           else None)"
  by pat_completeness auto
termination
  by (relation "measure (\<lambda>(_, bs). length bs)") auto

definition codes :: "string \<Rightarrow> utext" where
  "codes s = map code_of s"

definition text_isspace :: "nat \<Rightarrow> bool" where
  "text_isspace n =
     ((9 \<le> n \<and> n \<le> 13) \<or> (28 \<le> n \<and> n \<le> 32) \<or> (8192 \<le> n \<and> n \<le> 8202)
      \<or> n \<in> {133, 160, 5760, 8232, 8233, 8239, 8287, 12288})"

definition has_prefix :: "utext \<Rightarrow> utext \<Rightarrow> bool" where
  "has_prefix p t = (take (length p) t = p)"

text \<open>\<^verbatim>\<open>text.find(p)\<close> in \<open>t\<close>, counted from its start.\<close>

fun find_in :: "utext \<Rightarrow> utext \<Rightarrow> nat option" where
  "find_in p [] = (if p = [] then Some 0 else None)"
| "find_in p (c # cs) = (if has_prefix p (c # cs) then Some 0 else map_option Suc (find_in p cs))"

definition FENCE :: utext where
  "FENCE = [45, 45, 45]"

definition parse_frontmatter :: "yaml_load \<Rightarrow> nat list \<Rightarrow> (yaml \<times> yaml) list option" where
  "parse_frontmatter load content =
     (case utf8_decode False (take 8192 content) of
        None \<Rightarrow> None
      | Some txt \<Rightarrow>
          if \<not> has_prefix (FENCE @ [10]) txt \<and> \<not> has_prefix (FENCE @ [13, 10]) txt then None
          else
            let body = drop (if has_prefix (FENCE @ [10]) txt then 4 else 5) txt in
            (case find_in (10 # FENCE) body of
               None \<Rightarrow> None
             | Some close \<Rightarrow>
                 let block = take close body in
                 if list_all text_isspace block then None
                 else (case load block of YAML_VALUE (YMap meta) \<Rightarrow> Some meta | _ \<Rightarrow> None)))"

definition ADR_KEY_PREFIX :: string where
  "ADR_KEY_PREFIX = ''adr''"

definition strip_set :: "char list \<Rightarrow> string \<Rightarrow> string" where
  "strip_set cs s = rev (dropWhile (\<lambda>c. c \<in> set cs) (rev (dropWhile (\<lambda>c. c \<in> set cs) s)))"

definition normalise_adr_id :: "yaml \<Rightarrow> string option" where
  "normalise_adr_id value =
     (case (case value of YStr s \<Rightarrow> Some s | YInt i \<Rightarrow> Some (show_int i) | _ \<Rightarrow> None) of
        None \<Rightarrow> None
      | Some s \<Rightarrow>
          let token = strip_set '' :-'' (removeprefix ''adr'' (py_lower (strip s))) in
          if token = [] then None else Some (ADR_KEY_PREFIX @ '':'' @ token))"

definition coerce_id_list :: "yaml \<Rightarrow> string list" where
  "coerce_id_list value =
     (case value of
        YNull \<Rightarrow> []
      | _ \<Rightarrow> List.map_filter normalise_adr_id (case value of YList items \<Rightarrow> items | _ \<Rightarrow> [value]))"

text \<open>
  \<^verbatim>\<open>str.upper\<close>, up to the two Latin-1 letters whose capital is not in Latin-1 (U+00B5 and U+00FF),
  which are left as they are.
\<close>

definition upper_char :: "char \<Rightarrow> string" where
  "upper_char c =
     (let n = code_of c in
      if n = 223 then ''SS''
      else if (97 \<le> n \<and> n \<le> 122) \<or> (224 \<le> n \<and> n \<le> 254 \<and> n \<noteq> 247) then [char_of (n - 32)] else [c])"

definition meta_get :: "(yaml \<times> yaml) list \<Rightarrow> string \<Rightarrow> yaml" where
  "meta_get meta name = (case map_of meta (YStr name) of None \<Rightarrow> YNull | Some v \<Rightarrow> v)"

definition adr_relation :: "(yaml \<times> yaml) list \<Rightarrow> document_relation option" where
  "adr_relation meta =
     (case meta_get meta ''type'' of
        YStr doc_type \<Rightarrow>
          if concat (map upper_char (strip doc_type)) \<noteq> ''ADR'' then None
          else (case normalise_adr_id (meta_get meta ''id'') of
                  None \<Rightarrow> None
                | Some key \<Rightarrow>
                    Some \<lparr>rel_key = key, rel_supersedes = coerce_id_list (meta_get meta ''supersedes''),
                          rel_superseded_by = coerce_id_list (meta_get meta ''superseded_by'')\<rparr>)
      | _ \<Rightarrow> None)"

definition document_relation_for_content :: "yaml_load \<Rightarrow> nat list \<Rightarrow> document_relation option" where
  "document_relation_for_content load content =
     (case parse_frontmatter load content of None \<Rightarrow> None | Some meta \<Rightarrow> adr_relation meta)"

section \<open>Collections\<close>

text \<open>
  \<^verbatim>\<open>urllib.parse.urlparse\<close> as far as its scheme, authority and path; \<^const>\<open>None\<close> when it raises.
  For the schemes that have parameters the part after \<^verbatim>\<open>;\<close> in the last segment is not the path.
\<close>

definition USES_PARAMS :: "string list" where
  "USES_PARAMS =
     [[], ''ftp'', ''hdl'', ''prospero'', ''http'', ''https'', ''shttp'', ''rtsp'', ''rtsps'', ''sip'',
      ''sips'', ''mms'', ''sftp'', ''tel'']"

definition drop_params :: "string \<Rightarrow> string" where
  "drop_params p =
     (let seg = rev (takeWhile (\<lambda>c. c \<noteq> CHR ''/'') (rev p))
      in take (length p - length seg) p @ before (CHR '';'') seg)"

definition urlparse :: "string \<Rightarrow> (string \<times> string \<times> string) option" where
  "urlparse url =
     (case urlsplit_netloc url of
        None \<Rightarrow> None
      | Some netloc \<Rightarrow>
          let cleaned = filter (\<lambda>c. code_of c \<notin> {9, 10, 13}) (dropWhile (\<lambda>c. code_of c \<le> 32) url);
              rest = drop_scheme cleaned;
              scheme = (if rest = cleaned then [] else py_lower (before (CHR '':'') cleaned));
              tail = (if startswith ''//'' rest
                      then dropWhile (\<lambda>c. c \<notin> {CHR ''/'', CHR ''?'', CHR ''#''}) (drop 2 rest) else rest);
              path = before (CHR ''?'') (before (CHR ''#'') tail)
          in Some (scheme, netloc, if scheme \<in> set USES_PARAMS then drop_params path else path))"

text \<open>\<^verbatim>\<open>urllib.parse.unquote\<close>: escapes inside a run of ASCII characters are bytes of UTF-8.\<close>

fun unquote_to_bytes :: "string \<Rightarrow> nat list" where
  "unquote_to_bytes (p # a # b # cs) =
     (if p = CHR ''%'' \<and> is_hex_digit a \<and> is_hex_digit b
      then (digit_value a * 16 + digit_value b) # unquote_to_bytes cs
      else code_of p # unquote_to_bytes (a # b # cs))"
| "unquote_to_bytes cs = map code_of cs"

definition is_ascii_char :: "char \<Rightarrow> bool" where
  "is_ascii_char c = (code_of c < 128)"

function unquote :: "string \<Rightarrow> utext" where
  "unquote [] = []"
| "unquote (c # cs) =
     (if is_ascii_char c
      then the (utf8_decode True (unquote_to_bytes (takeWhile is_ascii_char (c # cs))))
             @ unquote (dropWhile is_ascii_char cs)
      else code_of c # unquote cs)"
  by pat_completeness auto
termination
  by (relation "measure length") (auto simp: le_imp_less_Suc length_dropWhile_le)

text \<open>
  \<^verbatim>\<open>PurePosixPath(text)\<close> as its root (one slash, or exactly two) and its parts; \<^verbatim>\<open>parent\<close> drops the
  last part, if there is one.
\<close>

definition posix_root :: "utext \<Rightarrow> utext \<times> utext" where
  "posix_root t =
     (if take 1 t \<noteq> [47] then ([], t)
      else if take 1 (drop 1 t) \<noteq> [47] \<or> take 1 (drop 2 t) = [47] then ([47], drop 1 t)
      else ([47, 47], drop 2 t))"

definition posix_parts :: "utext \<Rightarrow> utext list" where
  "posix_parts t = filter (\<lambda>x. x \<noteq> [] \<and> x \<noteq> [46]) (split_on 47 (snd (posix_root t)))"

definition posix_str :: "utext \<Rightarrow> utext list \<Rightarrow> utext" where
  "posix_str root parts = (let s = root @ join_with [47] parts in if s = [] then [46] else s)"

definition collection_root :: "string \<Rightarrow> utext" where
  "collection_root path =
     (if path = [] then []
      else let t = unquote path in posix_str (fst (posix_root t)) (butlast (butlast (posix_parts t))))"

record corpus_row =
  row_entry_id :: string
  row_uri_r :: "string option"
  row_deposited_by :: string
  row_source_type :: string
  document_supersession_json :: "json_column option"

type_synonym lineage = "string \<times> string \<times> string \<times> utext"
type_synonym doc_node = "lineage \<times> string"

definition document_lineage :: "corpus_row \<Rightarrow> lineage option" where
  "document_lineage row =
     (case urlparse (case row_uri_r row of None \<Rightarrow> [] | Some u \<Rightarrow> u) of
        None \<Rightarrow> None
      | Some (scheme, netloc, path) \<Rightarrow>
          Some (row_deposited_by row, row_source_type row, scheme @ ''://'' @ netloc, collection_root path))"

section \<open>The relation store\<close>

definition get_row :: "corpus_row list \<Rightarrow> string \<Rightarrow> corpus_row option" where
  "get_row tbl eid = List.find (\<lambda>r. row_entry_id r = eid) tbl"

definition set_document_relation ::
  "corpus_row list \<Rightarrow> string \<Rightarrow> document_relation option \<Rightarrow> corpus_row list" where
  "set_document_relation tbl eid relation =
     (case get_row tbl eid of
        None \<Rightarrow> tbl
      | Some row \<Rightarrow>
          let new_value = map_option to_json relation in
          if document_supersession_json row \<noteq> new_value
          then map (\<lambda>r. if row_entry_id r = eid then r\<lparr>document_supersession_json := new_value\<rparr> else r) tbl
          else tbl)"

definition node_of :: "corpus_row list \<Rightarrow> string \<Rightarrow> doc_node option option" where
  "node_of tbl eid =
     (case get_row tbl eid of
        None \<Rightarrow> Some None
      | Some row \<Rightarrow>
          (case document_supersession_json row of
             None \<Rightarrow> Some None
           | Some raw \<Rightarrow>
               (case from_json raw of
                  None \<Rightarrow> None
                | Some None \<Rightarrow> Some None
                | Some (Some rel) \<Rightarrow> map_option (\<lambda>l. Some (l, rel_key rel)) (document_lineage row))))"

type_synonym relation_row = "string \<times> lineage \<times> document_relation"

fun relation_rows :: "corpus_row list \<Rightarrow> relation_row list option" where
  "relation_rows [] = Some []"
| "relation_rows (row # tbl) =
     (case document_supersession_json row of
        None \<Rightarrow> relation_rows tbl
      | Some raw \<Rightarrow>
          (case from_json raw of
             None \<Rightarrow> None
           | Some None \<Rightarrow> relation_rows tbl
           | Some (Some rel) \<Rightarrow>
               (case document_lineage row of
                  None \<Rightarrow> None
                | Some l \<Rightarrow> map_option (\<lambda>rs. (row_entry_id row, l, rel) # rs) (relation_rows tbl))))"

type_synonym doc_graph = "(doc_node, doc_node list) dict"

text \<open>\<^verbatim>\<open>graph.setdefault(n, set()).add(m)\<close>; a set is a list without repetition.\<close>

definition add_edge :: "doc_node \<Rightarrow> doc_node \<Rightarrow> doc_graph \<Rightarrow> doc_graph" where
  "add_edge n m g = AList.update n (List.insert m (case map_of g n of None \<Rightarrow> [] | Some ms \<Rightarrow> ms)) g"

definition add_relation :: "relation_row \<Rightarrow> doc_graph \<Rightarrow> doc_graph" where
  "add_relation row g =
     (case row of (_, l, rel) \<Rightarrow>
        fold (\<lambda>k. add_edge (l, k) (l, rel_key rel)) (rel_superseded_by rel)
          (fold (\<lambda>k. add_edge (l, rel_key rel) (l, k)) (rel_supersedes rel) g))"

definition graph_of :: "relation_row list \<Rightarrow> doc_graph" where
  "graph_of rows = fold add_relation rows []"

type_synonym set_order = "doc_node list \<Rightarrow> doc_node list"

definition successors :: "set_order \<Rightarrow> doc_graph \<Rightarrow> doc_node \<Rightarrow> doc_node list" where
  "successors ord g n = (case map_of g n of None \<Rightarrow> [] | Some ms \<Rightarrow> ord ms)"

section \<open>The two walks\<close>

lemma successors_outside: "n \<notin> fst ` set g \<Longrightarrow> successors ord g n = []"
  by (auto simp: successors_def dest!: map_of_SomeD split: option.splits intro: rev_image_eqI)

text \<open>What makes both loops end: each new node of the graph is expanded once.\<close>

definition walk_measure :: "(doc_graph \<times> doc_node list \<times> doc_node list) \<Rightarrow> nat \<times> nat" where
  "walk_measure = (\<lambda>(g, seen, queue). (card (fst ` set g - set seen), length queue))"

lemma walk_measure_step:
  assumes "n \<notin> set seen"
  shows "(walk_measure (g, n # seen, queue @ successors ord g n), walk_measure (g, seen, n # queue))
           \<in> less_than <*lex*> less_than"
proof (cases "n \<in> fst ` set g")
  case True
  then have "card (fst ` set g - set (n # seen)) < card (fst ` set g - set seen)"
    using assms by (intro psubset_card_mono) auto
  then show ?thesis by (simp add: walk_measure_def)
next
  case False
  then have "fst ` set g - set (n # seen) = fst ` set g - set seen" by auto
  with False show ?thesis by (simp add: walk_measure_def successors_outside)
qed

lemma walk_measure_skip:
  "(walk_measure (g, seen, queue), walk_measure (g, seen, n # queue)) \<in> less_than <*lex*> less_than"
  by (simp add: walk_measure_def)

text \<open>The loop of \<^verbatim>\<open>entry_supersedes\<close>: does the walk meet \<open>dst\<close>?\<close>

function walk_meets :: "set_order \<Rightarrow> doc_graph \<Rightarrow> doc_node \<Rightarrow> doc_node list \<Rightarrow> doc_node list \<Rightarrow> bool" where
  "walk_meets ord g dst seen [] = False"
| "walk_meets ord g dst seen (n # queue) =
     (if n = dst then True
      else if n \<in> set seen then walk_meets ord g dst seen queue
      else walk_meets ord g dst (n # seen) (queue @ successors ord g n))"
  by pat_completeness auto
termination
  by (relation "inv_image (less_than <*lex*> less_than) (\<lambda>(ord, g, dst, seen, queue). walk_measure (g, seen, queue))")
    (auto simp: walk_measure_step walk_measure_skip)

definition entry_supersedes :: "set_order \<Rightarrow> corpus_row list \<Rightarrow> string \<Rightarrow> string \<Rightarrow> bool option" where
  "entry_supersedes ord tbl superseding superseded =
     do {
       src \<leftarrow> node_of tbl superseding;
       dst \<leftarrow> node_of tbl superseded;
       (case (src, dst) of
          (Some s, Some d) \<Rightarrow>
            if fst s \<noteq> fst d \<or> s = d then Some False
            else do {
              rows \<leftarrow> relation_rows tbl;
              let g = graph_of rows;
              Some (map_of g s \<noteq> None \<and> walk_meets ord g d [s] (successors ord g s))
            }
        | _ \<Rightarrow> Some False)
     }"

text \<open>The inner loop of \<^verbatim>\<open>iter_supersession_entry_pairs\<close>: the nodes it visits, in order.\<close>

function walk_nodes :: "set_order \<Rightarrow> doc_graph \<Rightarrow> doc_node list \<Rightarrow> doc_node list \<Rightarrow> doc_node list" where
  "walk_nodes ord g seen [] = []"
| "walk_nodes ord g seen (n # queue) =
     (if n \<in> set seen then walk_nodes ord g seen queue
      else n # walk_nodes ord g (n # seen) (queue @ successors ord g n))"
  by pat_completeness auto
termination
  by (relation "inv_image (less_than <*lex*> less_than) (\<lambda>(ord, g, seen, queue). walk_measure (g, seen, queue))")
    (auto simp: walk_measure_step walk_measure_skip)

definition entries_of :: "relation_row list \<Rightarrow> doc_node \<Rightarrow> string list" where
  "entries_of rows n = map fst (filter (\<lambda>(_, l, rel). (l, rel_key rel) = n) rows)"

text \<open>\<^verbatim>\<open>entry_node\<close>: a dict from entry to node, in insertion order, the last assignment kept.\<close>

definition entry_nodes :: "relation_row list \<Rightarrow> (string, doc_node) dict" where
  "entry_nodes rows = fold (\<lambda>(eid, l, rel). AList.update eid (l, rel_key rel)) rows []"

definition iter_supersession_entry_pairs :: "set_order \<Rightarrow> corpus_row list \<Rightarrow> (string \<times> string) list option" where
  "iter_supersession_entry_pairs ord tbl =
     map_option
       (\<lambda>rows. let g = graph_of rows in
          concat (map (\<lambda>(sup, src).
              if map_of g src = None then []
              else concat (map (\<lambda>n. map (Pair sup) (filter (\<lambda>sub. sub \<noteq> sup) (entries_of rows n)))
                          (walk_nodes ord g [src] (successors ord g src))))
            (entry_nodes rows)))
       (relation_rows tbl)"

section \<open>What the walks compute\<close>

text \<open>The specification: the edges the documents declare, each inside the collection that declares it.\<close>

fun declared_by :: "relation_row \<Rightarrow> (doc_node \<times> doc_node) set" where
  "declared_by (_, l, rel) =
     (\<lambda>k. ((l, rel_key rel), (l, k))) ` set (rel_supersedes rel) \<union>
     (\<lambda>k. ((l, k), (l, rel_key rel))) ` set (rel_superseded_by rel)"

definition declares :: "relation_row list \<Rightarrow> (doc_node \<times> doc_node) set" where
  "declares rows = (\<Union>row \<in> set rows. declared_by row)"

definition row_nodes :: "relation_row list \<Rightarrow> (string, doc_node) dict" where
  "row_nodes rows = map (\<lambda>(eid, l, rel). (eid, (l, rel_key rel))) rows"

definition edges :: "doc_graph \<Rightarrow> (doc_node \<times> doc_node) set" where
  "edges g = {(n, m). \<exists>ms. map_of g n = Some ms \<and> m \<in> set ms}"

lemma edges_add_edge [simp]: "edges (add_edge n m g) = insert (n, m) (edges g)"
  by (auto simp: edges_def add_edge_def split: option.splits if_splits)

lemma edges_fold_add_edge:
  "edges (fold (\<lambda>k. add_edge (f k) (h k)) ks g) = (\<lambda>k. (f k, h k)) ` set ks \<union> edges g"
  by (induction ks arbitrary: g) auto

lemma edges_add_relation: "edges (add_relation row g) = declared_by row \<union> edges g"
  by (cases row) (simp add: add_relation_def edges_fold_add_edge Un_assoc Un_left_commute)

lemma edges_fold_relation: "edges (fold add_relation rows g) = declares rows \<union> edges g"
  by (induction rows arbitrary: g) (simp_all add: edges_add_relation declares_def Un_assoc Un_left_commute)

lemma edges_graph_of: "edges (graph_of rows) = declares rows"
  by (simp add: graph_of_def edges_fold_relation) (simp add: edges_def)

lemma declared_by_lineage: "(n, m) \<in> declared_by row \<Longrightarrow> fst n = fst (snd row) \<and> fst m = fst (snd row)"
  by (cases row) auto

lemma declares_lineage: "(n, m) \<in> declares rows \<Longrightarrow> fst n = fst m"
  unfolding declares_def using declared_by_lineage by fastforce

lemma declares_trancl_lineage: "(n, m) \<in> (declares rows)\<^sup>+ \<Longrightarrow> fst n = fst m"
  by (induction rule: trancl_induct) (auto dest: declares_lineage)

text \<open>The only thing the walks need of the order a set is visited in: it visits every element.\<close>

definition visits_all :: "set_order \<Rightarrow> bool" where
  "visits_all ord = (\<forall>ms. set (ord ms) = set ms)"

lemma set_successors: "visits_all ord \<Longrightarrow> set (successors ord g n) = edges g `` {n}"
  by (cases "map_of g n") (auto simp: successors_def visits_all_def edges_def)

lemma walk_nodes_disjoint: "distinct (walk_nodes ord g seen queue) \<and> set (walk_nodes ord g seen queue) \<inter> set seen = {}"
  by (induction ord g seen queue rule: walk_nodes.induct) auto

lemma closed_reach: "E `` S \<subseteq> S \<Longrightarrow> E\<^sup>* `` S = S"
  by (rule Image_closed_trancl)

lemma walk_nodes_reach:
  assumes "visits_all ord" "edges g `` set seen \<subseteq> set seen \<union> set queue"
  shows "set seen \<union> set (walk_nodes ord g seen queue) = (edges g)\<^sup>* `` (set seen \<union> set queue)"
  using assms
proof (induction ord g seen queue rule: walk_nodes.induct)
  case (1 ord g seen)
  then show ?case by (simp add: closed_reach)
next
  case (2 ord g seen n queue)
  note succ = set_successors [OF \<open>visits_all ord\<close>, of g n]
  show ?case
  proof (cases "n \<in> set seen")
    case True
    then have "edges g `` set seen \<subseteq> set seen \<union> set queue" using "2.prems" by auto
    with True "2.IH"(1) "2.prems"(1) show ?thesis by (simp add: insert_absorb)
  next
    case False
    have closed: "edges g `` set (n # seen) \<subseteq> set (n # seen) \<union> set (queue @ successors ord g n)"
      using "2.prems"(2) succ by auto
    have "set seen \<union> set (walk_nodes ord g seen (n # queue))
        = (edges g)\<^sup>* `` (set (n # seen) \<union> set (queue @ successors ord g n))"
      using "2.IH"(2) [OF False "2.prems"(1) closed] False by auto
    also have "\<dots> = (edges g)\<^sup>* `` (set seen \<union> set (n # queue))"
      using succ by (auto intro: converse_rtrancl_into_rtrancl)
    finally show ?thesis .
  qed
qed

lemma reach_others: "R\<^sup>* `` {s} - {s} = {m. m \<noteq> s \<and> (s, m) \<in> R\<^sup>+}"
  by (auto dest: rtranclD intro: trancl_into_rtrancl)

lemma walk_from:
  assumes "visits_all ord"
  shows "set (walk_nodes ord g [s] (successors ord g s)) = {m. m \<noteq> s \<and> (s, m) \<in> (edges g)\<^sup>+}"
proof -
  let ?W = "set (walk_nodes ord g [s] (successors ord g s))"
  have "set [s] \<union> ?W = (edges g)\<^sup>* `` (set [s] \<union> set (successors ord g s))"
    by (rule walk_nodes_reach [OF assms]) (simp add: set_successors [OF assms] subset_insertI)
  also have "\<dots> = (edges g)\<^sup>* `` {s}"
    by (rule equalityI) (auto simp: set_successors [OF assms] intro: converse_rtrancl_into_rtrancl)
  finally have "insert s ?W = (edges g)\<^sup>* `` {s}" by simp
  moreover have "s \<notin> ?W"
    using walk_nodes_disjoint [of ord g "[s]" "successors ord g s"] by simp
  ultimately have "?W = (edges g)\<^sup>* `` {s} - {s}"
    by (metis Diff_insert_absorb)
  then show ?thesis by (simp add: reach_others)
qed

lemma walk_meets_iff: "d \<notin> set seen \<Longrightarrow> walk_meets ord g d seen queue \<longleftrightarrow> d \<in> set (walk_nodes ord g seen queue)"
  by (induction ord g d seen queue rule: walk_meets.induct) auto

lemma trancl_edges_domain: "(s, d) \<in> (edges g)\<^sup>+ \<Longrightarrow> map_of g s \<noteq> None"
  by (auto dest!: tranclD simp: edges_def)

lemma walk_answer:
  assumes "visits_all ord" "s \<noteq> d"
  shows "map_of g s \<noteq> None \<and> walk_meets ord g d [s] (successors ord g s) \<longleftrightarrow> (s, d) \<in> (edges g)\<^sup>+"
  using assms trancl_edges_domain [of s d g] by (auto simp: walk_meets_iff walk_from)

section \<open>Reading the table\<close>

abbreviation ids :: "corpus_row list \<Rightarrow> string list" where
  "ids tbl \<equiv> map row_entry_id tbl"

lemma get_row_Cons: "get_row (r # tbl) a = (if row_entry_id r = a then Some r else get_row tbl a)"
  by (simp add: get_row_def)

lemma relation_rows_subseq: "relation_rows tbl = Some rows \<Longrightarrow> subseq (map fst rows) (ids tbl)"
proof (induction tbl arbitrary: rows)
  case (Cons r tbl)
  show ?case
  proof (cases "relation_rows tbl")
    case None
    with Cons.prems show ?thesis by (simp split: option.splits)
  next
    case (Some rows')
    with Cons.IH have "subseq (map fst rows') (ids tbl)" by blast
    with Some Cons.prems show ?thesis by (auto split: option.splits)
  qed
qed simp

lemma relation_rows_ids: "relation_rows tbl = Some rows \<Longrightarrow> fst ` set rows \<subseteq> set (ids tbl)"
  using relation_rows_subseq [of tbl rows] by (auto elim!: list_emb_set)

lemma relation_rows_distinct:
  "relation_rows tbl = Some rows \<Longrightarrow> distinct (ids tbl) \<Longrightarrow> distinct (map fst rows)"
  using relation_rows_subseq [of tbl rows] subseqs_distinctD [of "map fst rows" "ids tbl"] by simp

lemma fst_row_nodes [simp]: "map fst (row_nodes rows) = map fst rows"
  by (auto simp: row_nodes_def)

lemma row_nodes_Cons [simp]: "row_nodes ((eid, l, rel) # rows) = (eid, (l, rel_key rel)) # row_nodes rows"
  by (simp add: row_nodes_def)

lemma row_nodes_Nil [simp]: "row_nodes [] = []"
  by (simp add: row_nodes_def)

lemma map_of_row_nodes_None: "a \<notin> fst ` set rows \<Longrightarrow> map_of (row_nodes rows) a = None"
  by (metis fst_row_nodes image_set map_of_eq_None_iff)

lemma node_of_rows:
  "relation_rows tbl = Some rows \<Longrightarrow> distinct (ids tbl) \<Longrightarrow> node_of tbl a = Some (map_of (row_nodes rows) a)"
proof (induction tbl arbitrary: rows)
  case Nil
  then show ?case by (simp add: node_of_def get_row_def)
next
  case (Cons r tbl)
  have step: "node_of (r # tbl) a = (if row_entry_id r = a then node_of [r] a else node_of tbl a)"
    by (simp add: node_of_def get_row_Cons)
  have absent: "map_of (row_nodes rows') (row_entry_id r) = None" if "relation_rows tbl = Some rows'" for rows'
    using relation_rows_ids [OF that] Cons.prems(2) by (intro map_of_row_nodes_None) auto
  show ?case
    using Cons.prems Cons.IH absent
    by (auto simp: step node_of_def [of "[r]"] get_row_Cons split: option.splits)
qed

lemma entry_supersedes_rows:
  assumes "visits_all ord" "distinct (ids tbl)" "relation_rows tbl = Some rows"
  shows "entry_supersedes ord tbl a b = Some (\<exists>s d. map_of (row_nodes rows) a = Some s
            \<and> map_of (row_nodes rows) b = Some d \<and> s \<noteq> d \<and> (s, d) \<in> (declares rows)\<^sup>+)"
  using assms(3) declares_trancl_lineage [of _ _ rows]
  by (auto simp: entry_supersedes_def node_of_rows [OF assms(3,2)] walk_answer [OF assms(1)] edges_graph_of
      simp del: not_None_eq split: option.splits)

lemma update_fresh: "k \<notin> fst ` set al \<Longrightarrow> AList.update k v al = al @ [(k, v)]"
  by (induction al) auto

lemma entry_nodes_from:
  "distinct (map fst acc @ map fst rows) \<Longrightarrow>
   fold (\<lambda>(eid, l, rel). AList.update eid (l, rel_key rel)) rows acc = acc @ row_nodes rows"
proof (induction rows arbitrary: acc)
  case (Cons row rows)
  obtain eid l rel where row: "row = (eid, l, rel)" by (cases row)
  have fresh: "AList.update eid (l, rel_key rel) acc = acc @ [(eid, (l, rel_key rel))]"
    using Cons.prems row by (intro update_fresh) auto
  have "distinct (map fst (acc @ [(eid, (l, rel_key rel))]) @ map fst rows)"
    using Cons.prems row by auto
  then show ?case
    using Cons.IH by (simp add: row fresh)
qed simp

lemma entry_nodes_eq: "distinct (map fst rows) \<Longrightarrow> entry_nodes rows = row_nodes rows"
  unfolding entry_nodes_def by (subst entry_nodes_from) auto

lemma set_entries_of: "set (entries_of rows n) = {e. (e, n) \<in> set (row_nodes rows)}"
  by (force simp: entries_of_def row_nodes_def)

lemma pairs_rows:
  assumes "visits_all ord" "distinct (ids tbl)" "relation_rows tbl = Some rows"
  shows "map_option set (iter_supersession_entry_pairs ord tbl) =
           Some {(a, b). \<exists>s d. map_of (row_nodes rows) a = Some s \<and> map_of (row_nodes rows) b = Some d
                    \<and> s \<noteq> d \<and> (s, d) \<in> (declares rows)\<^sup>+}"
proof -
  let ?g = "graph_of rows"
  let ?pairs = "\<lambda>(sup, src). if map_of ?g src = None then []
       else concat (map (\<lambda>n. map (Pair sup) (filter (\<lambda>sub. sub \<noteq> sup) (entries_of rows n)))
                   (walk_nodes ord ?g [src] (successors ord ?g src)))"
  have dist: "distinct (map fst (row_nodes rows))"
    using relation_rows_distinct [OF assms(3,2)] by simp
  have one: "set (?pairs (a, s)) = {(a, b) | b d. b \<noteq> a \<and> (b, d) \<in> set (row_nodes rows) \<and> d \<noteq> s \<and> (s, d) \<in> (declares rows)\<^sup>+}"
    for a s
    using trancl_edges_domain [of s _ ?g]
    by (auto simp: walk_from [OF assms(1)] set_entries_of edges_graph_of simp del: not_None_eq) blast+
  have self: "b \<noteq> a" if "(a, s) \<in> set (row_nodes rows)" "(b, d) \<in> set (row_nodes rows)" "d \<noteq> s" for a b s d
    using that eq_key_imp_eq_value [OF dist] by blast
  have each: "set (?pairs p) = {(fst p, b) | b d. b \<noteq> fst p \<and> (b, d) \<in> set (row_nodes rows) \<and> d \<noteq> snd p
                \<and> (snd p, d) \<in> (declares rows)\<^sup>+}" for p
    using one [of "fst p" "snd p"] by (simp only: prod.collapse)
  have "set (concat (map ?pairs (row_nodes rows))) = (\<Union>p \<in> set (row_nodes rows). set (?pairs p))"
    by simp
  also have "\<dots> = {(a, b). \<exists>s d. (a, s) \<in> set (row_nodes rows) \<and> (b, d) \<in> set (row_nodes rows)
                    \<and> s \<noteq> d \<and> (s, d) \<in> (declares rows)\<^sup>+}" (is "?L = ?R")
  proof
    show "?L \<subseteq> ?R" unfolding each by fastforce
  next
    show "?R \<subseteq> ?L"
    proof
      fix x
      assume "x \<in> ?R"
      then obtain a b s d where x: "x = (a, b)" and "(a, s) \<in> set (row_nodes rows)" "(b, d) \<in> set (row_nodes rows)" "s \<noteq> d" "(s, d) \<in> (declares rows)\<^sup>+"
        by blast
      then have "(a, b) \<in> set (?pairs (a, s))" unfolding each using self [of a s b d] by (intro CollectI exI [of _ b] exI [of _ d]) auto
      with \<open>(a, s) \<in> set (row_nodes rows)\<close> show "x \<in> ?L" unfolding x by (rule UN_I)
    qed
  qed
  finally show ?thesis
    using assms(3) dist relation_rows_distinct [OF assms(3,2)]
    by (simp add: iter_supersession_entry_pairs_def entry_nodes_eq Let_def)
qed

section \<open>Foreign collections\<close>

lemma relation_rows_append:
  "relation_rows (xs @ ys) =
     (case relation_rows xs of None \<Rightarrow> None | Some a \<Rightarrow> map_option (\<lambda>b. a @ b) (relation_rows ys))"
  by (cases "relation_rows ys"; induction xs) (auto split: option.splits)

lemma node_lineage:
  "node_of tbl a = Some (Some (l, k)) \<Longrightarrow> \<exists>r. get_row tbl a = Some r \<and> document_lineage r = Some l"
  by (auto simp: node_of_def split: option.splits)

lemma trancl_foreign:
  assumes "(s, d) \<in> (D \<union> M)\<^sup>+" "f s \<noteq> l"
    and "\<And>x y. (x, y) \<in> D \<Longrightarrow> f x = f y" "\<And>x y. (x, y) \<in> M \<Longrightarrow> f x = l \<and> f y = l"
  shows "(s, d) \<in> D\<^sup>+ \<and> f d = f s"
  using assms(1)
proof (induction rule: trancl_induct)
  case (base y)
  then show ?case using assms(2-4) by force
next
  case (step y z)
  then show ?case using assms(2-4) by (metis Un_iff trancl.trancl_into_trancl)
qed

lemma declares_append [simp]: "declares (xs @ ys) = declares xs \<union> declares ys"
  by (simp add: declares_def)

lemma row_nodes_append [simp]: "row_nodes (xs @ ys) = row_nodes xs @ row_nodes ys"
  by (simp add: row_nodes_def)

lemma foreign_row_reach:
  assumes mid: "set mid \<subseteq> {(e, l', rel) | e rel. True}"
  shows "fst s \<noteq> l' \<or> fst d \<noteq> l' \<Longrightarrow>
    (s, d) \<in> (declares (rows1 @ mid @ rows2))\<^sup>+ \<longleftrightarrow> (s, d) \<in> (declares (rows1 @ rows2))\<^sup>+"
proof -
  let ?D = "declares (rows1 @ rows2)" and ?M = "declares mid"
  have un: "declares (rows1 @ mid @ rows2) = ?D \<union> ?M"
    by (simp add: Un_ac)
  assume "fst s \<noteq> l' \<or> fst d \<noteq> l'"
  show ?thesis
  proof
    assume path: "(s, d) \<in> (declares (rows1 @ mid @ rows2))\<^sup>+"
    then have "fst s \<noteq> l'"
      using \<open>fst s \<noteq> l' \<or> fst d \<noteq> l'\<close> declares_trancl_lineage by metis
    moreover have "fst x = l' \<and> fst y = l'" if "(x, y) \<in> ?M" for x y
      using that mid declared_by_lineage by (fastforce simp: declares_def)
    ultimately show "(s, d) \<in> ?D\<^sup>+"
      using trancl_foreign [of s d ?D ?M fst l'] path declares_lineage by (metis un)
  next
    assume "(s, d) \<in> ?D\<^sup>+"
    then show "(s, d) \<in> (declares (rows1 @ mid @ rows2))\<^sup>+"
      unfolding un by (rule trancl_mono) simp
  qed
qed

lemma relation_rows_single:
  "relation_rows [r] = Some mid \<Longrightarrow> mid = [] \<or> (\<exists>l rel. mid = [(row_entry_id r, l, rel)] \<and> document_lineage r = Some l)"
  by (auto split: option.splits)

lemma relation_rows_split:
  assumes "relation_rows (tbl1 @ r # tbl2) = Some rows"
  obtains rows1 mid rows2 where "rows = rows1 @ mid @ rows2" "relation_rows (tbl1 @ tbl2) = Some (rows1 @ rows2)"
    "mid = [] \<or> (\<exists>l rel. mid = [(row_entry_id r, l, rel)] \<and> document_lineage r = Some l)"
proof -
  have "relation_rows (tbl1 @ [r] @ tbl2) = Some rows" using assms by simp
  then obtain rows1 mid rows2 where "relation_rows tbl1 = Some rows1" "relation_rows [r] = Some mid"
      "relation_rows tbl2 = Some rows2" "rows = rows1 @ mid @ rows2"
    unfolding relation_rows_append by (auto simp del: relation_rows.simps split: option.splits)
  then show thesis
    using that relation_rows_single [of r mid] by (simp add: relation_rows_append del: relation_rows.simps)
qed

lemma get_row_other: "row_entry_id r \<noteq> a \<Longrightarrow> get_row (tbl1 @ r # tbl2) a = get_row (tbl1 @ tbl2) a"
  by (induction tbl1) (auto simp: get_row_def)

lemma get_row_self: "distinct (ids (tbl1 @ r # tbl2)) \<Longrightarrow> get_row (tbl1 @ r # tbl2) (row_entry_id r) = Some r"
  by (induction tbl1) (auto simp: get_row_def)

lemma foreign_row_inert:
  assumes ord: "visits_all ord" and dist: "distinct (ids (tbl1 @ r # tbl2))"
    and rows: "relation_rows (tbl1 @ r # tbl2) = Some rows"
    and owner: "get_row (tbl1 @ r # tbl2) a = Some ra" "document_lineage ra \<noteq> document_lineage r"
  shows "entry_supersedes ord (tbl1 @ r # tbl2) a b = entry_supersedes ord (tbl1 @ tbl2) a b \<and>
         entry_supersedes ord (tbl1 @ r # tbl2) b a = entry_supersedes ord (tbl1 @ tbl2) b a"
proof -
  obtain rows1 mid rows2 where split: "rows = rows1 @ mid @ rows2"
      and rest: "relation_rows (tbl1 @ tbl2) = Some (rows1 @ rows2)"
      and mid: "mid = [] \<or> (\<exists>l rel. mid = [(row_entry_id r, l, rel)] \<and> document_lineage r = Some l)"
    using relation_rows_split [OF rows] by metis
  have dist': "distinct (ids (tbl1 @ tbl2))" using dist by auto
  note full = entry_supersedes_rows [OF ord dist rows] and part = entry_supersedes_rows [OF ord dist' rest]
  show ?thesis
  proof (cases "mid = []")
    case True
    then show ?thesis using full part split by simp
  next
    case False
    then obtain l rel where m: "mid = [(row_entry_id r, l, rel)]" and lr: "document_lineage r = Some l"
      using mid by blast
    have "row_entry_id r \<notin> set (ids (tbl1 @ tbl2))" using dist by auto
    then have fresh: "row_entry_id r \<notin> fst ` set (rows1 @ rows2)"
      using relation_rows_ids [OF rest] by blast
    have nodes: "map_of (row_nodes rows) x =
        (if x = row_entry_id r then Some (l, rel_key rel) else map_of (row_nodes (rows1 @ rows2)) x)" for x
      using map_of_row_nodes_None [of "row_entry_id r" rows1] fresh
      by (simp add: split m map_add_def image_Un split: option.splits)
    have gone: "map_of (row_nodes (rows1 @ rows2)) (row_entry_id r) = None"
      using fresh by (rule map_of_row_nodes_None)
    have home: "fst s \<noteq> l" if "map_of (row_nodes rows) a = Some s" for s
      using node_lineage [of "tbl1 @ r # tbl2" a "fst s" "snd s"] node_of_rows [OF rows dist, of a] that owner lr
      by simp
    have a: "a \<noteq> row_entry_id r"
      using owner get_row_self [OF dist] by auto
    have reach: "(s, d) \<in> (declares rows)\<^sup>+ \<longleftrightarrow> (s, d) \<in> (declares (rows1 @ rows2))\<^sup>+"
      if "fst s \<noteq> l \<or> fst d \<noteq> l" for s d
      using foreign_row_reach [of mid l s d rows1 rows2] that m split by auto
    have same: "fst s = fst d" if "(s, d) \<in> (declares rows)\<^sup>+" for s d
      using declares_trancl_lineage [OF that] .
    show ?thesis
      unfolding full part option.inject
      using nodes gone home a reach same by (metis fst_conv option.distinct(1) option.inject)
  qed
qed

section \<open>Stamping a relation\<close>

definition stampable :: "document_relation \<Rightarrow> bool" where
  "stampable r = (rel_key r \<noteq> [] \<and> [] \<notin> set (rel_supersedes r) \<and> [] \<notin> set (rel_superseded_by r))"

lemma key_list_JStr: "[] \<notin> set ks \<Longrightarrow> map py_str (filter truthy (map JStr ks)) = ks"
  by (induction ks) (auto simp: py_str_def)

lemma from_to_json: "stampable r \<Longrightarrow> from_json (to_json r) = Some (Some r)"
  by (auto simp: from_json_def to_json_def get_or_none_def key_list_def py_iter_def key_list_JStr stampable_def
      py_str_def)

lemma normalise_not_Nil: "normalise_adr_id v = Some k \<Longrightarrow> k \<noteq> []"
  by (auto simp: normalise_adr_id_def Let_def split: option.splits if_splits)

lemma map_filter_not_Nil: "[] \<notin> set (List.map_filter normalise_adr_id items)"
  by (induction items) (auto split: option.splits dest: normalise_not_Nil)

lemma coerce_not_Nil: "[] \<notin> set (coerce_id_list v)"
  unfolding coerce_id_list_def by (cases v) (simp_all only: yaml.case map_filter_not_Nil list.set empty_iff simp_thms)

lemma adapter_stampable: "document_relation_for_content load content = Some rel \<Longrightarrow> stampable rel"
  using coerce_not_Nil
  by (auto simp: document_relation_for_content_def adr_relation_def stampable_def
      split: option.splits yaml.splits if_splits dest: normalise_not_Nil)

lemma get_row_map:
  "get_row (map (\<lambda>r. if row_entry_id r = e then r\<lparr>document_supersession_json := v\<rparr> else r) tbl) a =
     map_option (\<lambda>r. if a = e then r\<lparr>document_supersession_json := v\<rparr> else r) (get_row tbl a)"
  by (induction tbl) (auto simp: get_row_def)

lemma get_row_set:
  "get_row (set_document_relation tbl e rel) a =
     map_option (\<lambda>r. if a = e then r\<lparr>document_supersession_json := map_option to_json rel\<rparr> else r) (get_row tbl a)"
  by (cases "get_row tbl e"; cases "get_row tbl a"; cases "a = e")
    (auto simp: set_document_relation_def get_row_map Let_def)

lemma document_lineage_stamped [simp]:
  "document_lineage (r\<lparr>document_supersession_json := v\<rparr>) = document_lineage r"
  by (simp add: document_lineage_def split: option.splits prod.splits)

lemma node_of_stamped:
  assumes "get_row tbl e = Some row" "document_lineage row = Some l" "stampable rel"
  shows "node_of (set_document_relation tbl e (Some rel)) e = Some (Some (l, rel_key rel))"
  using assms by (simp add: node_of_def get_row_set from_to_json)

lemma node_of_unstamped: "a \<noteq> e \<Longrightarrow> node_of (set_document_relation tbl e rel) a = node_of tbl a"
  by (simp add: node_of_def get_row_set option.map_ident)

section \<open>A collection of three decisions and a foreign document\<close>

definition demo_row :: "string \<Rightarrow> string \<Rightarrow> string \<Rightarrow> string \<Rightarrow> string list \<Rightarrow> corpus_row" where
  "demo_row eid dep uri k ks =
     \<lparr>row_entry_id = eid, row_uri_r = Some uri, row_deposited_by = dep, row_source_type = ''MD'',
      document_supersession_json = Some (to_json \<lparr>rel_key = k, rel_supersedes = ks, rel_superseded_by = []\<rparr>)\<rparr>"

definition demo_docs :: "corpus_row list" where
  "demo_docs =
     [demo_row ''n'' ''me'' ''file:///r/a/n.md'' ''adr:3'' [''adr:2''],
      demo_row ''m'' ''me'' ''file:///r/s/m.md'' ''adr:2'' [''adr:1''],
      demo_row ''o'' ''me'' ''file:///r/s/o.md'' ''adr:1'' []]"

definition demo_foreign :: corpus_row where
  "demo_foreign = demo_row ''x'' ''you'' ''file:///q/a/x.md'' ''adr:9'' [''adr:3'', ''adr:1'']"

abbreviation demo_lineage :: lineage where
  "demo_lineage \<equiv> (''me'', ''MD'', ''file://'', [47, 114])"

lemma demo_uris:
  "urlparse ''file:///r/a/n.md'' = Some (''file'', [], ''/r/a/n.md'')"
  "urlparse ''file:///r/s/m.md'' = Some (''file'', [], ''/r/s/m.md'')"
  "urlparse ''file:///r/s/o.md'' = Some (''file'', [], ''/r/s/o.md'')"
  "urlparse ''file:///q/a/x.md'' = Some (''file'', [], ''/q/a/x.md'')"
  by code_simp+

lemma demo_roots:
  "collection_root ''/r/a/n.md'' = [47, 114]" "collection_root ''/r/s/m.md'' = [47, 114]"
  "collection_root ''/r/s/o.md'' = [47, 114]" "collection_root ''/q/a/x.md'' = [47, 113]"
  by code_simp+

lemma demo_row_simps [simp]:
  "row_entry_id (demo_row e d u k ks) = e"
  "document_supersession_json (demo_row e d u k ks) =
     Some (to_json \<lparr>rel_key = k, rel_supersedes = ks, rel_superseded_by = []\<rparr>)"
  "document_lineage (demo_row e d u k ks) =
     map_option (\<lambda>(scheme, netloc, path). (d, ''MD'', scheme @ ''://'' @ netloc, collection_root path)) (urlparse u)"
  by (auto simp: demo_row_def document_lineage_def split: option.splits)

lemmas demo_facts = demo_docs_def demo_foreign_def demo_uris demo_roots from_to_json stampable_def

lemma demo_relation_rows:
  "relation_rows (demo_docs @ [demo_foreign]) =
     Some [(''n'', demo_lineage, \<lparr>rel_key = ''adr:3'', rel_supersedes = [''adr:2''], rel_superseded_by = []\<rparr>),
           (''m'', demo_lineage, \<lparr>rel_key = ''adr:2'', rel_supersedes = [''adr:1''], rel_superseded_by = []\<rparr>),
           (''o'', demo_lineage, \<lparr>rel_key = ''adr:1'', rel_supersedes = [], rel_superseded_by = []\<rparr>),
           (''x'', (''you'', ''MD'', ''file://'', [47, 113]),
             \<lparr>rel_key = ''adr:9'', rel_supersedes = [''adr:3'', ''adr:1''], rel_superseded_by = []\<rparr>)]"
  by (simp add: demo_facts)

lemma demo_distinct: "distinct (ids (demo_docs @ [demo_foreign]))"
  by (simp add: demo_facts)

abbreviation demo_rel :: "string \<Rightarrow> string list \<Rightarrow> document_relation" where
  "demo_rel k ks \<equiv> \<lparr>rel_key = k, rel_supersedes = ks, rel_superseded_by = []\<rparr>"

lemma demo_order: "visits_all rev" "visits_all (\<lambda>ms. ms)"
  by (simp_all add: visits_all_def)

lemma demo_chain:
  "((demo_lineage, ''adr:3''), (demo_lineage, ''adr:1''))
     \<in> (declares ((''n'', demo_lineage, demo_rel ''adr:3'' [''adr:2'']) #
                  (''m'', demo_lineage, demo_rel ''adr:2'' [''adr:1'']) # rows))\<^sup>+"
  (is "_ \<in> ?D\<^sup>+")
proof -
  have "((demo_lineage, ''adr:3''), (demo_lineage, ''adr:2'')) \<in> ?D"
    "((demo_lineage, ''adr:2''), (demo_lineage, ''adr:1'')) \<in> ?D"
    by (simp_all add: declares_def)
  then show ?thesis by (blast intro: trancl.intros)
qed

section \<open>The properties\<close>

text \<open>
  C11. \<^verbatim>\<open>entry_supersedes\<close> always answers when every stored relation can be read, whatever order Python
  visits its sets in, and it answers yes exactly when both entries carry a document node, the nodes
  differ, and a non-empty chain of declared edges (from either side's annotation, each inside the
  collection that declared it) leads from the first to the second; cycles included.
\<close>

theorem supersession_is_reachability:
  assumes "visits_all ord" "distinct (ids tbl)" "relation_rows tbl = Some rows"
  shows "entry_supersedes ord tbl a b =
           Some (\<exists>s d. map_of (row_nodes rows) a = Some s \<and> map_of (row_nodes rows) b = Some d \<and> s \<noteq> d
                   \<and> fst s = fst d \<and> (s, d) \<in> (declares rows)\<^sup>+)"
proof -
  have "(\<exists>s d. map_of (row_nodes rows) a = Some s \<and> map_of (row_nodes rows) b = Some d \<and> s \<noteq> d
            \<and> fst s = fst d \<and> (s, d) \<in> (declares rows)\<^sup>+) \<longleftrightarrow>
        (\<exists>s d. map_of (row_nodes rows) a = Some s \<and> map_of (row_nodes rows) b = Some d \<and> s \<noteq> d
            \<and> (s, d) \<in> (declares rows)\<^sup>+)"
    by (blast intro: declares_trancl_lineage)
  then show ?thesis by (simp only: entry_supersedes_rows [OF assms])
qed

theorem supersession_is_reachability_witness:
  "visits_all rev \<and> entry_supersedes rev (demo_docs @ [demo_foreign]) ''n'' ''o'' = Some True"
  using supersession_is_reachability [OF demo_order(1) demo_distinct demo_relation_rows, of "''n''" "''o''"]
    demo_chain demo_order by simp

text \<open>
  C12. \<^verbatim>\<open>iter_supersession_entry_pairs\<close>, which resolves the graph once for the whole sweep, lists exactly
  the pairs for which \<^verbatim>\<open>entry_supersedes\<close> answers yes.
\<close>

theorem sweep_pairs_are_supersessions:
  assumes "visits_all ord" "distinct (ids tbl)" "relation_rows tbl = Some rows"
  shows "map_option set (iter_supersession_entry_pairs ord tbl) =
           Some {(a, b). entry_supersedes ord tbl a b = Some True}"
  unfolding pairs_rows [OF assms] entry_supersedes_rows [OF assms] by simp

theorem sweep_pairs_are_supersessions_witness:
  "map_option set (iter_supersession_entry_pairs rev (demo_docs @ [demo_foreign])) =
     Some {(a, b). entry_supersedes rev (demo_docs @ [demo_foreign]) a b = Some True}"
  by (rule sweep_pairs_are_supersessions [OF demo_order(1) demo_distinct demo_relation_rows])

text \<open>
  C13. A document of another collection (another depositor, source type, authority or collection root)
  changes no answer about an entry, in either direction, whatever it declares: adding or removing
  its row leaves \<^verbatim>\<open>entry_supersedes\<close> the same on every pair that names the entry.
\<close>

theorem foreign_collection_inert:
  assumes "visits_all ord" "distinct (ids (tbl1 @ r # tbl2))"
    and "relation_rows (tbl1 @ r # tbl2) = Some rows"
    and "get_row (tbl1 @ r # tbl2) a = Some ra" "document_lineage ra \<noteq> document_lineage r"
  shows "entry_supersedes ord (tbl1 @ r # tbl2) a b = entry_supersedes ord (tbl1 @ tbl2) a b \<and>
         entry_supersedes ord (tbl1 @ r # tbl2) b a = entry_supersedes ord (tbl1 @ tbl2) b a"
  by (rule foreign_row_inert [OF assms])

theorem foreign_collection_inert_witness:
  "entry_supersedes rev (demo_docs @ [demo_foreign]) ''x'' ''n'' = entry_supersedes rev demo_docs ''x'' ''n''"
  using foreign_collection_inert [of rev demo_docs demo_foreign "[]" _ "''n''" _ "''x''",
      OF demo_order(1) demo_distinct demo_relation_rows]
  by (simp add: demo_facts get_row_def)

text \<open>
  C14. A relation read from a document's front matter survives its column: once stamped on an entry
  the entry's node is the document's key in the entry's own collection, the column reads back as
  the relation, and no other entry's node changes.
\<close>

theorem stamped_relation_read:
  assumes "document_relation_for_content load content = Some rel"
    and "get_row tbl e = Some row" "document_lineage row = Some l"
  shows "node_of (set_document_relation tbl e (Some rel)) e = Some (Some (l, rel_key rel)) \<and>
         from_json (to_json rel) = Some (Some rel) \<and>
         (a = e \<or> node_of (set_document_relation tbl e (Some rel)) a = node_of tbl a)"
  using adapter_stampable [OF assms(1)] node_of_stamped [OF assms(2,3)] node_of_unstamped from_to_json by blast

definition demo_load :: yaml_load where
  "demo_load block =
     YAML_VALUE (YMap [(YStr ''type'', YStr ''ADR''), (YStr ''id'', YStr ''4''), (YStr ''supersedes'', YInt 3)])"

definition demo_content :: "nat list" where
  "demo_content = [45, 45, 45, 10, 120, 10, 45, 45, 45]"

lemma demo_frontmatter:
  "parse_frontmatter demo_load demo_content =
     Some [(YStr ''type'', YStr ''ADR''), (YStr ''id'', YStr ''4''), (YStr ''supersedes'', YInt 3)]"
  by (simp add: parse_frontmatter_def demo_content_def utf8_len_def has_prefix_def FENCE_def text_isspace_def
      demo_load_def)

lemma demo_adapter:
  "document_relation_for_content demo_load demo_content = Some (demo_rel ''adr:4'' [''adr:3''])"
  unfolding document_relation_for_content_def demo_frontmatter option.case by code_simp

theorem stamped_relation_read_witness:
  "node_of (set_document_relation demo_docs ''o'' (Some (demo_rel ''adr:4'' [''adr:3'']))) ''o'' =
     Some (Some (demo_lineage, ''adr:4''))"
  using stamped_relation_read [OF demo_adapter, of demo_docs "''o''"]
  by (simp add: demo_facts get_row_def)

section \<open>Three corners of the adapter and the walk\<close>

lemma utf8_decode_cut: "list_all (\<lambda>b. b < 128) p \<Longrightarrow> utf8_decode False (p @ [195]) = None"
  by (induction p) (auto simp: utf8_len_def utf8_take_def)

text \<open>
  The 8 KiB bound cuts bytes, not characters: when the 8192nd byte is the first of a two-byte
  character the block is not decoded, so the document carries no relation whatever it declares.
\<close>

lemma cut_character_hides_relation:
  assumes "length p = 8191" "list_all (\<lambda>b. b < 128) p"
  shows "document_relation_for_content load (p @ 195 # rest) = None"
  using assms by (simp add: document_relation_for_content_def parse_frontmatter_def utf8_decode_cut)

text \<open>An id written as a number keeps the number's own digits, so it is not the zero-padded id.\<close>

lemma unquoted_id_is_another_document:
  "normalise_adr_id (YInt 17) = Some ''adr:17'' \<and> normalise_adr_id (YStr ''0017'') = Some ''adr:0017''"
  by (rule conjI; code_simp)

text \<open>
  One entry that carries a relation and whose URI \<^verbatim>\<open>urlparse\<close> rejects makes every comparison of two
  documents of one collection raise.
\<close>

lemma unreadable_uri_stops_every_lookup:
  assumes "relation_rows tbl = None" "node_of tbl a = Some (Some (l, k))" "node_of tbl b = Some (Some (l, k'))" "k \<noteq> k'"
  shows "entry_supersedes ord tbl a b = None"
  using assms by (simp add: entry_supersedes_def)

lemma unreadable_uri_row:
  assumes "r \<in> set tbl" "document_supersession_json r = Some raw" "from_json raw = Some (Some rel)" "document_lineage r = None"
  shows "relation_rows tbl = None"
  using assms by (induction tbl) (auto split: option.splits)

end
