(* ===== verification/Update_Supersession.thy ===== *)
theory Update_Supersession
  imports Complex_Main Particle_Model Document_Supersession "HOL-Library.Product_Lexorder" "HOL-Library.List_Lexorder"
    "HOL-Library.Char_ord"
begin

text \<open>
  \<^verbatim>\<open>src/particles/ingest/update_supersession.py\<close>: which stored claims a new claim about the same subject
  is paired with (\<^verbatim>\<open>SubjectIndex\<close>), and in which direction the newer of two claims may retire the
  older (\<^verbatim>\<open>update_order\<close>, rung 2.5 of the conflict ladder).

  The predicates of \<^verbatim>\<open>particles.core\<close> and \<^verbatim>\<open>particles.extraction\<close> and the cosine of
  \<^verbatim>\<open>particles.embeddings\<close> are the fields of \<open>claim_lib\<close>. Similarities are rationals. \<^verbatim>\<open>_authority\<close> raises
  where \<^verbatim>\<open>urlparse\<close> does, and so does \<^verbatim>\<open>update_order\<close>: an outer \<^const>\<open>None\<close>.
\<close>

record 'emb claim_lib =
  is_truth_apt :: "particle \<Rightarrow> bool"
  stance_holder :: "particle \<Rightarrow> string option"
  is_excluded_document_meta :: "(string, json) dict option \<Rightarrow> bool"
  is_non_asserted :: "(string, json) dict option \<Rightarrow> bool"
  is_generic_claim :: "string \<Rightarrow> bool"
  is_reanchor_restatement :: "particle \<Rightarrow> bool"
  cosine_similarity :: "'emb \<Rightarrow> 'emb \<Rightarrow> rat"

section \<open>The speaker key\<close>

record speaker_key =
  sk_subject_id :: string
  sk_forms :: "string list"
  sk_names :: "string list"

record subjects_config =
  persona_canonical_name :: string
  persona_aliases :: "string list"
  persona_openers :: "string list"

text \<open>\<^verbatim>\<open>str.casefold\<close> on Latin-1: lower case, and the sharp s as two letters. U+00B5 folds outside the range.\<close>

definition casefold :: "string \<Rightarrow> string" where
  "casefold s = concat (map (\<lambda>c. if code_of c = 223 then ''ss'' else [lower_char c]) s)"

definition speaker_forms :: "subjects_config \<Rightarrow> string list" where
  "speaker_forms cfg =
     (if persona_openers cfg = [] then []
      else
        let aliases = map (\<lambda>a. casefold (strip a)) (persona_aliases cfg);
            forms = casefold (strip (persona_canonical_name cfg))
              # filter (\<lambda>f. f \<in> set aliases) (map (\<lambda>a. casefold (strip a)) (persona_openers cfg))
        in map snd (sorted_list_of_set ((\<lambda>f. (- int (length f), f)) ` set (filter (\<lambda>f. f \<noteq> []) forms))))"

definition persona_names :: "subjects_config \<Rightarrow> string list" where
  "persona_names cfg =
     casefold (strip (persona_canonical_name cfg)) # map (\<lambda>a. casefold (strip a)) (persona_aliases cfg)"

text \<open>\<^verbatim>\<open>str.isalnum\<close> for one character: the Latin-1 letters, digits and fractions.\<close>

definition py_isalnum_char :: "char \<Rightarrow> bool" where
  "py_isalnum_char c =
     (let n = code_of c in
      (48 \<le> n \<and> n \<le> 57) \<or> (65 \<le> n \<and> n \<le> 90) \<or> (97 \<le> n \<and> n \<le> 122)
      \<or> (192 \<le> n \<and> n \<noteq> 215 \<and> n \<noteq> 247) \<or> n \<in> {170, 178, 179, 181, 185, 186, 188, 189, 190})"

text \<open>The typographic apostrophe of \<^verbatim>\<open>_POSSESSIVES\<close> is outside Latin-1; the ASCII one is character 39.\<close>

definition opens_on :: "string \<Rightarrow> string \<Rightarrow> bool" where
  "opens_on txt form =
     (let rest = drop (length form) txt in
      form \<noteq> [] \<and> casefold (take (length form) txt) = form \<and>
      (rest \<noteq> [] \<and> py_isspace (hd rest) \<or>
       take 2 rest = [char_of (39 :: nat), CHR ''s''] \<and> \<not> (drop 2 rest \<noteq> [] \<and> py_isalnum_char (hd (drop 2 rest)))))"

definition speaker_opener :: "string \<Rightarrow> string list \<Rightarrow> string option" where
  "speaker_opener content forms =
     (let txt = lstrip content in
      map_option (\<lambda>form. take (length form) txt) (List.find (opens_on txt) forms))"

record candidate =
  c_content :: string
  c_subjects :: "string list"
  c_claim :: "structured_claim option"

definition attach_speaker :: "candidate \<Rightarrow> string list \<Rightarrow> string list \<Rightarrow> string option \<times> candidate" where
  "attach_speaker cand forms names =
     (if list_ex (\<lambda>n. casefold (strip n) \<in> set names) (c_subjects cand) then (None, cand)
      else (case speaker_opener (c_content cand) forms of
              None \<Rightarrow> (None, cand)
            | Some spoken \<Rightarrow> (Some spoken, cand\<lparr>c_subjects := c_subjects cand @ [spoken]\<rparr>)))"

definition candidate_speaker_name :: "candidate \<Rightarrow> speaker_key option \<Rightarrow> string option" where
  "candidate_speaker_name cand speaker =
     (case speaker of
        None \<Rightarrow> None
      | Some sk \<Rightarrow>
          if speaker_opener (c_content cand) (sk_forms sk) = None then None
          else List.find (\<lambda>n. casefold (strip n) \<in> set (sk_names sk)) (c_subjects cand))"

definition candidate_subject_names :: "candidate \<Rightarrow> string list" where
  "candidate_subject_names cand =
     (let names = filter (\<lambda>n. n \<noteq> []) (map strip (c_subjects cand));
          about = (case c_claim cand of
                     None \<Rightarrow> None
                   | Some sc \<Rightarrow> List.find (\<lambda>n. casefold n = casefold (strip (claim_subject sc))) names)
      in case about of
           Some n \<Rightarrow> [n]
         | None \<Rightarrow> if length names = 1 then names else [])"

definition particle_subject_ids :: "particle \<Rightarrow> speaker_key option \<Rightarrow> string list" where
  "particle_subject_ids p speaker =
     (let keys = (case Option.bind (p_claim p) claim_subject_id of
                    Some sid \<Rightarrow> if sid \<noteq> [] then [sid] else if length (p_subject_ids p) = 1 then p_subject_ids p else []
                  | None \<Rightarrow> if length (p_subject_ids p) = 1 then p_subject_ids p else [])
      in case speaker of
           None \<Rightarrow> keys
         | Some sk \<Rightarrow>
             if sk_subject_id sk \<in> set (p_subject_ids p) \<and> sk_subject_id sk \<notin> set keys
                \<and> speaker_opener (p_content p) (sk_forms sk) \<noteq> None
             then keys @ [sk_subject_id sk] else keys)"

section \<open>The subject index\<close>

definition MCP_ASSERTER_PREFIX :: string where
  "MCP_ASSERTER_PREFIX = ''mcp:''"

definition is_reconcilable :: "'emb claim_lib \<Rightarrow> particle \<Rightarrow> bool" where
  "is_reconcilable lib p =
     (is_truth_apt lib p \<and> stance_holder lib p = None
      \<and> \<not> is_excluded_document_meta lib (p_properties p) \<and> \<not> is_non_asserted lib (p_properties p))"

definition is_extractor_asserted :: "particle \<Rightarrow> bool" where
  "is_extractor_asserted p =
     (if p_calibration p \<in> {HUMAN_REVIEW, AGENT_ASSERTED} then False
      else if startswith MCP_ASSERTER_PREFIX (p_asserted_by p) then False
      else list_ex (\<lambda>r. ref_kind r = SOURCE) (p_provenance p))"

record 'emb subject_index =
  by_subject :: "(string, (particle \<times> 'emb) list) dict"
  ix_retired :: "string list"

definition setdefault_append :: "'k \<Rightarrow> 'v \<Rightarrow> ('k, 'v list) dict \<Rightarrow> ('k, 'v list) dict" where
  "setdefault_append k v d = AList.update k ((case map_of d k of None \<Rightarrow> [] | Some vs \<Rightarrow> vs) @ [v]) d"

definition index_particle ::
  "'emb claim_lib \<Rightarrow> speaker_key option \<Rightarrow> string list \<Rightarrow> particle \<times> 'emb option
     \<Rightarrow> (string, (particle \<times> 'emb) list) dict \<Rightarrow> (string, (particle \<times> 'emb) list) dict" where
  "index_particle lib speaker excluded pe d =
     (case pe of
        (p, Some emb) \<Rightarrow>
          if p_id p \<in> set excluded \<or> \<not> is_reconcilable lib p then d
          else fold (\<lambda>key. setdefault_append key (p, emb)) (particle_subject_ids p speaker) d
      | (p, None) \<Rightarrow> d)"

definition build_index ::
  "'emb claim_lib \<Rightarrow> (particle \<times> 'emb option) list \<Rightarrow> speaker_key option \<Rightarrow> string list \<Rightarrow> 'emb subject_index" where
  "build_index lib pairs speaker excluded =
     \<lparr>by_subject = fold (index_particle lib speaker excluded) pairs [], ix_retired = []\<rparr>"

text \<open>
  The loop of \<^verbatim>\<open>candidates\<close>: \<open>skip\<close> and the pool gathered so far (\<^verbatim>\<open>seen\<close> and \<^verbatim>\<open>pool\<close> have the same keys,
  so they are one list of particles with their scores, in insertion order).
\<close>

fun gather :: "'emb claim_lib \<Rightarrow> 'emb \<Rightarrow> rat \<Rightarrow> bool option \<Rightarrow> (particle \<times> 'emb) list
                 \<Rightarrow> string list \<times> (particle \<times> rat) list \<Rightarrow> string list \<times> (particle \<times> rat) list" where
  "gather lib emb flr generic [] acc = acc"
| "gather lib emb flr generic ((p, e) # rest) (skip, pool) =
     gather lib emb flr generic rest
       (if p_id p \<in> set skip \<or> p_id p \<in> set (map (p_id \<circ> fst) pool) then (skip, pool)
        else
          let score = cosine_similarity lib emb e in
          if score \<ge> flr then
            (case generic of
               None \<Rightarrow> (skip, pool @ [(p, score)])
             | Some g \<Rightarrow>
                 if is_generic_claim lib (p_content p) \<noteq> g then (p_id p # skip, pool)
                 else (skip, pool @ [(p, score)]))
          else (skip, pool))"

text \<open>\<^verbatim>\<open>sorted(seen.items(), key=score, reverse=True)\<close> keeps the order of equal scores.\<close>

definition best_first :: "(particle \<times> rat) list \<Rightarrow> (particle \<times> rat) list" where
  "best_first pool = sort_key (\<lambda>pr. - snd pr) pool"

definition candidates ::
  "'emb claim_lib \<Rightarrow> 'emb subject_index \<Rightarrow> string list \<Rightarrow> 'emb \<Rightarrow> rat \<Rightarrow> nat \<Rightarrow> string list \<Rightarrow> bool option
     \<Rightarrow> particle list" where
  "candidates lib ix sids emb flr limit skip_ids generic =
     (let entries = concat (map (\<lambda>s. case map_of (by_subject ix) s of None \<Rightarrow> [] | Some es \<Rightarrow> es) sids);
          pool = snd (gather lib emb flr generic entries (skip_ids @ ix_retired ix, []))
      in map fst (take limit (best_first pool)))"

section \<open>The order of two claims\<close>

definition snapshot_of :: "corpus_entry option \<Rightarrow> string option \<Rightarrow> snapshot option" where
  "snapshot_of entry sid =
     (case (entry, sid) of
        (Some e, Some s) \<Rightarrow> if s = [] then None else List.find (\<lambda>sn. s_id sn = s) (e_snapshots e)
      | _ \<Rightarrow> None)"

definition authority :: "string option \<Rightarrow> string option option" where
  "authority uri =
     (case uri of
        None \<Rightarrow> Some None
      | Some u \<Rightarrow>
          if u = [] then Some None
          else map_option (\<lambda>(_, netloc, _). if netloc = [] then None else Some netloc) (urlparse u))"

definition contributors_key :: "corpus_entry \<Rightarrow> (string \<times> string) list" where
  "contributors_key e = sort (case e_contributors e of None \<Rightarrow> [] | Some cs \<Rightarrow> cs)"

definition is_set :: "string option \<Rightarrow> bool" where
  "is_set v = (case v of None \<Rightarrow> False | Some s \<Rightarrow> s \<noteq> [])"

definition local_lineage_shared :: "corpus_entry \<Rightarrow> snapshot \<Rightarrow> corpus_entry \<Rightarrow> bool" where
  "local_lineage_shared new_entry new_snap existing_entry =
     (if (case authority (e_uri_r new_entry) of Some (Some _) \<Rightarrow> True | _ \<Rightarrow> False) then True
      else if is_set (s_author_id new_snap) \<or> contributors_key new_entry \<noteq> [] then True
      else is_owner_harvest new_entry \<and> is_owner_harvest existing_entry)"

definition own_assertion_order :: "particle \<Rightarrow> particle \<Rightarrow> int option" where
  "own_assertion_order new existing =
     (if p_calibration new \<noteq> AGENT_ASSERTED then None
      else if p_calibration existing \<noteq> AGENT_ASSERTED then None
      else if p_asserted_by new = [] \<or> p_asserted_by new \<noteq> p_asserted_by existing then None
      else if as_utc (p_asserted_at new) > as_utc (p_asserted_at existing) then Some 1 else None)"

type_synonym entry_cache = "(string, corpus_entry option) dict"

text \<open>The entry of a ref, read from the corpus once and then from the cache.\<close>

definition cached_entry ::
  "(string \<Rightarrow> corpus_entry option) \<Rightarrow> string \<Rightarrow> entry_cache \<Rightarrow> corpus_entry option \<times> entry_cache" where
  "cached_entry get_entry eid cache =
     (case map_of cache eid of
        Some e \<Rightarrow> (e, cache)
      | None \<Rightarrow> (get_entry eid, AList.update eid (get_entry eid) cache))"

definition ref_date :: "provenance_ref \<Rightarrow> corpus_entry option \<Rightarrow> int list" where
  "ref_date r entry =
     (case entry of
        None \<Rightarrow> []
      | Some e \<Rightarrow>
          (case List.find (\<lambda>sn. Some (s_id sn) = ref_snapshot r) (e_snapshots e) of
             None \<Rightarrow> []
           | Some sn \<Rightarrow> (case s_published_at sn of None \<Rightarrow> [] | Some d \<Rightarrow> [as_utc d])))"

fun source_dates ::
  "(string \<Rightarrow> corpus_entry option) \<Rightarrow> provenance_ref list \<Rightarrow> entry_cache \<Rightarrow> int list \<times> entry_cache" where
  "source_dates get_entry [] cache = ([], cache)"
| "source_dates get_entry (r # rs) cache =
     (if ref_kind r \<noteq> SOURCE then source_dates get_entry rs cache
      else
        let (entry, cache1) = cached_entry get_entry (ref_entry r) cache;
            (dates, cache2) = source_dates get_entry rs cache1
        in (ref_date r entry @ dates, cache2))"

definition latest_source_date ::
  "(string \<Rightarrow> corpus_entry option) \<Rightarrow> particle \<Rightarrow> entry_cache \<Rightarrow> datetime option \<times> entry_cache" where
  "latest_source_date get_entry p cache =
     (let (dates, cache') = source_dates get_entry (p_provenance p) cache
      in (if dates = [] then None else Some (Aware (Max (set dates))), cache'))"

definition date_order :: "datetime option \<Rightarrow> datetime option \<Rightarrow> int option" where
  "date_order new_at old_at =
     (case (new_at, old_at) of
        (Some a, Some b) \<Rightarrow>
          if as_utc a > as_utc b then Some 1 else if as_utc a < as_utc b then Some (- 1) else None
      | _ \<Rightarrow> None)"

text \<open>The chain of lineage checks of \<^verbatim>\<open>update_order\<close>, each a return of \<^verbatim>\<open>None\<close> when it fails.\<close>

definition one_lineage :: "bool \<Rightarrow> corpus_entry \<Rightarrow> snapshot \<Rightarrow> corpus_entry \<Rightarrow> snapshot \<Rightarrow> bool" where
  "one_lineage require_attribution ne ns ee os =
     (authority (e_uri_r ne) = authority (e_uri_r ee) \<and> e_source_type ne = e_source_type ee
      \<and> s_author_id ns = s_author_id os \<and> contributors_key ne = contributors_key ee
      \<and> \<not> (e_id ne \<noteq> e_id ee \<and> (is_rule_source ne \<or> is_rule_source ee))
      \<and> \<not> (e_id ne \<noteq> e_id ee \<and> \<not> local_lineage_shared ne ns ee)
      \<and> \<not> (require_attribution \<and> \<not> (is_set (s_author_id ns) \<or> contributors_key ne \<noteq> [])))"

definition observed_at :: "datetime option \<Rightarrow> snapshot \<Rightarrow> datetime option" where
  "observed_at override sn = (if override = None then s_published_at sn else override)"

definition update_order ::
  "'emb claim_lib \<Rightarrow> particle \<Rightarrow> corpus_entry option \<Rightarrow> string option \<Rightarrow> particle \<Rightarrow> corpus_entry option
     \<Rightarrow> string option \<Rightarrow> bool \<Rightarrow> datetime option \<Rightarrow> datetime option \<Rightarrow> int option option" where
  "update_order lib new new_entry new_sid existing existing_entry existing_sid require_attribution new_date existing_date =
     (if \<not> (is_extractor_asserted new \<and> is_extractor_asserted existing) then Some None
      else if is_reanchor_restatement lib new \<or> is_reanchor_restatement lib existing then Some None
      else
        (case (new_entry, existing_entry, snapshot_of new_entry new_sid, snapshot_of existing_entry existing_sid) of
           (Some ne, Some ee, Some ns, Some os) \<Rightarrow>
             if authority (e_uri_r ne) = None \<or> authority (e_uri_r ee) = None then None
             else if one_lineage require_attribution ne ns ee os
             then Some (date_order (observed_at new_date ns) (observed_at existing_date os))
             else Some None
         | _ \<Rightarrow> Some None))"

section \<open>Facts about the order\<close>

lemma date_order_swap: "date_order b a = map_option uminus (date_order a b)"
  by (auto simp: date_order_def split: option.splits)

lemma date_order_values: "date_order a b = Some k \<Longrightarrow> k = 1 \<or> k = - 1"
  by (auto simp: date_order_def split: option.splits if_splits)

lemma local_lineage_swap:
  assumes "authority (e_uri_r ne) = authority (e_uri_r ee)" "s_author_id ns = s_author_id os"
    "contributors_key ne = contributors_key ee"
  shows "local_lineage_shared ne ns ee = local_lineage_shared ee os ne"
  using assms by (auto simp: local_lineage_shared_def)

lemma one_lineage_swap: "one_lineage req ne ns ee os = one_lineage req ee os ne ns"
  using local_lineage_swap [of ne ee ns os] unfolding one_lineage_def by auto

lemma update_order_swap:
  "update_order lib existing ee esid new ne nsid req ed nd =
     map_option (map_option uminus) (update_order lib new ne nsid existing ee esid req nd ed)"
proof (cases "ne = None \<or> ee = None \<or> snapshot_of ne nsid = None \<or> snapshot_of ee esid = None")
  case True
  then show ?thesis unfolding update_order_def by (auto split: option.splits)
next
  case False
  then obtain n e ns os where "ne = Some n" "ee = Some e" "snapshot_of ne nsid = Some ns" "snapshot_of ee esid = Some os"
    by auto
  then show ?thesis
    by (simp add: update_order_def one_lineage_swap [of req e os n ns]
        date_order_swap [of "observed_at ed os" "observed_at nd ns"] conj_commute disj_commute)
qed

lemma update_order_Some:
  assumes "update_order lib new ne nsid existing ee esid req nd ed = Some (Some k)"
  obtains n e ns os where "ne = Some n" "ee = Some e" "snapshot_of ne nsid = Some ns" "snapshot_of ee esid = Some os"
    "one_lineage req n ns e os" "date_order (observed_at nd ns) (observed_at ed os) = Some k"
    "is_extractor_asserted new" "is_extractor_asserted existing"
    "\<not> is_reanchor_restatement lib new" "\<not> is_reanchor_restatement lib existing"
  using assms unfolding update_order_def by (auto split: if_splits option.splits)

section \<open>Facts about the index\<close>

definition indexed :: "(string, (particle \<times> 'emb) list) dict \<Rightarrow> string \<Rightarrow> (particle \<times> 'emb) list" where
  "indexed d k = (case map_of d k of None \<Rightarrow> [] | Some vs \<Rightarrow> vs)"

lemma indexed_setdefault [simp]:
  "indexed (setdefault_append k v d) k' = (if k' = k then indexed d k @ [v] else indexed d k')"
  by (auto simp: indexed_def setdefault_append_def)

lemma indexed_fold:
  "set (indexed (fold (\<lambda>key. setdefault_append key v) keys d) k) = set (indexed d k) \<union> (if k \<in> set keys then {v} else {})"
  by (induction keys arbitrary: d) auto

definition indexable :: "'emb claim_lib \<Rightarrow> speaker_key option \<Rightarrow> string list \<Rightarrow> string \<Rightarrow> particle \<Rightarrow> bool" where
  "indexable lib speaker excluded k p =
     (p_id p \<notin> set excluded \<and> is_reconcilable lib p \<and> k \<in> set (particle_subject_ids p speaker))"

lemma indexed_particle:
  "set (indexed (index_particle lib speaker excluded pe d) k) =
     set (indexed d k) \<union> {(p, e). (p, Some e) = pe \<and> indexable lib speaker excluded k p}"
  by (cases pe; cases "snd pe") (auto simp: index_particle_def indexed_fold indexable_def)

lemma indexed_build:
  "set (indexed (fold (index_particle lib speaker excluded) pairs d) k) =
     set (indexed d k) \<union> {(p, e). (p, Some e) \<in> set pairs \<and> indexable lib speaker excluded k p}"
  by (induction pairs arbitrary: d) (auto simp: indexed_particle)

definition matches :: "'emb claim_lib \<Rightarrow> 'emb \<Rightarrow> rat \<Rightarrow> bool option \<Rightarrow> particle \<times> 'emb \<Rightarrow> bool" where
  "matches lib emb flr generic pe =
     (cosine_similarity lib emb (snd pe) \<ge> flr
      \<and> (case generic of None \<Rightarrow> True | Some g \<Rightarrow> is_generic_claim lib (p_content (fst pe)) = g))"

text \<open>An index in which an id stands for one particle with one embedding.\<close>

definition functional :: "(particle \<times> 'emb) list \<Rightarrow> bool" where
  "functional es = (\<forall>x \<in> set es. \<forall>y \<in> set es. p_id (fst x) = p_id (fst y) \<longrightarrow> x = y)"

definition pool_ids :: "(particle \<times> rat) list \<Rightarrow> string list" where
  "pool_ids pool = map (p_id \<circ> fst) pool"

definition scored :: "'emb claim_lib \<Rightarrow> 'emb \<Rightarrow> particle \<times> 'emb \<Rightarrow> particle \<times> rat" where
  "scored lib emb pe = (fst pe, cosine_similarity lib emb (snd pe))"

lemma gather_step:
  "gather lib emb flr generic (pe # es) (skip, pool) =
     (if p_id (fst pe) \<in> set skip \<or> p_id (fst pe) \<in> set (pool_ids pool)
         \<or> cosine_similarity lib emb (snd pe) < flr then gather lib emb flr generic es (skip, pool)
      else if matches lib emb flr generic pe then gather lib emb flr generic es (skip, pool @ [scored lib emb pe])
      else gather lib emb flr generic es (p_id (fst pe) # skip, pool))"
  by (cases pe; cases generic) (auto simp: matches_def scored_def pool_ids_def Let_def)

lemma gather_pool:
  assumes "functional es"
    and "\<And>x. x \<in> set es \<Longrightarrow> p_id (fst x) \<in> set (pool_ids pool) \<Longrightarrow> scored lib emb x \<in> set pool"
    and "distinct (pool_ids pool)"
  shows "distinct (pool_ids (snd (gather lib emb flr generic es (skip, pool)))) \<and>
         set (snd (gather lib emb flr generic es (skip, pool))) =
           set pool \<union> scored lib emb ` {x \<in> set es. p_id (fst x) \<notin> set skip \<and> matches lib emb flr generic x}"
  using assms
proof (induction es arbitrary: skip pool)
  case (Cons pe es)
  have fun_es: "functional es" and same: "\<And>x. x \<in> set es \<Longrightarrow> p_id (fst x) = p_id (fst pe) \<Longrightarrow> x = pe"
    using Cons.prems(1) unfolding functional_def by auto
  let ?set = "\<lambda>es skip. {x \<in> set es. p_id (fst x) \<notin> set skip \<and> matches lib emb flr generic x}"
  consider (ignored) "p_id (fst pe) \<in> set skip \<or> p_id (fst pe) \<in> set (pool_ids pool)
         \<or> cosine_similarity lib emb (snd pe) < flr"
    | (taken) "p_id (fst pe) \<notin> set skip" "p_id (fst pe) \<notin> set (pool_ids pool)" "matches lib emb flr generic pe"
    | (other) "p_id (fst pe) \<notin> set skip" "p_id (fst pe) \<notin> set (pool_ids pool)" "\<not> matches lib emb flr generic pe"
        "\<not> cosine_similarity lib emb (snd pe) < flr"
    by blast
  then show ?case
  proof cases
    case ignored
    then have step: "gather lib emb flr generic (pe # es) (skip, pool) = gather lib emb flr generic es (skip, pool)"
      by (simp only: gather_step if_True)
    have "set pool \<union> scored lib emb ` ?set (pe # es) skip = set pool \<union> scored lib emb ` ?set es skip"
      using ignored Cons.prems(2) [of pe] by (auto simp: matches_def)
    then show ?thesis
      unfolding step using Cons.IH [OF fun_es, of pool skip] Cons.prems by simp
  next
    case taken
    then have step: "gather lib emb flr generic (pe # es) (skip, pool) =
        gather lib emb flr generic es (skip, pool @ [scored lib emb pe])"
      by (simp add: gather_step matches_def del: gather.simps)
    have "scored lib emb x \<in> set (pool @ [scored lib emb pe])"
      if "x \<in> set es" "p_id (fst x) \<in> set (pool_ids (pool @ [scored lib emb pe]))" for x
      using that same [of x] Cons.prems(2) [of x] by (auto simp: pool_ids_def scored_def)
    moreover have "distinct (pool_ids (pool @ [scored lib emb pe]))"
      using Cons.prems(3) taken by (auto simp: pool_ids_def scored_def)
    moreover have "set pool \<union> scored lib emb ` ?set (pe # es) skip =
        set (pool @ [scored lib emb pe]) \<union> scored lib emb ` ?set es skip"
      using taken by auto
    ultimately show ?thesis
      unfolding step using Cons.IH [OF fun_es, of "pool @ [scored lib emb pe]" skip] by simp
  next
    case other
    then have step: "gather lib emb flr generic (pe # es) (skip, pool) =
        gather lib emb flr generic es (p_id (fst pe) # skip, pool)"
      by (simp add: gather_step del: gather.simps)
    have "?set (pe # es) skip = ?set es (p_id (fst pe) # skip)"
      using other same by auto
    then show ?thesis
      unfolding step using Cons.IH [OF fun_es, of pool "p_id (fst pe) # skip"] Cons.prems by simp
  qed
qed simp

text \<open>
  The particles the search may offer, with their scores: indexed under one of the subjects, not
  skipped or retired, similar enough and of the right kind.
\<close>

definition eligible ::
  "'emb claim_lib \<Rightarrow> (particle \<times> 'emb option) list \<Rightarrow> speaker_key option \<Rightarrow> string list \<Rightarrow> string list \<Rightarrow> 'emb
     \<Rightarrow> rat \<Rightarrow> string list \<Rightarrow> bool option \<Rightarrow> (particle \<times> rat) set" where
  "eligible lib pairs speaker excluded sids emb flr skip generic =
     {(p, cosine_similarity lib emb e) | p e. (p, Some e) \<in> set pairs
        \<and> (\<exists>k \<in> set sids. indexable lib speaker excluded k p)
        \<and> p_id p \<notin> set skip \<and> matches lib emb flr generic (p, e)}"

lemma pool_eligible:
  assumes "distinct (map (p_id \<circ> fst) pairs)"
    and es_def: "es = concat (map (indexed (by_subject (build_index lib pairs speaker excluded))) sids)"
  shows "distinct (pool_ids (snd (gather lib emb flr generic es (skip, [])))) \<and>
         set (snd (gather lib emb flr generic es (skip, []))) =
           eligible lib pairs speaker excluded sids emb flr skip generic"
proof -
  have es: "set es = {(p, e). (p, Some e) \<in> set pairs \<and> (\<exists>k \<in> set sids. indexable lib speaker excluded k p)}"
    by (auto simp: es_def build_index_def indexed_build indexed_def [of "[]"])
  have "functional es"
    unfolding functional_def es
  proof clarify
    fix p e p' e'
    assume "(p, Some e) \<in> set pairs" "(p', Some e') \<in> set pairs" "p_id (fst (p, e)) = p_id (fst (p', e'))"
    then have "(p, Some e) = (p', Some e')"
      using assms(1) by (intro inj_onD [of "p_id \<circ> fst" "set pairs"]) (auto simp: distinct_map)
    then show "p = p' \<and> e = e'" by simp
  qed
  then have "distinct (pool_ids (snd (gather lib emb flr generic es (skip, [])))) \<and>
      set (snd (gather lib emb flr generic es (skip, []))) =
        scored lib emb ` {x \<in> set es. p_id (fst x) \<notin> set skip \<and> matches lib emb flr generic x}"
    using gather_pool [of es "[]" lib emb flr generic skip] by (simp add: pool_ids_def)
  moreover have "scored lib emb ` {x \<in> set es. p_id (fst x) \<notin> set skip \<and> matches lib emb flr generic x} =
      eligible lib pairs speaker excluded sids emb flr skip generic"
    unfolding es by (auto simp: eligible_def scored_def image_iff) blast+
  ultimately show ?thesis by simp
qed

lemma best_first_facts:
  "set (best_first pool) = set pool" "distinct (pool_ids pool) \<Longrightarrow> distinct (pool_ids (best_first pool))"
  "sorted_wrt (\<lambda>a b. snd a \<ge> snd b) (best_first pool)"
proof -
  show "set (best_first pool) = set pool" by (simp add: best_first_def)
  have "mset (pool_ids (best_first pool)) = mset (pool_ids pool)"
    by (simp add: best_first_def pool_ids_def)
  then show "distinct (pool_ids pool) \<Longrightarrow> distinct (pool_ids (best_first pool))"
    by (metis mset_eq_imp_distinct_iff)
  have "sorted (map (\<lambda>pr. - snd pr) (best_first pool))"
    by (simp add: best_first_def)
  then show "sorted_wrt (\<lambda>a b. snd a \<ge> snd b) (best_first pool)"
    by (simp add: sorted_map)
qed

lemma take_best:
  assumes "sorted_wrt (\<lambda>a b. snd a \<ge> (snd b :: rat)) xs" "x \<in> set xs"
  shows "x \<in> set (take n xs) \<or> length (take n xs) = n \<and> (\<forall>q \<in> set (take n xs). snd q \<ge> snd x)"
proof (cases "x \<in> set (take n xs)")
  case False
  have "set xs = set (take n xs) \<union> set (drop n xs)"
    by (metis append_take_drop_id set_append)
  then have drop: "x \<in> set (drop n xs)" using False assms(2) by blast
  moreover have "sorted_wrt (\<lambda>a b. snd a \<ge> snd b) (take n xs @ drop n xs)" using assms(1) by simp
  ultimately have "\<forall>q \<in> set (take n xs). snd q \<ge> snd x"
    unfolding sorted_wrt_append by blast
  moreover have "n \<le> length xs"
    using drop by (cases "n \<le> length xs") auto
  ultimately show ?thesis by simp
qed simp

lemma candidates_ranked:
  assumes "distinct (map (p_id \<circ> fst) pairs)"
    and "ix = (build_index lib pairs speaker excluded)\<lparr>ix_retired := retired\<rparr>"
    and "E = eligible lib pairs speaker excluded sids emb flr (skip @ retired) generic"
  obtains ranked where "candidates lib ix sids emb flr limit skip generic = map fst ranked"
    "length ranked \<le> limit" "distinct (map (p_id \<circ> fst) ranked)" "sorted_wrt (\<lambda>a b. snd a \<ge> snd b) ranked"
    "set ranked \<subseteq> E"
    "\<And>x. x \<in> E \<Longrightarrow> x \<in> set ranked \<or> length ranked = limit \<and> (\<forall>q \<in> set ranked. snd q \<ge> snd x)"
proof -
  let ?es = "concat (map (indexed (by_subject (build_index lib pairs speaker excluded))) sids)"
  let ?pool = "snd (gather lib emb flr generic ?es (skip @ retired, []))"
  let ?ranked = "take limit (best_first ?pool)"
  have pool: "distinct (pool_ids ?pool)" "set ?pool = E"
    using pool_eligible [OF assms(1) refl, where lib = lib and speaker = speaker and excluded = excluded and sids = sids
        and emb = emb and flr = flr and generic = generic and skip = "skip @ retired"] assms(3) by auto
  have set: "set (best_first ?pool) = E" using best_first_facts(1) pool(2) by metis
  have eq: "candidates lib ix sids emb flr limit skip generic = map fst ?ranked"
    by (simp add: candidates_def assms(2) indexed_def [abs_def] Let_def)
  have "distinct (map (p_id \<circ> fst) ?ranked)"
    using best_first_facts(2) [OF pool(1)] unfolding pool_ids_def by (simp add: take_map [symmetric] distinct_take)
  moreover have "sorted_wrt (\<lambda>a b. snd a \<ge> snd b) ?ranked"
    by (rule sorted_wrt_take [OF best_first_facts(3)])
  moreover have "set ?ranked \<subseteq> E" using set set_take_subset [of limit "best_first ?pool"] by metis
  moreover have "x \<in> set ?ranked \<or> length ?ranked = limit \<and> (\<forall>q \<in> set ?ranked. snd q \<ge> snd x)" if "x \<in> E" for x
    using take_best [OF best_first_facts(3)] that set by blast
  ultimately show thesis
    using that [OF eq] by simp
qed

section \<open>Examples\<close>

definition demo_lib :: "rat claim_lib" where
  "demo_lib =
     \<lparr>is_truth_apt = (\<lambda>_. True), stance_holder = (\<lambda>_. None), is_excluded_document_meta = (\<lambda>_. False),
      is_non_asserted = (\<lambda>_. False), is_generic_claim = (\<lambda>_. False), is_reanchor_restatement = (\<lambda>_. False),
      cosine_similarity = (\<lambda>a b. a * b)\<rparr>"

definition demo_claim :: "string \<Rightarrow> string \<Rightarrow> particle" where
  "demo_claim i e =
     \<lparr>p_id = i, p_content = ''c'', p_status = ACTIVE, p_reason = None, p_supersedes = None, p_nature = EPISTEMIC,
      p_confidence = 1, p_calibration = EXTRACTOR_DIRECT, p_asserted_by = ''x'', p_asserted_at = Aware 0,
      p_provenance = [\<lparr>ref_kind = SOURCE, ref_entry = e, ref_snapshot = Some ''s'', ref_location = None, ref_chunk = None\<rparr>],
      p_subject_ids = [''u''], p_claim = None, p_properties = None, p_tags = None, p_valid_from = None,
      p_valid_until = None, p_valid_kind = None, p_modality = ''asserted''\<rparr>"

definition demo_file :: "string \<Rightarrow> string \<Rightarrow> string list \<Rightarrow> int \<Rightarrow> corpus_entry" where
  "demo_file i dep tags t =
     \<lparr>e_id = i, e_uri_r = None, e_source_type = ''MD'', e_deposited_by = dep, e_tags = Some tags,
      e_contributors = None, e_snapshots = [\<lparr>s_id = ''s'', s_author_id = None, s_published_at = Some (Aware t)\<rparr>]\<rparr>"

lemmas demo_claim_simps = demo_lib_def demo_claim_def demo_file_def update_order_def snapshot_of_def authority_def
  one_lineage_def contributors_key_def local_lineage_shared_def is_owner_harvest_def is_rule_source_def is_set_def
  observed_at_def date_order_def is_extractor_asserted_def MCP_ASSERTER_PREFIX_def startswith_def
  HARVEST_DEPOSITORS_def MEMORY_HARVEST_TAGS_def RULE_SOURCE_TAG_def

section \<open>The properties\<close>

text \<open>
  C16. The update order does not depend on which of two claims is called new: exchanging the sides
  with their entries, snapshots and dates negates the answer, and a pair that does not qualify in
  one direction does not qualify in the other.
\<close>

theorem update_order_antisymmetric:
  "update_order lib existing ee esid new ne nsid req ed nd =
     map_option (map_option uminus) (update_order lib new ne nsid existing ee esid req nd ed)"
  by (rule update_order_swap)

text \<open>
  C15. When the update order answers, both claims are extracted ones (neither an operator's nor an
  agent's, nor a re-anchored restatement), both entries and snapshots are known and agree in
  authority, source type, author and contributors, two different entries are neither of them rule
  files, and the answer is the sign of the difference of their dates.
\<close>

theorem update_order_sound:
  assumes "update_order lib new (Some n) nsid existing (Some e) esid req nd ed = Some (Some k)"
  shows "p_calibration new \<notin> {HUMAN_REVIEW, AGENT_ASSERTED} \<and> p_calibration existing \<notin> {HUMAN_REVIEW, AGENT_ASSERTED} \<and>
         \<not> startswith ''mcp:'' (p_asserted_by new) \<and> \<not> startswith ''mcp:'' (p_asserted_by existing) \<and>
         \<not> is_reanchor_restatement lib new \<and> \<not> is_reanchor_restatement lib existing \<and>
         authority (e_uri_r n) = authority (e_uri_r e) \<and> e_source_type n = e_source_type e \<and>
         contributors_key n = contributors_key e \<and>
         (e_id n = e_id e \<or> is_rule_source n = False \<and> is_rule_source e = False) \<and>
         (\<exists>ns os a b. snapshot_of (Some n) nsid = Some ns \<and> snapshot_of (Some e) esid = Some os
            \<and> s_author_id ns = s_author_id os \<and> observed_at nd ns = Some a \<and> observed_at ed os = Some b
            \<and> k = sgn (as_utc a - as_utc b) \<and> as_utc a \<noteq> as_utc b)"
  using assms
  by (rule update_order_Some)
    (auto simp: one_lineage_def is_extractor_asserted_def MCP_ASSERTER_PREFIX_def date_order_def
      split: option.splits if_splits)

theorem update_order_sound_witness:
  "update_order demo_lib (demo_claim ''n'' ''e'') (Some (demo_file ''e'' ''x'' [] 2)) (Some ''s'')
       (demo_claim ''o'' ''f'') (Some (demo_file ''e'' ''x'' [] 1)) (Some ''s'') False None None = Some (Some 1) \<and>
   authority (e_uri_r (demo_file ''e'' ''x'' [] 2)) = authority (e_uri_r (demo_file ''e'' ''x'' [] 1))"
proof
  show first: "update_order demo_lib (demo_claim ''n'' ''e'') (Some (demo_file ''e'' ''x'' [] 2)) (Some ''s'')
       (demo_claim ''o'' ''f'') (Some (demo_file ''e'' ''x'' [] 1)) (Some ''s'') False None None = Some (Some 1)"
    by (simp add: demo_claim_simps)
  show "authority (e_uri_r (demo_file ''e'' ''x'' [] 2)) = authority (e_uri_r (demo_file ''e'' ''x'' [] 1))"
    using update_order_sound [OF first] by blast
qed

text \<open>
  C17. A local file (its URI has no authority) deposited without a harvester's mark (an intake refuses those marks
  to any other caller), with no author on its snapshots and no contributors, neither retires a claim of another
  entry by update nor is retired by one, whatever date it gives itself: the answer is no order, in both directions,
  or the URI of the other entry cannot be read.
\<close>

theorem unmarked_file_never_updates:
  assumes "reserved_marks (e_tags n) (Some (e_deposited_by n)) = []" "e_id n \<noteq> e_id e"
    and "authority (e_uri_r n) = Some None" "contributors_key n = []"
    and "list_all (\<lambda>sn. \<not> is_set (s_author_id sn)) (e_snapshots n)"
  shows "update_order lib new (Some n) nsid existing (Some e) esid req nd ed \<in> {None, Some None} \<and>
         update_order lib existing (Some e) esid new (Some n) nsid req ed nd \<in> {None, Some None}"
proof -
  have "\<not> is_set (s_author_id ns)" if "snapshot_of (Some n) nsid = Some ns" for ns
    using that assms(5) by (auto simp: snapshot_of_def find_Some_iff list_all_length split: option.splits if_splits)
  then have "update_order lib new (Some n) nsid existing (Some e) esid req nd ed \<noteq> Some (Some k)" for k
    using unmarked_not_harvest [OF assms(1)] assms(2-4)
    by (auto elim!: update_order_Some simp: one_lineage_def local_lineage_shared_def)
  then have "update_order lib new (Some n) nsid existing (Some e) esid req nd ed \<in> {None, Some None}"
    by (metis insertI1 insertI2 option.exhaust)
  then show ?thesis
    using update_order_swap [of lib existing "Some e" esid new "Some n" nsid req ed nd] by auto
qed

theorem unmarked_file_never_updates_witness:
  "update_order demo_lib (demo_claim ''n'' ''e'') (Some (demo_file ''e'' ''clone'' [''notes''] 2)) (Some ''s'')
      (demo_claim ''o'' ''f'') (Some (demo_file ''f'' ''audit'' [''memory-file''] 1)) (Some ''s'') False None None
     \<in> {None, Some None}"
  using unmarked_file_never_updates [of "demo_file ''e'' ''clone'' [''notes''] 2" "demo_file ''f'' ''audit'' [''memory-file''] 1"
      demo_lib "demo_claim ''n'' ''e''" "Some ''s''" "demo_claim ''o'' ''f''" "Some ''s''" False None None]
  by (simp add: demo_file_def reserved_marks_def authority_def contributors_key_def is_set_def
      RESERVED_DEPOSITORS_def HARVEST_DEPOSITORS_def MEMORY_ARCHIVE_TAG_def MEMORY_FILE_TAG_def)

text \<open>
  C18. The subject search returns the best matches and nothing else: at most \<^verbatim>\<open>limit\<close> particles, each once,
  in descending similarity, each reconcilable, indexed under one of the subjects, at or above the
  floor, of the asked kind and neither skipped nor retired; and a matching particle it leaves out is
  left out only because the list is full of particles at least as similar.
\<close>

theorem candidates_are_the_best:
  assumes "distinct (map (p_id \<circ> fst) pairs)"
    and "ix = (build_index lib pairs speaker excluded)\<lparr>ix_retired := retired\<rparr>"
  shows "\<exists>ranked. candidates lib ix sids emb flr limit skip generic = map fst ranked \<and> length ranked \<le> limit
           \<and> distinct (map (p_id \<circ> fst) ranked) \<and> sorted_wrt (\<lambda>a b. snd a \<ge> snd b) ranked
           \<and> set ranked \<subseteq> eligible lib pairs speaker excluded sids emb flr (skip @ retired) generic
           \<and> (\<forall>x \<in> eligible lib pairs speaker excluded sids emb flr (skip @ retired) generic.
                x \<in> set ranked \<or> length ranked = limit \<and> (\<forall>q \<in> set ranked. snd q \<ge> snd x))"
  using candidates_ranked [OF assms refl, where sids = sids and emb = emb and flr = flr and limit = limit
      and skip = skip and generic = generic] by metis

definition demo_pairs :: "(particle \<times> rat option) list" where
  "demo_pairs = [(demo_claim ''a'' ''e'', Some (1/2)), (demo_claim ''b'' ''e'', Some 1), (demo_claim ''d'' ''e'', None)]"

theorem candidates_are_the_best_witness:
  "\<exists>ranked :: (particle \<times> rat) list. candidates demo_lib (build_index demo_lib demo_pairs None []) [''u''] 1 (1/4) 1 [] None = map fst ranked
     \<and> length ranked \<le> 1 \<and> sorted_wrt (\<lambda>a b. snd a \<ge> snd b) ranked"
proof -
  have "distinct (map (p_id \<circ> fst) demo_pairs)" by (simp add: demo_pairs_def demo_claim_def)
  moreover have "build_index demo_lib demo_pairs None [] = (build_index demo_lib demo_pairs None [])\<lparr>ix_retired := []\<rparr>"
    by (simp add: build_index_def)
  ultimately show ?thesis
    by (rule candidates_are_the_best [where skip = "[]" and limit = 1 and sids = "[''u'']" and emb = 1 and flr = "1/4"
        and generic = None, elim_format]) blast
qed

end
