(* ===== verification/Pair_Selection.thy ===== *)
theory Pair_Selection
  imports Update_Supersession
begin

text \<open>
  \<^verbatim>\<open>src/particles/ingest/pair_selection.py\<close>: which stored claims a candidate is paired with, which
  pairs are sent to the probes, which pair the ladder runs on and which extras rung 2.5 settles.

  The verdicts are those of \<^verbatim>\<open>particles.core\<close>; its functions \<^verbatim>\<open>admits_update\<close>, \<^verbatim>\<open>offers_subject_pair\<close>,
  \<^verbatim>\<open>newer_is_settled\<close> and \<^verbatim>\<open>records_past_value\<close> are the fields of \<open>slot_lib\<close>. A mapping by id is an
  association list, a container of ids a list.
\<close>

datatype slot = CHANGES | FIXED | DIFFERENT

datatype precondition = RECONCILE | DECLINE | OTHER_PRECONDITION

record slot_lib =
  admits_update :: "slot option \<Rightarrow> bool"
  offers_subject_pair :: "slot option \<Rightarrow> bool"
  newer_is_settled :: "particle \<Rightarrow> particle \<Rightarrow> int \<Rightarrow> bool"
  records_past_value :: "string \<Rightarrow> bool"

datatype pair_role = NEAREST | SUBJECT | DECLINED

record candidate_pairs =
  nearest :: "particle option"
  subject_pool :: "particle list"
  preconditions :: "(string, precondition) dict"
  can_update :: "(string, bool) dict option"

definition lookup_or :: "'v \<Rightarrow> (string, 'v) dict \<Rightarrow> string \<Rightarrow> 'v" where
  "lookup_or v d k = (case map_of d k of None \<Rightarrow> v | Some x \<Rightarrow> x)"

definition precondition_of :: "candidate_pairs \<Rightarrow> particle \<Rightarrow> precondition" where
  "precondition_of cp p = lookup_or RECONCILE (preconditions cp) (p_id p)"

definition pairable :: "candidate_pairs \<Rightarrow> particle list" where
  "pairable cp = (case nearest cp of None \<Rightarrow> [] | Some p \<Rightarrow> [p]) @ subject_pool cp"

record pair_selection =
  primary :: "particle option"
  signal :: bool
  extras :: "particle list"
  declined :: "particle list"
  slots :: "(string, slot) dict"
  reading :: "string option"
  same_slot :: "string list"

definition slot_of :: "pair_selection \<Rightarrow> string \<Rightarrow> slot option" where
  "slot_of sel i = map_of (slots sel) i"

definition same_slot_update :: "pair_selection \<Rightarrow> string \<Rightarrow> bool" where
  "same_slot_update sel i = (i \<in> set (same_slot sel))"

definition updatable :: "slot_lib \<Rightarrow> pair_selection \<Rightarrow> string list" where
  "updatable lib sel = map fst (filter (\<lambda>(_, v). admits_update lib (Some v)) (slots sel))"

definition offered :: "candidate_pairs \<Rightarrow> particle \<Rightarrow> bool" where
  "offered cp p = (case can_update cp of None \<Rightarrow> True | Some d \<Rightarrow> lookup_or False d (p_id p))"

definition plan_update_first :: "candidate_pairs \<Rightarrow> particle list" where
  "plan_update_first cp =
     (case nearest cp of
        None \<Rightarrow> []
      | Some p \<Rightarrow> if precondition_of cp p = RECONCILE then [p] else [])
     @ filter (\<lambda>p. precondition_of cp p = RECONCILE \<and> offered cp p) (subject_pool cp)"

definition admits_update_first :: "slot_lib \<Rightarrow> string \<Rightarrow> bool" where
  "admits_update_first lib earlier = (\<not> records_past_value lib earlier)"

definition settled :: "slot_lib \<Rightarrow> (string, slot) dict \<Rightarrow> string list \<Rightarrow> bool \<Rightarrow> particle \<Rightarrow> bool" where
  "settled lib verdicts admitted pool other =
     (if p_id other \<notin> set admitted then False
      else
        let verdict = map_of verdicts (p_id other)
        in admits_update lib verdict \<or> pool \<and> verdict = Some DIFFERENT)"

definition plan_probes ::
  "slot_lib \<Rightarrow> candidate_pairs \<Rightarrow> (string, slot) dict \<Rightarrow> string list \<Rightarrow> (particle \<times> pair_role) list" where
  "plan_probes lib cp verdicts admitted =
     (case nearest cp of
        None \<Rightarrow> []
      | Some p \<Rightarrow> if settled lib verdicts admitted False p then [] else [(p, NEAREST)])
     @ concat (map (\<lambda>other.
           if precondition_of cp other = DECLINE then [(other, DECLINED)]
           else if offered cp other \<and> \<not> settled lib verdicts admitted True other then [(other, SUBJECT)]
           else []) (subject_pool cp))"

definition plan_update_probes ::
  "candidate_pairs \<Rightarrow> (string, bool) dict \<Rightarrow> string list \<Rightarrow> particle list" where
  "plan_update_probes cp probes asked =
     (case nearest cp of
        None \<Rightarrow> []
      | Some p \<Rightarrow>
          if p_id p \<notin> set asked \<and> lookup_or False probes (p_id p) \<and> precondition_of cp p \<noteq> DECLINE then [p] else [])
     @ filter (\<lambda>p. p_id p \<notin> set asked \<and> precondition_of cp p \<noteq> DECLINE \<and> offered cp p
                    \<and> lookup_or False probes (p_id p)) (subject_pool cp)"

definition same_slot_ids :: "slot_lib \<Rightarrow> candidate_pairs \<Rightarrow> (string, slot) dict \<Rightarrow> string list \<Rightarrow> string list" where
  "same_slot_ids lib cp verdicts admitted =
     map p_id (filter (\<lambda>p. p_id p \<in> set admitted \<and> admits_update lib (map_of verdicts (p_id p))) (pairable cp))"

definition pool_confirmed ::
  "slot_lib \<Rightarrow> candidate_pairs \<Rightarrow> (string, bool) dict \<Rightarrow> (string, slot) dict \<Rightarrow> string list \<Rightarrow> particle \<Rightarrow> bool" where
  "pool_confirmed lib cp probes verdicts admitted other =
     (precondition_of cp other \<noteq> DECLINE \<and> offered cp other
      \<and> (p_id other \<in> set (same_slot_ids lib cp verdicts admitted)
         \<or> lookup_or False probes (p_id other) \<and> offers_subject_pair lib (map_of verdicts (p_id other))))"

definition select_pairs ::
  "slot_lib \<Rightarrow> candidate_pairs \<Rightarrow> (string, bool) dict \<Rightarrow> (string, slot) dict \<Rightarrow> string list \<Rightarrow> pair_selection" where
  "select_pairs lib cp probes verdicts admitted =
     (let same = same_slot_ids lib cp verdicts admitted;
          nearest_declined = (case nearest cp of
              None \<Rightarrow> False
            | Some p \<Rightarrow> lookup_or False probes (p_id p) \<and> precondition_of cp p = DECLINE);
          prim = (if nearest_declined then None else nearest cp);
          sig = (case prim of None \<Rightarrow> False | Some p \<Rightarrow> lookup_or False probes (p_id p));
          decl = (if nearest_declined then [the (nearest cp)] else [])
                 @ filter (\<lambda>p. precondition_of cp p = DECLINE \<and> lookup_or False probes (p_id p)) (subject_pool cp);
          confirmed = filter (pool_confirmed lib cp probes verdicts admitted) (subject_pool cp);
          acts = (case prim of None \<Rightarrow> False | Some p \<Rightarrow> sig \<or> p_id p \<in> set same)
      in case confirmed of
           c # cs \<Rightarrow>
             if \<not> acts
             then \<lparr>primary = Some c, signal = lookup_or False probes (p_id c), extras = cs, declined = decl,
                   slots = verdicts, reading = None, same_slot = same\<rparr>
             else \<lparr>primary = prim, signal = sig, extras = confirmed, declined = decl, slots = verdicts,
                   reading = None, same_slot = same\<rparr>
         | [] \<Rightarrow> \<lparr>primary = prim, signal = sig, extras = [], declined = decl, slots = verdicts,
                   reading = None, same_slot = same\<rparr>)"

definition write_order :: "slot_lib \<Rightarrow> pair_selection list \<Rightarrow> nat list" where
  "write_order lib sels =
     filter (\<lambda>i. updatable lib (sels ! i) \<noteq> []) [0..<length sels]
     @ filter (\<lambda>i. updatable lib (sels ! i) = []) [0..<length sels]"

definition first_source_ref_entry_id :: "particle \<Rightarrow> string option" where
  "first_source_ref_entry_id p = map_option ref_entry (source_ref p)"

text \<open>One extra: whether it is passed over, or the order rung 2.5 settles it in; \<^const>\<open>None\<close> when \<^verbatim>\<open>update_order\<close> raises.\<close>

definition extra_order ::
  "'emb claim_lib \<Rightarrow> slot_lib \<Rightarrow> particle \<Rightarrow> corpus_entry option \<Rightarrow> string \<Rightarrow> (string, corpus_entry option) dict
     \<Rightarrow> (string, precondition) dict \<Rightarrow> string list \<Rightarrow> string list \<Rightarrow> particle \<Rightarrow> int option option" where
  "extra_order clib lib winner entry sid entries pre upd revision other =
     (if p_id other \<notin> set upd then Some None
      else
        (case source_ref other of
           None \<Rightarrow> Some None
         | Some ref \<Rightarrow>
             if lookup_or RECONCILE pre (p_id other) \<noteq> RECONCILE then Some None
             else
               map_option
                 (\<lambda>order.
                    let order' = (if order \<noteq> None \<and> p_id other \<in> set revision then Some 1 else order)
                    in case order' of
                         None \<Rightarrow> None
                       | Some k \<Rightarrow> if newer_is_settled lib other winner k then Some k else None)
                 (update_order clib winner entry (Some sid) other (lookup_or None entries (ref_entry ref)) (ref_snapshot ref)
                    False None None)))"

fun plan_update_extras ::
  "'emb claim_lib \<Rightarrow> slot_lib \<Rightarrow> particle \<Rightarrow> corpus_entry option \<Rightarrow> string \<Rightarrow> particle list
     \<Rightarrow> (string, corpus_entry option) dict \<Rightarrow> (string, precondition) dict \<Rightarrow> string list \<Rightarrow> string list
     \<Rightarrow> (string \<times> string) list option" where
  "plan_update_extras clib lib winner entry sid [] entries pre upd revision = Some []"
| "plan_update_extras clib lib winner entry sid (other # others) entries pre upd revision =
     (case extra_order clib lib winner entry sid entries pre upd revision other of
        None \<Rightarrow> None
      | Some None \<Rightarrow> plan_update_extras clib lib winner entry sid others entries pre upd revision
      | Some (Some k) \<Rightarrow>
          if k > 0
          then map_option (\<lambda>ds. (p_id other, p_id winner) # ds)
                 (plan_update_extras clib lib winner entry sid others entries pre upd revision)
          else Some [(p_id winner, p_id other)])"

section \<open>The second reading\<close>

record pair_reading =
  confirmed :: "bool option"
  read_under :: "string option"

record reading_tally =
  t_read :: nat
  t_cleared :: nat
  t_unread :: nat

definition plan_readings :: "pair_selection \<Rightarrow> particle list" where
  "plan_readings sel =
     (case primary sel of None \<Rightarrow> [] | Some p \<Rightarrow> if signal sel then [p] else []) @ declined sel"

definition keeps ::
  "(string, pair_reading) dict \<Rightarrow> string list \<Rightarrow> particle \<Rightarrow> reading_tally \<Rightarrow> (bool \<times> string option) \<times> reading_tally" where
  "keeps readings same_entry other t =
     (case map_of readings (p_id other) of
        None \<Rightarrow> ((True, None), t)
      | Some r \<Rightarrow>
          let t1 = t\<lparr>t_read := Suc (t_read t)\<rparr> in
          (case confirmed r of
             None \<Rightarrow> ((p_id other \<in> set same_entry, None), t1\<lparr>t_unread := Suc (t_unread t)\<rparr>)
           | Some False \<Rightarrow> ((False, None), t1\<lparr>t_cleared := Suc (t_cleared t)\<rparr>)
           | Some True \<Rightarrow> ((True, read_under r), t1)))"

fun keep_declined ::
  "(string, pair_reading) dict \<Rightarrow> string list \<Rightarrow> particle list \<Rightarrow> reading_tally \<Rightarrow> particle list \<times> reading_tally" where
  "keep_declined readings same_entry [] t = ([], t)"
| "keep_declined readings same_entry (p # ps) t =
     (let ((k, _), t1) = keeps readings same_entry p t;
          (kept, t2) = keep_declined readings same_entry ps t1
      in (if k then p # kept else kept, t2))"

definition apply_readings ::
  "pair_selection \<Rightarrow> (string, pair_reading) dict \<Rightarrow> string list \<Rightarrow> pair_selection \<times> reading_tally" where
  "apply_readings sel readings same_entry =
     (let t0 = \<lparr>t_read = 0, t_cleared = 0, t_unread = 0\<rparr>;
          ((sig, stamp), t1) = (case primary sel of
              None \<Rightarrow> ((signal sel, None), t0)
            | Some p \<Rightarrow> if signal sel then keeps readings same_entry p t0 else ((signal sel, None), t0));
          (kept, t2) = keep_declined readings same_entry (declined sel) t1
      in (sel\<lparr>signal := sig, declined := kept, reading := stamp\<rparr>, t2))"

section \<open>Planned probes\<close>

lemma lookup_or_filter:
  "lookup_or v (filter (\<lambda>kv. P (fst kv)) d) k = (if P k then lookup_or v d k else v)"
  by (simp add: lookup_or_def map_of_filter_key)

definition planned_ids :: "slot_lib \<Rightarrow> candidate_pairs \<Rightarrow> (string, slot) dict \<Rightarrow> string list \<Rightarrow> string list" where
  "planned_ids lib cp verdicts admitted = map (p_id \<circ> fst) (plan_probes lib cp verdicts admitted)"

definition only_planned :: "string list \<Rightarrow> (string, bool) dict \<Rightarrow> (string, bool) dict" where
  "only_planned asked probes = filter (\<lambda>kv. fst kv \<in> set asked) probes"

lemma lookup_only_planned:
  "lookup_or False (only_planned asked probes) i = (i \<in> set asked \<and> lookup_or False probes i)"
  using lookup_or_filter [of False "\<lambda>k. k \<in> set asked" probes i] by (simp add: only_planned_def)

lemma planned_nearest:
  "nearest cp = Some p \<Longrightarrow> \<not> settled lib verdicts admitted False p \<Longrightarrow> p_id p \<in> set (planned_ids lib cp verdicts admitted)"
  by (simp add: planned_ids_def plan_probes_def)

lemma planned_pool:
  assumes "p \<in> set (subject_pool cp)"
    "precondition_of cp p = DECLINE \<or> offered cp p \<and> \<not> settled lib verdicts admitted True p"
  shows "p_id p \<in> set (planned_ids lib cp verdicts admitted)"
proof -
  have "(p, if precondition_of cp p = DECLINE then DECLINED else SUBJECT) \<in> set (plan_probes lib cp verdicts admitted)"
    using assms unfolding plan_probes_def by (auto intro!: bexI [of _ p])
  then show ?thesis unfolding planned_ids_def set_map by (rule rev_image_eqI) simp
qed

lemma admitted_reconciles:
  assumes "set admitted \<subseteq> set (map p_id (plan_update_first cp))" "p_id p \<in> set admitted"
  shows "precondition_of cp p = RECONCILE"
proof -
  obtain q where "q \<in> set (plan_update_first cp)" "p_id q = p_id p" using assms by force
  then show ?thesis
    by (auto simp: plan_update_first_def precondition_of_def split: option.splits if_splits)
qed

lemma settled_same_slot:
  assumes "settled lib verdicts admitted pool p" "p \<in> set (pairable cp)"
  shows "p_id p \<in> set (same_slot_ids lib cp verdicts admitted) \<or> pool \<and> map_of verdicts (p_id p) = Some DIFFERENT"
  using assms by (auto simp: settled_def same_slot_ids_def Let_def split: if_splits)

lemma pool_confirmed_planned:
  assumes "\<not> offers_subject_pair lib (Some DIFFERENT)" "p \<in> set (subject_pool cp)"
  shows "pool_confirmed lib cp (only_planned (planned_ids lib cp verdicts admitted) probes) verdicts admitted p =
         pool_confirmed lib cp probes verdicts admitted p"
proof (cases "p_id p \<in> set (planned_ids lib cp verdicts admitted)")
  case True
  then show ?thesis by (simp add: pool_confirmed_def lookup_only_planned)
next
  case False
  then have "precondition_of cp p \<noteq> DECLINE" "\<not> offered cp p \<or> settled lib verdicts admitted True p"
    using planned_pool [OF assms(2)] by blast+
  moreover have "p \<in> set (pairable cp)" using assms(2) by (simp add: pairable_def)
  ultimately show ?thesis
    using settled_same_slot [of lib verdicts admitted True p cp] assms(1)
    by (auto simp: pool_confirmed_def lookup_only_planned)
qed

lemma select_planned:
  assumes "set admitted \<subseteq> set (map p_id (plan_update_first cp))" "\<not> offers_subject_pair lib (Some DIFFERENT)"
    and full_def: "full = (\<lambda>probes. select_pairs lib cp probes verdicts admitted)"
  shows "(full (only_planned (planned_ids lib cp verdicts admitted) probes))\<lparr>signal := signal (full probes)\<rparr> = full probes"
proof -
  let ?ids = "planned_ids lib cp verdicts admitted"
  let ?same = "same_slot_ids lib cp verdicts admitted"
  have pool: "filter (pool_confirmed lib cp (only_planned ?ids probes) verdicts admitted) (subject_pool cp) =
      filter (pool_confirmed lib cp probes verdicts admitted) (subject_pool cp)"
    using pool_confirmed_planned [OF assms(2)] by (auto intro: filter_cong)
  have decl: "filter (\<lambda>p. precondition_of cp p = DECLINE \<and> lookup_or False (only_planned ?ids probes) (p_id p)) (subject_pool cp) =
      filter (\<lambda>p. precondition_of cp p = DECLINE \<and> lookup_or False probes (p_id p)) (subject_pool cp)"
    using planned_pool by (auto simp: lookup_only_planned intro!: filter_cong)
  show ?thesis
  proof (cases "nearest cp")
    case None
    then show ?thesis
      unfolding full_def select_pairs_def Let_def pool decl by (auto split: list.splits)
  next
    case (Some p)
    show ?thesis
    proof (cases "p_id p \<in> set ?ids")
      case True
      then have "lookup_or False (only_planned ?ids probes) (p_id p) = lookup_or False probes (p_id p)"
        by (simp add: lookup_only_planned)
      with Some show ?thesis
        unfolding full_def select_pairs_def Let_def pool decl by (auto split: list.splits)
    next
      case False
      then have st: "settled lib verdicts admitted False p" using planned_nearest Some by blast
      then have "precondition_of cp p = RECONCILE"
        using admitted_reconciles [OF assms(1)] by (auto simp: settled_def split: if_splits)
      moreover have "p_id p \<in> set ?same"
        using settled_same_slot [OF st, of cp] Some by (simp add: pairable_def)
      ultimately show ?thesis
        using Some unfolding full_def select_pairs_def Let_def pool decl by (auto split: list.splits)
    qed
  qed
qed

section \<open>Write order and readings\<close>

lemma sorted_constant: "(\<And>x. x \<in> set xs \<Longrightarrow> f x = c) \<Longrightarrow> sorted (map f xs)"
  by (induction xs) auto

lemma write_order_sort:
  "write_order lib sels = sort_key (\<lambda>i. updatable lib (sels ! i) = []) [0..<length sels]"
proof (rule sym, rule properties_for_sort_key)
  show "mset (write_order lib sels) = mset [0..<length sels]"
    using multiset_partition [of "mset [0..<length sels]" "\<lambda>i. updatable lib (sels ! i) \<noteq> []"]
    by (simp add: write_order_def)
  show "filter (\<lambda>i. (updatable lib (sels ! k) = []) = (updatable lib (sels ! i) = [])) (write_order lib sels) =
      filter (\<lambda>i. (updatable lib (sels ! k) = []) = (updatable lib (sels ! i) = [])) [0..<length sels]"
    if "k \<in> set (write_order lib sels)" for k
    by (cases "updatable lib (sels ! k) = []") (auto simp: write_order_def intro: filter_cong)
  show "sorted (map (\<lambda>i. updatable lib (sels ! i) = []) (write_order lib sels))"
    unfolding write_order_def map_append sorted_append
    using sorted_constant [of "filter (\<lambda>i. updatable lib (sels ! i) \<noteq> []) [0..<length sels]" _ False]
      sorted_constant [of "filter (\<lambda>i. updatable lib (sels ! i) = []) [0..<length sels]" _ True]
    by auto
qed

text \<open>What a second reading says of a pair: it stands unless it was read and cleared, or could not be read and crosses entries.\<close>

definition reading_keeps :: "(string, pair_reading) dict \<Rightarrow> string list \<Rightarrow> particle \<Rightarrow> bool" where
  "reading_keeps readings same_entry p =
     (case map_of readings (p_id p) of
        None \<Rightarrow> True
      | Some r \<Rightarrow> (case confirmed r of None \<Rightarrow> p_id p \<in> set same_entry | Some b \<Rightarrow> b))"

definition reading_of :: "(string, pair_reading) dict \<Rightarrow> bool option \<Rightarrow> particle \<Rightarrow> bool" where
  "reading_of readings v p = (case map_of readings (p_id p) of None \<Rightarrow> False | Some r \<Rightarrow> confirmed r = v)"

definition add_tally :: "(string, pair_reading) dict \<Rightarrow> particle list \<Rightarrow> reading_tally \<Rightarrow> reading_tally" where
  "add_tally readings ps t =
     \<lparr>t_read = t_read t + length (filter (\<lambda>p. map_of readings (p_id p) \<noteq> None) ps),
      t_cleared = t_cleared t + length (filter (reading_of readings (Some False)) ps),
      t_unread = t_unread t + length (filter (reading_of readings None) ps)\<rparr>"

lemma keeps_eq:
  "fst (fst (keeps readings same_entry p t)) = reading_keeps readings same_entry p"
  "snd (keeps readings same_entry p t) = add_tally readings [p] t"
  by (auto simp: keeps_def reading_keeps_def add_tally_def reading_of_def Let_def split: option.splits bool.splits)

lemma add_tally_Cons: "add_tally readings ps (add_tally readings [p] t) = add_tally readings (p # ps) t"
  by (simp add: add_tally_def)

lemma keep_declined_eq:
  "keep_declined readings same_entry ps t = (filter (reading_keeps readings same_entry) ps, add_tally readings ps t)"
proof (induction ps arbitrary: t)
  case (Cons p ps)
  obtain k s t1 where k: "keeps readings same_entry p t = ((k, s), t1)" by (metis prod.exhaust)
  then show ?case
    using keeps_eq [of readings same_entry p t] by (simp add: Cons.IH add_tally_Cons)
qed (simp add: add_tally_def)

lemma apply_readings_eq:
  "apply_readings sel readings same_entry =
     (sel\<lparr>signal := signal sel \<and> (case primary sel of None \<Rightarrow> True | Some p \<Rightarrow> reading_keeps readings same_entry p),
          declined := filter (reading_keeps readings same_entry) (declined sel),
          reading := (case primary sel of
              None \<Rightarrow> None
            | Some p \<Rightarrow> if signal sel then snd (fst (keeps readings same_entry p \<lparr>t_read = 0, t_cleared = 0, t_unread = 0\<rparr>)) else None)\<rparr>,
      add_tally readings (plan_readings sel) \<lparr>t_read = 0, t_cleared = 0, t_unread = 0\<rparr>)"
proof (cases "primary sel")
  case None
  then show ?thesis by (simp add: apply_readings_def keep_declined_eq plan_readings_def)
next
  case (Some p)
  obtain k s t1 where "keeps readings same_entry p \<lparr>t_read = 0, t_cleared = 0, t_unread = 0\<rparr> = ((k, s), t1)"
    by (metis prod.exhaust)
  then show ?thesis
    using Some keeps_eq [of readings same_entry p "\<lparr>t_read = 0, t_cleared = 0, t_unread = 0\<rparr>"]
    by (simp add: apply_readings_def keep_declined_eq plan_readings_def add_tally_Cons)
qed

section \<open>Extras\<close>

text \<open>
  The shape of the plan: extras the winner retires, in order, and after them at most one entry in
  which an extra retires the winner.
\<close>

definition extras_shape ::
  "(particle \<Rightarrow> int option option) \<Rightarrow> particle \<Rightarrow> particle list \<Rightarrow> (string \<times> string) list \<Rightarrow> particle list
     \<Rightarrow> (string \<times> string) list \<Rightarrow> bool" where
  "extras_shape ord winner others ds ls rest =
     (subseq ls others \<and> (\<forall>p \<in> set ls. \<exists>k > 0. ord p = Some (Some k)) \<and>
      ds = map (\<lambda>p. (p_id p, p_id winner)) ls @ rest \<and>
      (rest = [] \<or> (\<exists>p \<in> set others. \<exists>k \<le> 0. ord p = Some (Some k) \<and> rest = [(p_id winner, p_id p)])))"

lemma extras_shape_skip: "extras_shape ord winner others ds ls rest \<Longrightarrow> extras_shape ord winner (q # others) ds ls rest"
  by (auto simp: extras_shape_def)

lemma extras_shape_retire:
  "extras_shape ord winner others ds ls rest \<Longrightarrow> ord q = Some (Some k) \<Longrightarrow> k > 0 \<Longrightarrow>
     extras_shape ord winner (q # others) ((p_id q, p_id winner) # ds) (q # ls) rest"
  by (auto simp: extras_shape_def)

lemma extras_shape_stop:
  "ord q = Some (Some k) \<Longrightarrow> \<not> k > 0 \<Longrightarrow>
     extras_shape ord winner (q # others) [(p_id winner, p_id q)] [] [(p_id winner, p_id q)]"
  by (auto simp: extras_shape_def intro!: exI [of _ k])

lemma plan_update_extras_shape:
  assumes "plan_update_extras clib lib winner entry sid others entries pre upd revision = Some ds"
  shows "\<exists>ls rest. extras_shape (extra_order clib lib winner entry sid entries pre upd revision) winner others ds ls rest"
  using assms
proof (induction others arbitrary: ds)
  case Nil
  then show ?case by (auto simp: extras_shape_def)
next
  case (Cons q others)
  let ?ord = "extra_order clib lib winner entry sid entries pre upd revision"
  consider (skip) "?ord q = Some None" | (order) k where "?ord q = Some (Some k)"
    using Cons.prems by (cases "?ord q") (auto split: option.splits)
  then show ?case
  proof cases
    case skip
    then show ?thesis using Cons extras_shape_skip by fastforce
  next
    case order
    show ?thesis
    proof (cases "k > 0")
      case True
      then obtain ds' where "plan_update_extras clib lib winner entry sid others entries pre upd revision = Some ds'"
          "ds = (p_id q, p_id winner) # ds'"
        using order Cons.prems by auto
      then show ?thesis using Cons.IH extras_shape_retire order True by blast
    next
      case False
      then have "ds = [(p_id winner, p_id q)]" using order Cons.prems by auto
      then show ?thesis using extras_shape_stop [where ord = ?ord, OF order False] by blast
    qed
  qed
qed

lemma extra_order_Some:
  assumes "extra_order clib lib winner entry sid entries pre upd revision p = Some (Some k)"
  obtains ref k0 where "source_ref p = Some ref" "p_id p \<in> set upd" "lookup_or RECONCILE pre (p_id p) = RECONCILE"
    "newer_is_settled lib p winner k"
    "update_order clib winner entry (Some sid) p (lookup_or None entries (ref_entry ref)) (ref_snapshot ref) False None None
       = Some (Some k0)" "k = (if p_id p \<in> set revision then 1 else k0)"
  using assms unfolding extra_order_def Let_def
  by (auto split: if_splits option.splits)

section \<open>The properties\<close>

text \<open>
  C19. The probes \<^verbatim>\<open>plan_probes\<close> leaves out could not have changed the selection: where the ids asked the
  update question first come from \<^verbatim>\<open>plan_update_first\<close> and a different slot is never offered, the primary
  pair, the extras and the declined pairs are the same whether \<^verbatim>\<open>select_pairs\<close> is given the answers of
  all probes or of the planned ones only. (The signal of a pair settled first may differ: it was
  not asked.)
\<close>

theorem unplanned_probes_change_nothing:
  assumes "set admitted \<subseteq> set (map p_id (plan_update_first cp))" "\<not> offers_subject_pair lib (Some DIFFERENT)"
  shows "(select_pairs lib cp (only_planned (planned_ids lib cp verdicts admitted) probes) verdicts admitted)
           \<lparr>signal := signal (select_pairs lib cp probes verdicts admitted)\<rparr> =
         select_pairs lib cp probes verdicts admitted"
  using select_planned [OF assms refl] .

definition demo_slots :: slot_lib where
  "demo_slots =
     \<lparr>admits_update = (\<lambda>v. v = Some CHANGES), offers_subject_pair = (\<lambda>v. v \<noteq> Some DIFFERENT),
      newer_is_settled = (\<lambda>_ _ _. True), records_past_value = (\<lambda>_. False)\<rparr>"

definition demo_cp :: candidate_pairs where
  "demo_cp =
     \<lparr>nearest = Some (demo_claim ''a'' ''e''), subject_pool = [demo_claim ''b'' ''e''], preconditions = [], can_update = None\<rparr>"

theorem unplanned_probes_change_nothing_witness:
  "primary (select_pairs demo_slots demo_cp
      (only_planned (planned_ids demo_slots demo_cp [(''a'', CHANGES)] [''a'']) [(''a'', True), (''b'', True)])
      [(''a'', CHANGES)] [''a'']) =
   primary (select_pairs demo_slots demo_cp [(''a'', True), (''b'', True)] [(''a'', CHANGES)] [''a''])"
proof -
  have "set [''a''] \<subseteq> set (map p_id (plan_update_first demo_cp))"
    by (simp add: demo_cp_def plan_update_first_def precondition_of_def lookup_or_def demo_claim_def)
  moreover have "\<not> offers_subject_pair demo_slots (Some DIFFERENT)" by (simp add: demo_slots_def)
  ultimately show ?thesis
    by (metis (no_types) unplanned_probes_change_nothing pair_selection.select_convs(1) pair_selection.update_convs(2)
        pair_selection.cases)
qed

text \<open>
  C20. \<^verbatim>\<open>write_order\<close> is the stable sort of the candidates by whether one may retire a claim by update, those
  first: every candidate is written exactly once and the extractor's order is kept within each group.
\<close>

theorem write_order_is_stable_sort:
  "write_order lib sels = sort_key (\<lambda>i. updatable lib (sels ! i) = []) [0..<length sels]"
  by (rule write_order_sort)

text \<open>
  A rung 2.5 plan over the extras retires, in order, extras the winner is newer than, and after
  them at most the winner itself, by one newer extra, with which the plan ends. Every extra it names
  was confirmed to fill a changing slot, reconciles under the observer precondition, has a source,
  and is ordered against the winner by \<^verbatim>\<open>update_order\<close> (so both are extracted claims of one lineage)
  in the direction the plan takes or, for an earlier generation of the winner's own entry, as older.
\<close>

theorem update_extras_sound:
  assumes "plan_update_extras clib lib winner entry sid others entries pre upd revision = Some ds"
  shows "\<exists>ls rest. ds = map (\<lambda>p. (p_id p, p_id winner)) ls @ rest \<and> subseq ls others \<and> length rest \<le> 1 \<and>
           set rest \<subseteq> (\<lambda>p. (p_id winner, p_id p)) ` set others \<and>
           (\<forall>d \<in> set ds. \<exists>p \<in> set others. \<exists>ref k0. p_id p \<in> {fst d, snd d} \<and> p_id winner \<in> {fst d, snd d}
              \<and> p_id p \<in> set upd \<and> lookup_or RECONCILE pre (p_id p) = RECONCILE \<and> source_ref p = Some ref
              \<and> update_order clib winner entry (Some sid) p (lookup_or None entries (ref_entry ref)) (ref_snapshot ref)
                  False None None = Some (Some k0)
              \<and> (if p_id p \<in> set revision \<or> k0 > 0 then d = (p_id p, p_id winner) else d = (p_id winner, p_id p)))"
proof -
  let ?ord = "extra_order clib lib winner entry sid entries pre upd revision"
  obtain ls rest where shape: "extras_shape ?ord winner others ds ls rest"
    using plan_update_extras_shape [OF assms] by blast
  have named: "\<exists>ref k0. p_id p \<in> set upd \<and> lookup_or RECONCILE pre (p_id p) = RECONCILE \<and> source_ref p = Some ref
      \<and> update_order clib winner entry (Some sid) p (lookup_or None entries (ref_entry ref)) (ref_snapshot ref)
          False None None = Some (Some k0)
      \<and> (p_id p \<in> set revision \<or> k0 > 0 \<longleftrightarrow> k > 0)" if "?ord p = Some (Some k)" for p k
    using that by (rule extra_order_Some) (auto split: if_splits)
  have "set ls \<subseteq> set others"
    using shape unfolding extras_shape_def by (auto elim!: list_emb_set)
  then have each: "\<exists>p \<in> set others. \<exists>k. ?ord p = Some (Some k) \<and>
      (if k > 0 then d = (p_id p, p_id winner) else d = (p_id winner, p_id p))" if "d \<in> set ds" for d
    using that shape unfolding extras_shape_def by fastforce
  have "\<exists>p \<in> set others. \<exists>ref k0. p_id p \<in> {fst d, snd d} \<and> p_id winner \<in> {fst d, snd d}
      \<and> p_id p \<in> set upd \<and> lookup_or RECONCILE pre (p_id p) = RECONCILE \<and> source_ref p = Some ref
      \<and> update_order clib winner entry (Some sid) p (lookup_or None entries (ref_entry ref)) (ref_snapshot ref)
          False None None = Some (Some k0)
      \<and> (if p_id p \<in> set revision \<or> k0 > 0 then d = (p_id p, p_id winner) else d = (p_id winner, p_id p))"
    if d: "d \<in> set ds" for d
  proof -
    obtain p k where p: "p \<in> set others" "?ord p = Some (Some k)"
        "if k > 0 then d = (p_id p, p_id winner) else d = (p_id winner, p_id p)"
      using each [OF d] by blast
    then show ?thesis using named [OF p(2)] by (intro bexI [OF _ p(1)]) (auto split: if_splits)
  qed
  moreover have "ds = map (\<lambda>p. (p_id p, p_id winner)) ls @ rest" "subseq ls others" "length rest \<le> 1"
      "set rest \<subseteq> (\<lambda>p. (p_id winner, p_id p)) ` set others"
    using shape unfolding extras_shape_def by auto
  ultimately show ?thesis by blast
qed

theorem update_extras_sound_witness:
  "\<exists>(ls :: particle list) rest. plan_update_extras demo_lib demo_slots (demo_claim ''w'' ''e'') (Some (demo_file ''e'' ''x'' [] 2)) ''s''
       [demo_claim ''o'' ''e''] [(''e'', Some (demo_file ''e'' ''x'' [] 1))] [] [''o''] [] =
     Some (map (\<lambda>p. (p_id p, ''w'')) ls @ rest) \<and> length rest \<le> 1"
proof -
  have plan: "plan_update_extras demo_lib demo_slots (demo_claim ''w'' ''e'') (Some (demo_file ''e'' ''x'' [] 2)) ''s''
       [demo_claim ''o'' ''e''] [(''e'', Some (demo_file ''e'' ''x'' [] 1))] [] [''o''] [] = Some [(''o'', ''w'')]"
    by (simp add: extra_order_def source_ref_def lookup_or_def demo_slots_def demo_claim_simps)
  have w: "p_id (demo_claim ''w'' ''e'') = ''w''" by (simp add: demo_claim_def)
  show ?thesis unfolding plan option.inject using update_extras_sound [OF plan, unfolded w]
    by (elim exE conjE) (rule exI, rule exI, rule conjI)
qed

text \<open>
  A second reading only withdraws: the pairs, extras, slots and same-slot ids are untouched, the
  primary's signal and each declined pair stand exactly when the reading confirmed it, was not made,
  or failed on a claim of the candidate's own entry; and the tally counts the planned pairs that were
  read, cleared and unread.
\<close>

theorem readings_only_withdraw:
  "\<exists>stamp. apply_readings sel readings same_entry =
     (sel\<lparr>signal := signal sel \<and> (case primary sel of None \<Rightarrow> True | Some p \<Rightarrow> reading_keeps readings same_entry p),
          declined := filter (reading_keeps readings same_entry) (declined sel), reading := stamp\<rparr>,
      add_tally readings (plan_readings sel) \<lparr>t_read = 0, t_cleared = 0, t_unread = 0\<rparr>)"
  unfolding apply_readings_eq by blast

end
