(* ===== verification/Duplicate_Suppression.thy ===== *)
theory Duplicate_Suppression
  imports Particle_Store Update_Supersession
begin

text \<open>
  \<^verbatim>\<open>src/particles/ingest/duplicate_suppression.py\<close>: whether a candidate is already held verbatim by an
  active particle, or re-asserts a claim a judgment retired, with the two store reads behind it
  (\<^verbatim>\<open>particle_store.get_active_particles_by_content_hashes\<close> and
  \<^verbatim>\<open>get_particles_by_content_hashes_and_state\<close>).

  The content hash and the identity key of \<^verbatim>\<open>particles.core.duplicate_key\<close> are the fields of \<open>key_lib\<close>,
  of any type \<open>'key\<close>. The reads compare the stored, nullable hash column, which the insertion of a row fills.
\<close>

record 'key key_lib =
  content_hash :: "string \<Rightarrow> string"
  duplicate_key :: "string \<Rightarrow> string list \<Rightarrow> string option \<Rightarrow> 'key"
  holder_from_properties :: "(string, json) dict option \<Rightarrow> string option"

section \<open>The identity index\<close>

definition is_suppression_eligible :: "'emb claim_lib \<Rightarrow> particle \<Rightarrow> bool" where
  "is_suppression_eligible lib p =
     (if \<not> is_truth_apt lib p then False
      else \<not> (is_excluded_document_meta lib (p_properties p) \<or> is_non_asserted lib (p_properties p)))"

definition particle_key :: "'key key_lib \<Rightarrow> particle \<Rightarrow> 'key" where
  "particle_key klib p = duplicate_key klib (p_content p) (p_subject_ids p) (holder_from_properties klib (p_properties p))"

record 'key duplicate_index =
  by_key :: "('key, particle) dict"
  exclude_ids :: "string list"

definition add_to_index ::
  "'emb claim_lib \<Rightarrow> 'key key_lib \<Rightarrow> particle \<Rightarrow> 'key duplicate_index \<Rightarrow> 'key duplicate_index" where
  "add_to_index lib klib p ix =
     (if p_id p \<in> set (exclude_ids ix) \<or> \<not> is_suppression_eligible lib p then ix
      else case map_of (by_key ix) (particle_key klib p) of
             Some _ \<Rightarrow> ix
           | None \<Rightarrow> ix\<lparr>by_key := AList.update (particle_key klib p) p (by_key ix)\<rparr>)"

definition init_index ::
  "'emb claim_lib \<Rightarrow> 'key key_lib \<Rightarrow> particle list \<Rightarrow> string list \<Rightarrow> 'key duplicate_index" where
  "init_index lib klib existing excluded =
     fold (add_to_index lib klib) existing \<lparr>by_key = [], exclude_ids = excluded\<rparr>"

definition find_duplicate ::
  "'emb claim_lib \<Rightarrow> 'key key_lib \<Rightarrow> 'key duplicate_index \<Rightarrow> particle \<Rightarrow> particle option" where
  "find_duplicate lib klib ix p =
     (if \<not> is_suppression_eligible lib p then None else map_of (by_key ix) (particle_key klib p))"

section \<open>The store reads\<close>

definition rows_where :: "(particle_row \<Rightarrow> bool) \<Rightarrow> store \<Rightarrow> particle list" where
  "rows_where cond st = map r_particle (filter cond (map snd (st_rows st)))"

text \<open>\<^verbatim>\<open>content_norm_hash IN (...)\<close>: never true of a NULL.\<close>

definition hash_among :: "string list \<Rightarrow> particle_row \<Rightarrow> bool" where
  "hash_among hashes r = (case r_content_hash r of None \<Rightarrow> False | Some h \<Rightarrow> h \<in> set hashes)"

definition get_active_particles_by_content_hashes :: "store \<Rightarrow> string list \<Rightarrow> particle list" where
  "get_active_particles_by_content_hashes st hashes =
     (let keys = filter (\<lambda>h. h \<noteq> []) (fromkeys hashes)
      in concat (map (\<lambda>chunk. rows_where (\<lambda>r. p_status (r_particle r) = ACTIVE \<and> hash_among chunk r) st)
           (chunks 500 keys)))"

definition get_particles_by_content_hashes_and_state ::
  "store \<Rightarrow> string list \<Rightarrow> (status \<times> status_reason) list \<Rightarrow> particle list" where
  "get_particles_by_content_hashes_and_state st hashes states =
     (let keys = filter (\<lambda>h. h \<noteq> []) (fromkeys hashes)
      in concat (map (\<lambda>(s, reason). concat (map (\<lambda>chunk. rows_where
           (\<lambda>r. (p_status (r_particle r) = s \<and> p_reason (r_particle r) = Some reason) \<and> hash_among chunk r) st)
             (chunks 500 keys))) states))"

definition build_duplicate_index ::
  "'emb claim_lib \<Rightarrow> 'key key_lib \<Rightarrow> store \<Rightarrow> string list \<Rightarrow> string list \<Rightarrow> 'key duplicate_index" where
  "build_duplicate_index lib klib st contents excluded =
     init_index lib klib
       (get_active_particles_by_content_hashes st (map (content_hash klib) contents)) excluded"

section \<open>Retired values\<close>

definition JUDGMENT_RETIREMENTS :: "(status \<times> status_reason) list" where
  "JUDGMENT_RETIREMENTS =
     [(RETRACTED, EXPLICIT_RETRACTION), (SUPERSEDED, EXPLICIT_SUPERSESSION), (PROVENANCE_STALE, CONFLICT_RESOLVED)]"

definition PENDING_HOLD :: "(status \<times> status_reason) list" where
  "PENDING_HOLD = [(PROVENANCE_STALE, CONFLICT_PENDING)]"

definition IMPORTED_BY :: string where
  "IMPORTED_BY = ''interchange-import''"

definition in_states :: "(status \<times> status_reason) list \<Rightarrow> particle \<Rightarrow> bool" where
  "in_states states p = (case p_reason p of None \<Rightarrow> False | Some r \<Rightarrow> (p_status p, r) \<in> set states)"

definition is_judgment_retired :: "particle \<Rightarrow> bool" where
  "is_judgment_retired p = in_states JUDGMENT_RETIREMENTS p"

definition is_pending_hold :: "particle \<Rightarrow> bool" where
  "is_pending_hold p = in_states PENDING_HOLD p"

definition status_came_with_a_bundle :: "store \<Rightarrow> particle \<Rightarrow> store_error + bool" where
  "status_came_with_a_bundle st p =
     (if p_asserted_by p \<noteq> IMPORTED_BY then Inr False
      else case get_retired_at st (p_id p) of Inl e \<Rightarrow> Inl e | Inr t \<Rightarrow> Inr (t = None))"

fun without_bundled :: "store \<Rightarrow> particle list \<Rightarrow> store_error + particle list" where
  "without_bundled st [] = Inr []"
| "without_bundled st (p # ps) =
     (case status_came_with_a_bundle st p of
        Inl e \<Rightarrow> Inl e
      | Inr b \<Rightarrow>
          (case without_bundled st ps of Inl e \<Rightarrow> Inl e | Inr qs \<Rightarrow> Inr (if b then qs else p # qs)))"

definition build_retired_value_index ::
  "'emb claim_lib \<Rightarrow> 'key key_lib \<Rightarrow> store \<Rightarrow> string list \<Rightarrow> string list \<Rightarrow> store_error + 'key duplicate_index" where
  "build_retired_value_index lib klib st contents excluded =
     (let hashes = map (content_hash klib) contents;
          pending = get_particles_by_content_hashes_and_state st hashes PENDING_HOLD;
          retired = get_particles_by_content_hashes_and_state st hashes JUDGMENT_RETIREMENTS
      in case without_bundled st (pending @ retired) of
           Inl e \<Rightarrow> Inl e
         | Inr rows \<Rightarrow> Inr (init_index lib klib rows excluded))"

section \<open>What the index finds\<close>

lemma List_find_append: "List.find P (xs @ ys) = (case List.find P xs of None \<Rightarrow> List.find P ys | Some x \<Rightarrow> Some x)"
  by (induction xs) auto

definition target :: "'emb claim_lib \<Rightarrow> 'key key_lib \<Rightarrow> string list \<Rightarrow> 'key \<Rightarrow> particle \<Rightarrow> bool" where
  "target lib klib excluded k q = (p_id q \<notin> set excluded \<and> is_suppression_eligible lib q \<and> particle_key klib q = k)"

lemma exclude_ids_add [simp]: "exclude_ids (add_to_index lib klib p ix) = exclude_ids ix"
  by (simp add: add_to_index_def split: option.splits)

lemma map_of_add_to_index:
  "map_of (by_key (add_to_index lib klib p ix)) k =
     (case map_of (by_key ix) k of
        Some q \<Rightarrow> Some q
      | None \<Rightarrow> if target lib klib (exclude_ids ix) k p then Some p else None)"
  by (auto simp: add_to_index_def target_def split: option.splits)

lemma map_of_fold_add:
  "map_of (by_key (fold (add_to_index lib klib) ps ix)) k =
     (case map_of (by_key ix) k of
        Some q \<Rightarrow> Some q | None \<Rightarrow> List.find (target lib klib (exclude_ids ix) k) ps)"
  by (induction ps arbitrary: ix) (auto simp: map_of_add_to_index split: option.splits)

lemma find_first:
  "find_duplicate lib klib (init_index lib klib existing excluded) p =
     (if is_suppression_eligible lib p then List.find (target lib klib excluded (particle_key klib p)) existing else None)"
  by (simp add: find_duplicate_def init_index_def map_of_fold_add)

section \<open>What the reads return\<close>

lemma set_fromkeys [simp]: "set (fromkeys xs) = set xs"
  by (induction xs rule: fromkeys.induct) auto

lemma set_rows_where: "q \<in> set (rows_where cond st) \<longleftrightarrow> (\<exists>i r. (i, r) \<in> set (st_rows st) \<and> cond r \<and> q = r_particle r)"
  by (force simp: rows_where_def)

lemma hash_among_Union: "hash_among hashes r \<longleftrightarrow> (\<exists>c \<in> set (chunks 500 hashes). hash_among c r)"
  using set_chunks [of 500 hashes] by (auto simp: hash_among_def split: option.splits)

lemma set_chunked_rows:
  "set (concat (map (\<lambda>chunk. rows_where (\<lambda>r. cond r \<and> hash_among chunk r) st) (chunks 500 keys))) =
     set (rows_where (\<lambda>r. cond r \<and> hash_among keys r) st)"
  unfolding hash_among_Union [of keys] by (simp add: set_eq_iff set_rows_where) blast

lemma hash_among_keys: "hash_among (filter (\<lambda>h. h \<noteq> []) (fromkeys hashes)) r \<longleftrightarrow> hash_among hashes r \<and> r_content_hash r \<noteq> Some []"
  by (auto simp: hash_among_def split: option.splits)

lemma set_active_by_hashes:
  "set (get_active_particles_by_content_hashes st hashes) =
     set (rows_where (\<lambda>r. p_status (r_particle r) = ACTIVE \<and> hash_among hashes r \<and> r_content_hash r \<noteq> Some []) st)"
  unfolding get_active_particles_by_content_hashes_def Let_def set_chunked_rows hash_among_keys ..

lemma in_states_iff: "in_states states p \<longleftrightarrow> (\<exists>x \<in> set states. p_status p = fst x \<and> p_reason p = Some (snd x))"
  by (force simp: in_states_def split: option.splits)

lemma set_by_hashes_and_state:
  "set (get_particles_by_content_hashes_and_state st hashes states) =
     set (rows_where (\<lambda>r. in_states states (r_particle r) \<and> hash_among hashes r \<and> r_content_hash r \<noteq> Some []) st)"
proof -
  let ?keys = "filter (\<lambda>h. h \<noteq> []) (fromkeys hashes)"
  have "set (get_particles_by_content_hashes_and_state st hashes states) =
      (\<Union>(s, reason) \<in> set states. set (rows_where (\<lambda>r. (p_status (r_particle r) = s \<and> p_reason (r_particle r) = Some reason)
         \<and> hash_among ?keys r) st))"
    unfolding get_particles_by_content_hashes_and_state_def Let_def set_concat [of "map _ states"] set_map image_image
    by (rule SUP_cong [OF refl]) (simp only: case_prod_unfold set_chunked_rows)
  then show ?thesis
    unfolding hash_among_keys case_prod_unfold by (simp add: set_eq_iff set_rows_where in_states_iff) blast
qed

section \<open>The hash column\<close>

text \<open>
  A store written by an engine of any age: a row's hash is NULL, or the hash of its content. The writes
  of the store keep this, given that both sides hash with the same function.
\<close>

definition hash_column :: "'key key_lib \<Rightarrow> store \<Rightarrow> bool" where
  "hash_column klib st =
     (\<forall>i r. row_of st i = Some r \<longrightarrow> r_content_hash r \<in> {None, Some (content_hash klib (p_content (r_particle r)))})"

lemma run_command_hash_column:
  assumes "content_digest rules = content_hash klib" "run_command rules c st = Inr st'" "hash_column klib st"
  shows "hash_column klib st'"
  unfolding hash_column_def
proof (intro allI impI)
  fix i r' assume r': "row_of st' i = Some r'"
  show "r_content_hash r' \<in> {None, Some (content_hash klib (p_content (r_particle r')))}"
  proof (cases "row_of st i")
    case None
    then show ?thesis using run_command_row_origin [OF assms(2) r'] assms(1) by simp
  next
    case (Some r)
    then show ?thesis
      using run_command_keeps [OF assms(2) Some] r' assms(3) by (auto simp: row_keeps_def hash_column_def Let_def)
  qed
qed

lemma run_all_hash_column:
  assumes "content_digest rules = content_hash klib"
  shows "run_all (run_command rules) cs st = Inr st' \<Longrightarrow> hash_column klib st \<Longrightarrow> hash_column klib st'"
  by (induction cs arbitrary: st) (auto split: sum.splits intro: run_command_hash_column [OF assms])

lemma run_all_distinct:
  "run_all (run_command rules) cs st = Inr st' \<Longrightarrow> distinct (map fst (st_rows st)) \<Longrightarrow> distinct (map fst (st_rows st'))"
  by (induction cs arbitrary: st) (auto split: sum.splits dest: run_command_distinct)

text \<open>Only rows that were there before can have no hash.\<close>

lemma new_rows_hashed:
  assumes "run_all (run_command rules) cs st0 = Inr st" "row_of st0 i = None" "row_of st i = Some r"
  shows "r_content_hash r \<noteq> None"
  using assms(1,2)
proof (induction cs arbitrary: st0)
  case Nil
  then show ?case using assms(3) by simp
next
  case (Cons c cs)
  then obtain st1 where st1: "run_command rules c st0 = Inr st1" "run_all (run_command rules) cs st1 = Inr st"
    by (auto split: sum.splits)
  show ?case
  proof (cases "row_of st1 i")
    case None
    then show ?thesis using Cons.IH [OF st1(2)] by blast
  next
    case (Some r1)
    then have "r_content_hash r1 \<noteq> None" using run_command_row_origin [OF st1(1) Some] Cons.prems(2) by auto
    moreover have "row_keeps r1 r" using store_history.session_keeps [OF st1(2) Some] assms(3) by auto
    ultimately show ?thesis by (simp add: row_keeps_def Let_def)
  qed
qed

section \<open>The properties\<close>

text \<open>The documented law of the key library: claims with one key have one, non-empty, content hash.\<close>

definition hash_of_key :: "'key key_lib \<Rightarrow> bool" where
  "hash_of_key klib =
     (\<forall>c ss h c' ss' h'. content_hash klib c \<noteq> [] \<and>
        (duplicate_key klib c ss h = duplicate_key klib c' ss' h' \<longrightarrow> content_hash klib c = content_hash klib c'))"

lemma same_key_same_hash:
  "hash_of_key klib \<Longrightarrow> particle_key klib p = particle_key klib q \<Longrightarrow>
     content_hash klib (p_content p) = content_hash klib (p_content q) \<and> content_hash klib (p_content p) \<noteq> []"
  unfolding hash_of_key_def particle_key_def by metis

lemma found_target:
  "find_duplicate lib klib (init_index lib klib existing excluded) p = Some q \<Longrightarrow>
     q \<in> set existing \<and> target lib klib excluded (particle_key klib p) q"
  by (auto simp: find_first find_Some_iff split: if_splits)

lemma not_found:
  "find_duplicate lib klib (init_index lib klib existing excluded) p = None \<Longrightarrow> is_suppression_eligible lib p \<Longrightarrow>
     q \<in> set existing \<Longrightarrow> \<not> target lib klib excluded (particle_key klib p) q"
  by (simp add: find_first find_None_iff)

text \<open>A twin: an eligible row with a stored hash and the candidate's key, outside the excluded ids.\<close>

definition twin_row :: "'emb claim_lib \<Rightarrow> 'key key_lib \<Rightarrow> store \<Rightarrow> string list \<Rightarrow> particle \<Rightarrow> particle_row \<Rightarrow> bool" where
  "twin_row lib klib st excluded p r =
     (row_of st (p_id (r_particle r)) = Some r \<and> r_content_hash r \<noteq> None \<and> p_id (r_particle r) \<notin> set excluded
      \<and> is_suppression_eligible lib (r_particle r) \<and> particle_key klib (r_particle r) = particle_key klib p)"

definition well_hashed :: "'key key_lib \<Rightarrow> store \<Rightarrow> bool" where
  "well_hashed klib st = (hash_of_key klib \<and> hash_column klib st \<and> rows_inv st \<and> distinct (map fst (st_rows st)))"

lemma stored_row:
  "well_hashed klib st \<Longrightarrow> (i, r) \<in> set (st_rows st) \<longleftrightarrow> i = p_id (r_particle r) \<and> row_of st (p_id (r_particle r)) = Some r"
  unfolding well_hashed_def by (metis map_of_eq_Some_iff row_of_def rows_inv_def)

text \<open>The probe by hash, followed by the comparison of keys, loses no twin.\<close>

lemma probed_twin:
  assumes "well_hashed klib st" "p_content p \<in> set contents"
  shows "(\<exists>i. (i, r) \<in> set (st_rows st)) \<and> (hash_among (map (content_hash klib) contents) r \<and> r_content_hash r \<noteq> Some [])
           \<and> target lib klib excluded (particle_key klib p) (r_particle r) \<longleftrightarrow> twin_row lib klib st excluded p r"
proof
  assume "twin_row lib klib st excluded p r"
  then have r: "row_of st (p_id (r_particle r)) = Some r" "r_content_hash r \<noteq> None"
      "target lib klib excluded (particle_key klib p) (r_particle r)"
    by (auto simp: twin_row_def target_def)
  then have "r_content_hash r = Some (content_hash klib (p_content (r_particle r)))"
    using assms(1) by (force simp: hash_column_def well_hashed_def)
  moreover have "content_hash klib (p_content (r_particle r)) = content_hash klib (p_content p)"
      "content_hash klib (p_content p) \<noteq> []"
    using same_key_same_hash [of klib p "r_particle r"] r(3) assms(1) by (auto simp: target_def well_hashed_def)
  ultimately show "(\<exists>i. (i, r) \<in> set (st_rows st)) \<and> (hash_among (map (content_hash klib) contents) r \<and> r_content_hash r \<noteq> Some [])
      \<and> target lib klib excluded (particle_key klib p) (r_particle r)"
    using r assms by (auto simp: hash_among_def stored_row [OF assms(1)])
qed (auto simp: twin_row_def target_def hash_among_def stored_row [OF assms(1)] split: option.splits)

lemma active_row_found:
  assumes "well_hashed klib st" "p_content p \<in> set contents" "is_suppression_eligible lib p"
  shows "case find_duplicate lib klib (build_duplicate_index lib klib st contents excluded) p of
           Some q \<Rightarrow> \<exists>r. twin_row lib klib st excluded p r \<and> p_status (r_particle r) = ACTIVE \<and> q = r_particle r
         | None \<Rightarrow> \<nexists>r. twin_row lib klib st excluded p r \<and> p_status (r_particle r) = ACTIVE"
proof -
  have rows: "q \<in> set (get_active_particles_by_content_hashes st (map (content_hash klib) contents))
        \<and> target lib klib excluded (particle_key klib p) q \<longleftrightarrow>
      (\<exists>r. twin_row lib klib st excluded p r \<and> p_status (r_particle r) = ACTIVE \<and> q = r_particle r)" for q
    unfolding set_active_by_hashes set_rows_where probed_twin [OF assms(1,2), symmetric] by blast
  show ?thesis
  proof (cases "find_duplicate lib klib (build_duplicate_index lib klib st contents excluded) p")
    case None
    then show ?thesis
      using not_found [OF None [unfolded build_duplicate_index_def] assms(3)] rows by auto
  next
    case (Some q)
    then show ?thesis using found_target [OF Some [unfolded build_duplicate_index_def]] rows [of q] by simp
  qed
qed

lemma without_bundled_total:
  assumes "well_hashed klib st" "\<And>p. p \<in> set ps \<Longrightarrow> \<exists>i r. (i, r) \<in> set (st_rows st) \<and> p = r_particle r"
  shows "without_bundled st ps = Inr (filter (\<lambda>p. status_came_with_a_bundle st p = Inr False) ps)"
  using assms(2)
proof (induction ps)
  case (Cons p ps)
  then obtain i r where "(i, r) \<in> set (st_rows st)" "p = r_particle r" by force
  then have "row_of st (p_id p) = Some r" using stored_row [OF assms(1)] by blast
  then have "\<exists>b. status_came_with_a_bundle st p = Inr b"
    by (auto simp: status_came_with_a_bundle_def get_retired_at_def)
  with Cons show ?case by auto
qed simp

text \<open>A twin whose status this store gave: retired by a judgment, or an open hold.\<close>

lemma state_rows:
  assumes "well_hashed klib st" "p_content p \<in> set contents"
  shows "q \<in> set (filter (\<lambda>q. status_came_with_a_bundle st q = Inr False)
             (get_particles_by_content_hashes_and_state st (map (content_hash klib) contents) states))
           \<and> target lib klib excluded (particle_key klib p) q \<longleftrightarrow>
         (\<exists>r. twin_row lib klib st excluded p r \<and> in_states states (r_particle r)
            \<and> (p_asserted_by (r_particle r) \<noteq> IMPORTED_BY \<or> r_retired_at r \<noteq> None) \<and> q = r_particle r)"
proof -
  have kept: "status_came_with_a_bundle st (r_particle r) = Inr False \<longleftrightarrow>
      p_asserted_by (r_particle r) \<noteq> IMPORTED_BY \<or> r_retired_at r \<noteq> None" if "twin_row lib klib st excluded p r" for r
    using that by (auto simp: status_came_with_a_bundle_def get_retired_at_def twin_row_def)
  have "q \<in> set (get_particles_by_content_hashes_and_state st (map (content_hash klib) contents) states)
           \<and> target lib klib excluded (particle_key klib p) q \<longleftrightarrow>
         (\<exists>r. twin_row lib klib st excluded p r \<and> in_states states (r_particle r) \<and> q = r_particle r)"
    unfolding set_by_hashes_and_state set_rows_where probed_twin [OF assms(1,2), symmetric] by blast
  then show ?thesis using kept by auto
qed

lemma reach_well_hashed:
  "store_reach rules st \<Longrightarrow> hash_of_key klib \<Longrightarrow> content_digest rules = content_hash klib \<Longrightarrow> well_hashed klib st"
  using store_reach_inv [of rules st] store_reach_hashed [of rules st] store_reach_distinct [of rules st]
  by (auto simp: well_hashed_def hash_column_def rows_hashed_def)

text \<open>The rows of the retired-value index, the open holds first.\<close>

definition retired_twin_row :: "'emb claim_lib \<Rightarrow> 'key key_lib \<Rightarrow> store \<Rightarrow> string list \<Rightarrow> particle \<Rightarrow> particle_row \<Rightarrow> bool" where
  "retired_twin_row lib klib st excluded p r =
     (twin_row lib klib st excluded p r \<and> (is_judgment_retired (r_particle r) \<or> is_pending_hold (r_particle r))
      \<and> (p_asserted_by (r_particle r) \<noteq> IMPORTED_BY \<or> r_retired_at r \<noteq> None))"

lemma find_append_first:
  assumes "is_suppression_eligible lib p"
  shows "find_duplicate lib klib (init_index lib klib (rs @ rs') excluded) p =
     (case find_duplicate lib klib (init_index lib klib rs excluded) p of
        Some q \<Rightarrow> Some q | None \<Rightarrow> find_duplicate lib klib (init_index lib klib rs' excluded) p)"
  using assms by (simp add: find_first List_find_append split: option.split)

lemma retired_row_found:
  assumes "well_hashed klib st"
  obtains ix where "build_retired_value_index lib klib st contents excluded = Inr ix"
    "\<And>p. p_content p \<in> set contents \<Longrightarrow> is_suppression_eligible lib p \<Longrightarrow>
       case find_duplicate lib klib ix p of
         Some q \<Rightarrow> (\<exists>r. retired_twin_row lib klib st excluded p r \<and> q = r_particle r) \<and>
                    (is_pending_hold q \<longleftrightarrow> (\<exists>r. retired_twin_row lib klib st excluded p r \<and> is_pending_hold (r_particle r)))
       | None \<Rightarrow> \<nexists>r. retired_twin_row lib klib st excluded p r"
proof -
  let ?hs = "map (content_hash klib) contents"
  let ?rows = "get_particles_by_content_hashes_and_state st ?hs"
  let ?kept = "\<lambda>states. filter (\<lambda>p. status_came_with_a_bundle st p = Inr False) (?rows states)"
  let ?ix = "\<lambda>states. init_index lib klib (?kept states) excluded"
  let ?both = "init_index lib klib (?kept PENDING_HOLD @ ?kept JUDGMENT_RETIREMENTS) excluded"
  have "\<exists>i r. (i, r) \<in> set (st_rows st) \<and> p = r_particle r" if "p \<in> set (?rows PENDING_HOLD @ ?rows JUDGMENT_RETIREMENTS)" for p
    using that by (auto simp: set_by_hashes_and_state set_rows_where)
  then have built: "build_retired_value_index lib klib st contents excluded = Inr ?both"
    using without_bundled_total [OF assms, of "?rows PENDING_HOLD @ ?rows JUDGMENT_RETIREMENTS"]
    by (simp add: build_retired_value_index_def Let_def)
  have one: "case find_duplicate lib klib (?ix states) p of
       Some q \<Rightarrow> in_states states q \<and> (\<exists>r. twin_row lib klib st excluded p r
          \<and> (p_asserted_by (r_particle r) \<noteq> IMPORTED_BY \<or> r_retired_at r \<noteq> None) \<and> q = r_particle r)
     | None \<Rightarrow> \<nexists>r. twin_row lib klib st excluded p r \<and> in_states states (r_particle r)
          \<and> (p_asserted_by (r_particle r) \<noteq> IMPORTED_BY \<or> r_retired_at r \<noteq> None)"
    if "p_content p \<in> set contents" "is_suppression_eligible lib p" for p states
  proof (cases "find_duplicate lib klib (?ix states) p")
    case None
    have "\<not> (q \<in> set (?kept states) \<and> target lib klib excluded (particle_key klib p) q)" for q
      using not_found [OF None that(2)] by blast
    with None show ?thesis unfolding state_rows [OF assms that(1)] by auto
  next
    case (Some q)
    then show ?thesis
      using found_target [OF Some] state_rows [OF assms that(1), of q states lib excluded] by auto
  qed
  show ?thesis
  proof (rule that [OF built], goal_cases)
    case (1 p)
    have apart: "\<not> (is_pending_hold q \<and> is_judgment_retired q)" for q
      by (auto simp: is_pending_hold_def is_judgment_retired_def in_states_def PENDING_HOLD_def JUDGMENT_RETIREMENTS_def
          split: option.splits)
    show ?case
      using one [OF 1, of PENDING_HOLD] one [OF 1, of JUDGMENT_RETIREMENTS] apart
      unfolding find_append_first [OF 1(2)] retired_twin_row_def
      by (auto simp: is_pending_hold_def is_judgment_retired_def split: option.splits)
  qed
qed

definition demo_keys :: "(string \<times> string list \<times> string option) key_lib" where
  "demo_keys =
     \<lparr>content_hash = (\<lambda>c. CHR ''h'' # c), duplicate_key = (\<lambda>c ss h. (c, ss, h)), holder_from_properties = (\<lambda>_. None)\<rparr>"

lemma demo_keys_law: "hash_of_key demo_keys"
  by (simp add: hash_of_key_def demo_keys_def)

lemma demo_digest: "content_digest demo_rules = content_hash demo_keys"
  by (simp add: demo_rules_def demo_keys_def)

text \<open>
  C21. A candidate is suppressed exactly when it should be: it is eligible and the store holds, ACTIVE and not
  excluded, an eligible particle with the same identity key and a stored hash; the particle found is such a row.
  The chunked hash probe misses only rows whose hash column is NULL, and no row inserted since is one.
  \<open>st0\<close> is a store of any age, each row hashed or NULL; \<open>st\<close> is what any writes make of it.
\<close>

theorem suppressed_iff_held:
  assumes "hash_of_key klib" "content_digest rules = content_hash klib"
    and "hash_column klib st0" "rows_inv st0" "distinct (map fst (st_rows st0))"
    and "run_all (run_command rules) cs st0 = Inr st" "p_content p \<in> set contents"
  shows "(case find_duplicate lib klib (build_duplicate_index lib klib st contents excluded) p of
            Some q \<Rightarrow> is_suppression_eligible lib p
              \<and> (\<exists>r. twin_row lib klib st excluded p r \<and> p_status (r_particle r) = ACTIVE \<and> q = r_particle r)
          | None \<Rightarrow> is_suppression_eligible lib p \<longrightarrow>
              (\<nexists>r. twin_row lib klib st excluded p r \<and> p_status (r_particle r) = ACTIVE))
         \<and> (\<forall>i r. row_of st0 i = None \<and> row_of st i = Some r \<longrightarrow> r_content_hash r \<noteq> None)"
proof -
  have "well_hashed klib st"
    using assms(1) run_all_hash_column [OF assms(2,6,3)] run_all_rows_inv [OF assms(6,4)] run_all_distinct [OF assms(6,5)]
    by (simp add: well_hashed_def)
  note found = active_row_found [OF this assms(7), of lib excluded]
  show ?thesis
    using found new_rows_hashed [OF assms(6)]
    by (cases "is_suppression_eligible lib p") (auto simp: find_duplicate_def split: option.splits)
qed

text \<open>One old row without a hash is missed; the row inserted since, with the same text, is found.\<close>

definition demo_old_store :: store where
  "demo_old_store = put_row ''a'' ((from_model demo_rules (demo_particle ''a'' ''old'') None)\<lparr>r_content_hash := None\<rparr>) empty_store"

theorem suppressed_iff_held_witness:
  "(let find = (\<lambda>st. find_duplicate demo_lib demo_keys (build_duplicate_index demo_lib demo_keys st [''old''] [])
                 (demo_particle ''c'' ''old''));
        later = projr (run_all (run_command demo_rules) [Insert (demo_particle ''b'' ''old'') None None] demo_old_store)
    in find demo_old_store = None \<and> (\<exists>r. find later = Some (r_particle r) \<and> row_of later ''b'' = Some r))"
proof -
  let ?cs = "[Insert (demo_particle ''b'' ''old'') None None]"
  let ?p = "demo_particle ''c'' ''old''"
  have laws: "hash_column demo_keys demo_old_store" "rows_inv demo_old_store" "distinct (map fst (st_rows demo_old_store))"
    by (auto simp: demo_old_store_def hash_column_def rows_inv_def row_inv_def put_row_def demo_store_simps Let_def)
  define later where "later = projr (run_all (run_command demo_rules) ?cs demo_old_store)"
  have run: "run_all (run_command demo_rules) ?cs demo_old_store = Inr later"
    unfolding later_def by (simp add: demo_old_store_def put_row_def demo_store_simps Let_def)
  have old: "\<not> twin_row demo_lib demo_keys demo_old_store [] ?p r" for r
    by (auto simp: twin_row_def demo_old_store_def put_row_def demo_store_simps Let_def split: if_splits)
  have p: "p_content ?p \<in> set [''old'']" "is_suppression_eligible demo_lib ?p"
    by (simp_all add: demo_particle_def is_suppression_eligible_def demo_lib_def)
  have row: "\<exists>r. row_of later ''b'' = Some r \<and> p_id (r_particle r) = ''b'' \<and> p_status (r_particle r) = ACTIVE
      \<and> twin_row demo_lib demo_keys later [] ?p r"
    unfolding later_def
    by (simp add: twin_row_def demo_old_store_def put_row_def demo_store_simps Let_def particle_key_def demo_keys_def
        is_suppression_eligible_def demo_lib_def)
  have only: "p_id (r_particle r) = ''b''" if "twin_row demo_lib demo_keys later [] ?p r" for r
    using that unfolding later_def
    by (auto simp: twin_row_def demo_old_store_def put_row_def demo_store_simps Let_def split: if_splits)
  note law = suppressed_iff_held [OF demo_keys_law demo_digest laws _ p(1), of _ _ demo_lib "[]"]
  have "find_duplicate demo_lib demo_keys (build_duplicate_index demo_lib demo_keys demo_old_store [''old''] []) ?p = None"
    using law [of "[]" demo_old_store] old by (simp split: option.splits)
  moreover have "\<exists>r. find_duplicate demo_lib demo_keys (build_duplicate_index demo_lib demo_keys later [''old''] []) ?p = Some (r_particle r)
      \<and> row_of later ''b'' = Some r"
  proof -
    obtain r0 where "twin_row demo_lib demo_keys later [] ?p r0 \<and> p_status (r_particle r0) = ACTIVE" using row by blast
    then obtain r where r: "find_duplicate demo_lib demo_keys (build_duplicate_index demo_lib demo_keys later [''old''] []) ?p
        = Some (r_particle r)" "twin_row demo_lib demo_keys later [] ?p r"
      using law [OF run] p(2) by (cases "find_duplicate demo_lib demo_keys (build_duplicate_index demo_lib demo_keys later [''old''] []) ?p")
        (simp; blast)+
    moreover have "row_of later ''b'' = Some r" using r(2) only [OF r(2)] by (simp add: twin_row_def)
    ultimately show ?thesis by blast
  qed
  ultimately show ?thesis unfolding Let_def later_def by blast
qed

text \<open>
  C22. On every store the modelled writes reach, the retired-value index is built without an error, and for an
  eligible candidate it finds a row exactly when there is one that holds the candidate's key and is either retired
  by a judgment or an open hold awaiting review, is not excluded, and does not owe its status to an import
  (imported and never ACTIVE here); it finds an open hold whenever there is one.
\<close>

theorem retired_value_index_sound:
  assumes "store_reach rules st" "hash_of_key klib" "content_digest rules = content_hash klib"
  shows "\<exists>ix. build_retired_value_index lib klib st contents excluded = Inr ix \<and>
    (\<forall>p. p_content p \<in> set contents \<and> is_suppression_eligible lib p \<longrightarrow>
       (case find_duplicate lib klib ix p of
          Some q \<Rightarrow> (\<exists>r. retired_twin_row lib klib st excluded p r \<and> q = r_particle r) \<and>
                     (is_pending_hold q \<longleftrightarrow> (\<exists>r. retired_twin_row lib klib st excluded p r \<and> is_pending_hold (r_particle r)))
        | None \<Rightarrow> \<nexists>r. retired_twin_row lib klib st excluded p r))"
  by (rule retired_row_found [OF reach_well_hashed [OF assms]]) blast

text \<open>A claim this store retracted is found; one that came retracted with a bundle is not.\<close>

definition demo_retractions :: "store_command list" where
  "demo_retractions =
     [Insert (demo_particle ''a'' ''old'') None None,
      Insert ((demo_particle ''b'' ''gone'')\<lparr>p_status := RETRACTED, p_reason := Some EXPLICIT_RETRACTION,
        p_asserted_by := IMPORTED_BY\<rparr>) None None,
      SetStatus 7 ''a'' RETRACTED (Some EXPLICIT_RETRACTION) None]"

theorem retired_value_index_sound_witness:
  "\<exists>ix. build_retired_value_index demo_lib demo_keys (projr (run_all (run_command demo_rules) demo_retractions empty_store))
          [''old'', ''gone''] [] = Inr ix
     \<and> (\<exists>q. find_duplicate demo_lib demo_keys ix (demo_particle ''c'' ''old'') = Some q)
     \<and> find_duplicate demo_lib demo_keys ix (demo_particle ''c'' ''gone'') = None"
proof -
  define st where "st = projr (run_all (run_command demo_rules) demo_retractions empty_store)"
  have run: "run_all (run_command demo_rules) demo_retractions empty_store = Inr st"
    unfolding st_def by (simp add: demo_retractions_def demo_store_simps update_particle_status_def put_row_def Let_def)
  have p: "is_suppression_eligible demo_lib (demo_particle ''c'' s)" "p_content (demo_particle ''c'' s) = s" for s
    by (simp_all add: demo_particle_def is_suppression_eligible_def demo_lib_def)
  have row: "\<exists>r. retired_twin_row demo_lib demo_keys st [] (demo_particle ''c'' ''old'') r"
    unfolding st_def
    by (intro exI [of _ "the (row_of (projr (run_all (run_command demo_rules) demo_retractions empty_store)) ''a'')"])
      (simp add: demo_retractions_def retired_twin_row_def twin_row_def put_row_def demo_store_simps Let_def particle_key_def
        demo_keys_def is_suppression_eligible_def demo_lib_def update_particle_status_def retire_stamp_def
        is_judgment_retired_def in_states_def JUDGMENT_RETIREMENTS_def IMPORTED_BY_def remove_particle_from_relations_def)
  have none: "\<not> retired_twin_row demo_lib demo_keys st [] (demo_particle ''c'' ''gone'') r" for r
    unfolding st_def
    by (auto simp: demo_retractions_def retired_twin_row_def twin_row_def put_row_def demo_store_simps Let_def particle_key_def
        demo_keys_def update_particle_status_def retire_stamp_def remove_particle_from_relations_def split: if_splits)
  obtain ix where ix: "build_retired_value_index demo_lib demo_keys st [''old'', ''gone''] [] = Inr ix"
    and law: "\<forall>p. p_content p \<in> set [''old'', ''gone''] \<and> is_suppression_eligible demo_lib p \<longrightarrow>
       (case find_duplicate demo_lib demo_keys ix p of
          Some q \<Rightarrow> (\<exists>r. retired_twin_row demo_lib demo_keys st [] p r \<and> q = r_particle r) \<and>
                     (is_pending_hold q \<longleftrightarrow> (\<exists>r. retired_twin_row demo_lib demo_keys st [] p r \<and> is_pending_hold (r_particle r)))
        | None \<Rightarrow> \<nexists>r. retired_twin_row demo_lib demo_keys st [] p r)"
    using retired_value_index_sound [OF reach_run_all [OF store_reach.fresh run] demo_keys_law demo_digest,
        of demo_lib "[''old'', ''gone'']" "[]"] by blast
  have "\<exists>q. find_duplicate demo_lib demo_keys ix (demo_particle ''c'' ''old'') = Some q"
    using law [THEN spec, of "demo_particle ''c'' ''old''"] p row
    by (cases "find_duplicate demo_lib demo_keys ix (demo_particle ''c'' ''old'')") auto
  moreover have "find_duplicate demo_lib demo_keys ix (demo_particle ''c'' ''gone'') = None"
    using law [THEN spec, of "demo_particle ''c'' ''gone''"] p none
    by (cases "find_duplicate demo_lib demo_keys ix (demo_particle ''c'' ''gone'')") auto
  ultimately show ?thesis using ix unfolding st_def by blast
qed

end
