(* ===== verification/Conflict_Plan.thy ===== *)
theory Conflict_Plan
  imports Pair_Selection Duplicate_Suppression
begin

text \<open>
  What a conflict verdict does to the store: \<^verbatim>\<open>src/particles/ingest/conflict_plan.py\<close>, which maps a
  verdict to a plan of writes, and the functions of \<^verbatim>\<open>src/particles/ingest/pipeline.py\<close> that carry a plan
  out (\<^verbatim>\<open>_apply_conflict_plan\<close>, \<^verbatim>\<open>_hold_retired_reassertion\<close>, \<^verbatim>\<open>_apply_restatement_lineage\<close>,
  \<^verbatim>\<open>_apply_update_extras\<close>) over the store of \<open>Particle_Store\<close>.

  The verdicts are those of \<^verbatim>\<open>particles.core.conflict_resolution\<close>, whose \<^verbatim>\<open>build_inconsistency_particle\<close>
  is the parameter \<open>build\<close>; \<^verbatim>\<open>is_pending_hold\<close> is described where it is used. Log lines are not
  modelled. A trust score is the JSON value recorded for it.
\<close>

datatype conflict_verdict =
    CORROBORATES | SUPERSEDES | SUPERSEDED_BY_EXISTING | DOCUMENT_SUPERSEDES | DOCUMENT_SUPERSEDED_BY_EXISTING
  | UPDATE_SUPERSEDES | UPDATE_SUPERSEDED_BY_EXISTING | INCONSISTENT | NO_CONFLICT

record ladder_outcome =
  verdict :: "conflict_verdict option"
  outcome_divergence :: bool

text \<open>
  \<^verbatim>\<open>build_inconsistency_particle(existing, quarantined, corpus_entry_id, snapshot_id, asserted_by,
  trigger_ref_type, retired_twin, decided_by)\<close>.
\<close>

type_synonym record_builder =
  "particle \<Rightarrow> particle \<Rightarrow> string \<Rightarrow> string \<Rightarrow> string \<Rightarrow> ref_type \<Rightarrow> bool \<Rightarrow> string option \<Rightarrow> particle"

definition READING_KEY :: string where
  "READING_KEY = ''conflict:reading''"

record conflict_write_plan =
  insert_p :: "particle option"
  demote :: "(string \<times> status_reason) option"
  wrapper :: "particle option"
  wrapper_domain_hint :: "string option"
  dropped_event :: "op_event_row option"
  update_event :: "op_event_row option"
  retirement_event :: "op_event_row option"
  record_divergence :: bool
  cache_drop_existing :: bool
  cache_add_new :: bool
  plan_result :: "particle option"

definition no_writes :: conflict_write_plan where
  "no_writes =
     \<lparr>insert_p = None, demote = None, wrapper = None, wrapper_domain_hint = None, dropped_event = None,
      update_event = None, retirement_event = None, record_divergence = False, cache_drop_existing = False,
      cache_add_new = False, plan_result = None\<rparr>"

definition short :: "string \<Rightarrow> string" where
  "short i = take 8 i"

definition retirement_payload :: "string \<Rightarrow> string \<Rightarrow> string \<Rightarrow> (string, json) dict" where
  "retirement_payload retired winner route =
     [(''retired_id'', JStr retired), (''winner_id'', JStr winner), (''route'', JStr route)]"

definition plan_update_event :: "string \<Rightarrow> string \<Rightarrow> string \<Rightarrow> string option \<Rightarrow> op_event_row" where
  "plan_update_event retired winner route decided_by =
     \<lparr>ev_actor = PIPELINE_ACTOR, ev_type = UPDATE_SUPERSESSION,
      ev_reason = Some (''Rung 2.5 ('' @ route @ ''): '' @ short retired @ '' superseded by '' @ short winner),
      ev_refs = [(E_PARTICLE, retired), (E_PARTICLE, winner)],
      ev_payload = Some (case decided_by of
          None \<Rightarrow> retirement_payload retired winner route
        | Some d \<Rightarrow> AList.update ''decided_by'' (JStr d) (retirement_payload retired winner route))\<rparr>"

definition plan_retirement_event ::
  "string \<Rightarrow> string \<Rightarrow> op_event \<Rightarrow> string \<Rightarrow> (string, json) dict \<Rightarrow> op_event_row" where
  "plan_retirement_event retired winner etype route detail =
     \<lparr>ev_actor = PIPELINE_ACTOR, ev_type = etype,
      ev_reason = Some ((if etype = TRUST_SUPERSESSION then ''Rung 2'' else ''Rung 1.5'') @ '' ('' @ route @ ''): ''
          @ short retired @ '' superseded by '' @ short winner),
      ev_refs = [(E_PARTICLE, retired), (E_PARTICLE, winner)],
      ev_payload = Some (fold (\<lambda>(k, v). AList.update k v) detail (retirement_payload retired winner route))\<rparr>"

definition plan_quarantine ::
  "record_builder \<Rightarrow> particle \<Rightarrow> particle \<Rightarrow> string \<Rightarrow> string \<Rightarrow> ref_type \<Rightarrow> bool \<Rightarrow> string option \<Rightarrow> string option
     \<Rightarrow> particle \<times> particle" where
  "plan_quarantine build existing new entry_id snapshot_id trigger retired_twin reading_under decided_by =
     (let quarantined = new\<lparr>p_status := PROVENANCE_STALE, p_reason := Some CONFLICT_PENDING\<rparr>;
          w = build existing quarantined entry_id snapshot_id PIPELINE_ACTOR trigger retired_twin decided_by
      in (quarantined,
          case reading_under of
            None \<Rightarrow> w
          | Some r \<Rightarrow>
              w\<lparr>p_properties := Some (AList.update READING_KEY (JStr r)
                   (case p_properties w of None \<Rightarrow> [] | Some d \<Rightarrow> d))\<rparr>))"

definition plan_retired_hold ::
  "record_builder \<Rightarrow> particle \<Rightarrow> particle \<Rightarrow> string \<Rightarrow> string \<Rightarrow> ref_type \<Rightarrow> string option \<Rightarrow> conflict_write_plan" where
  "plan_retired_hold build twin new entry_id snapshot_id trigger domain =
     (let (held, w) = plan_quarantine build twin new entry_id snapshot_id trigger True None None
      in no_writes\<lparr>insert_p := Some held, wrapper := Some w, wrapper_domain_hint := domain, plan_result := Some w\<rparr>)"

definition demoted :: "particle \<Rightarrow> status_reason \<Rightarrow> particle" where
  "demoted p reason = p\<lparr>p_status := PROVENANCE_STALE, p_reason := Some reason\<rparr>"

fun plan_verdict ::
  "record_builder \<Rightarrow> (conflict_verdict \<Rightarrow> string) \<Rightarrow> conflict_verdict \<Rightarrow> particle \<Rightarrow> particle \<Rightarrow> string \<Rightarrow> string \<Rightarrow> ref_type
     \<Rightarrow> json \<times> json \<Rightarrow> string option \<Rightarrow> string option \<Rightarrow> string option \<Rightarrow> conflict_write_plan" where
  "plan_verdict build vname CORROBORATES new existing entry_id snapshot_id trigger scores domain rd by_rung =
     no_writes\<lparr>insert_p := Some new, cache_add_new := True, plan_result := Some new\<rparr>"
| "plan_verdict build vname SUPERSEDES new existing entry_id snapshot_id trigger scores domain rd by_rung =
     no_writes\<lparr>insert_p := Some new, demote := Some (p_id existing, LOWER_TRUST_SOURCE),
       retirement_event := Some (plan_retirement_event (p_id existing) (p_id new) TRUST_SUPERSESSION ''ladder''
         [(''trust_score_new'', fst scores), (''trust_score_existing'', snd scores)]),
       cache_drop_existing := True, cache_add_new := True, plan_result := Some new\<rparr>"
| "plan_verdict build vname SUPERSEDED_BY_EXISTING new existing entry_id snapshot_id trigger scores domain rd by_rung =
     no_writes\<lparr>dropped_event := Some
       \<lparr>ev_actor = PIPELINE_ACTOR, ev_type = CONFLICT_CANDIDATE_DROPPED,
        ev_reason = Some (char_of (167 :: nat) # ''6.6 trust resolution preferred the existing particle''),
        ev_refs = [(E_PARTICLE, p_id existing)],
        ev_payload = Some [(''verdict'', JStr (vname SUPERSEDED_BY_EXISTING)), (''candidate_id'', JStr (p_id new)),
          (''candidate_excerpt'', JStr (take 240 (p_content new))), (''winning_particle_id'', JStr (p_id existing)),
          (''trust_score_new'', fst scores), (''trust_score_existing'', snd scores)]\<rparr>\<rparr>"
| "plan_verdict build vname DOCUMENT_SUPERSEDES new existing entry_id snapshot_id trigger scores domain rd by_rung =
     no_writes\<lparr>insert_p := Some new, demote := Some (p_id existing, DOCUMENT_SUPERSEDED),
       retirement_event := Some (plan_retirement_event (p_id existing) (p_id new) DOCUMENT_SUPERSESSION ''ladder'' []),
       cache_drop_existing := True, cache_add_new := True, plan_result := Some new\<rparr>"
| "plan_verdict build vname DOCUMENT_SUPERSEDED_BY_EXISTING new existing entry_id snapshot_id trigger scores domain rd by_rung =
     no_writes\<lparr>insert_p := Some new, demote := Some (p_id new, DOCUMENT_SUPERSEDED),
       retirement_event := Some (plan_retirement_event (p_id new) (p_id existing) DOCUMENT_SUPERSESSION ''ladder'' []),
       plan_result := Some (demoted new DOCUMENT_SUPERSEDED)\<rparr>"
| "plan_verdict build vname UPDATE_SUPERSEDES new existing entry_id snapshot_id trigger scores domain rd by_rung =
     (let minted = (if p_supersedes new = None then new\<lparr>p_supersedes := Some (p_id existing)\<rparr> else new)
      in no_writes\<lparr>insert_p := Some minted, demote := Some (p_id existing, SUPERSEDED_BY_UPDATE),
           update_event := Some (plan_update_event (p_id existing) (p_id minted) ''ladder'' by_rung),
           cache_drop_existing := True, cache_add_new := True, plan_result := Some minted\<rparr>)"
| "plan_verdict build vname UPDATE_SUPERSEDED_BY_EXISTING new existing entry_id snapshot_id trigger scores domain rd by_rung =
     no_writes\<lparr>insert_p := Some new, demote := Some (p_id new, SUPERSEDED_BY_UPDATE),
       update_event := Some (plan_update_event (p_id new) (p_id existing) ''ladder'' by_rung),
       plan_result := Some (demoted new SUPERSEDED_BY_UPDATE)\<rparr>"
| "plan_verdict build vname INCONSISTENT new existing entry_id snapshot_id trigger scores domain rd by_rung =
     (let (quarantined, w) = plan_quarantine build existing new entry_id snapshot_id trigger False rd by_rung
      in no_writes\<lparr>insert_p := Some quarantined, wrapper := Some w, wrapper_domain_hint := domain,
           plan_result := Some w\<rparr>)"
| "plan_verdict build vname NO_CONFLICT new existing entry_id snapshot_id trigger scores domain rd by_rung =
     no_writes\<lparr>insert_p := Some new, cache_add_new := True, plan_result := Some new\<rparr>"

definition plan_conflict_writes ::
  "record_builder \<Rightarrow> (conflict_verdict \<Rightarrow> string) \<Rightarrow> ladder_outcome \<Rightarrow> particle \<Rightarrow> particle \<Rightarrow> string \<Rightarrow> string \<Rightarrow> ref_type
     \<Rightarrow> json \<times> json \<Rightarrow> string option \<Rightarrow> string option \<Rightarrow> string option \<Rightarrow> conflict_write_plan" where
  "plan_conflict_writes build vname outcome new existing entry_id snapshot_id trigger scores domain rd by_rung =
     (case verdict outcome of
        None \<Rightarrow>
          no_writes\<lparr>insert_p := Some new, record_divergence := outcome_divergence outcome, cache_add_new := True,
            plan_result := Some new\<rparr>
      | Some v \<Rightarrow> plan_verdict build vname v new existing entry_id snapshot_id trigger scores domain rd by_rung)"

section \<open>Carrying a plan out\<close>

fun andthen :: "'e + 'a \<Rightarrow> ('a \<Rightarrow> 'e + 'b) \<Rightarrow> 'e + 'b" where
  "andthen (Inl e) f = Inl e"
| "andthen (Inr x) f = f x"

text \<open>
  What the write pass holds beside the store: a batch caller's candidate cache and the set of ids
  retired so far, when the caller passes them.
\<close>

record pass_state =
  ps_store :: store
  ps_cache :: "(particle \<times> rat list) list option"
  ps_retired :: "string list option"

text \<open>The surroundings of a write: the transition table, the clock and the caller bound to the request.\<close>

record write_env =
  we_rules :: status_rules
  we_now :: int
  we_http :: "(string \<times> string) option"

definition born :: "write_env \<Rightarrow> status \<Rightarrow> store \<Rightarrow> store_error + store" where
  "born env s st = (if allowed (we_rules env) None s then Inr st else Inl BAD_TRANSITION)"

definition record_planned :: "write_env \<Rightarrow> op_event_row option \<Rightarrow> store \<Rightarrow> store" where
  "record_planned env ev st = (case ev of None \<Rightarrow> st | Some e \<Rightarrow> record_event (we_http env) e st)"

text \<open>\<^verbatim>\<open>_canonical_pair\<close> orders the endpoints of a symmetric relation.\<close>

definition record_observer_divergence :: "string \<Rightarrow> string \<Rightarrow> store \<Rightarrow> store" where
  "record_observer_divergence a b st =
     (let pair = (if a \<le> b then (a, b, ''CONTRADICTS'') else (b, a, ''CONTRADICTS''))
      in if a = b \<or> pair \<in> set (st_relations st) then st else st\<lparr>st_relations := st_relations st @ [pair]\<rparr>)"

definition apply_insert :: "write_env \<Rightarrow> particle option \<Rightarrow> rat list option \<Rightarrow> store \<Rightarrow> store_error + store" where
  "apply_insert env p emb st =
     (case p of
        None \<Rightarrow> Inr st
      | Some q \<Rightarrow> andthen (born env (p_status q) st) (insert_particle (we_rules env) q emb None))"

definition apply_demote :: "write_env \<Rightarrow> (string \<times> status_reason) option \<Rightarrow> store \<Rightarrow> store_error + store" where
  "apply_demote env d st =
     (case d of
        None \<Rightarrow> Inr st
      | Some (i, reason) \<Rightarrow> update_particle_status (we_rules env) (we_now env) i PROVENANCE_STALE (Some reason) None st)"

definition apply_wrapper :: "write_env \<Rightarrow> particle option \<Rightarrow> string option \<Rightarrow> store \<Rightarrow> store_error + store" where
  "apply_wrapper env w hint st =
     (case w of
        None \<Rightarrow> Inr st
      | Some q \<Rightarrow> andthen (born env INCONSISTENCY st) (insert_particle (we_rules env) q None hint))"

definition apply_cache :: "conflict_write_plan \<Rightarrow> particle \<Rightarrow> rat list option \<Rightarrow> pass_state \<Rightarrow> pass_state" where
  "apply_cache plan existing emb ps =
     (let ps1 = (if cache_drop_existing plan
                 then ps\<lparr>ps_cache := map_option (filter (\<lambda>pr. p_id (fst pr) \<noteq> p_id existing)) (ps_cache ps),
                         ps_retired := map_option (List.insert (p_id existing)) (ps_retired ps)\<rparr>
                 else ps)
      in case (insert_p plan, ps_cache ps1, emb) of
           (Some p, Some cache, Some e) \<Rightarrow> if cache_add_new plan then ps1\<lparr>ps_cache := Some (cache @ [(p, e)])\<rparr> else ps1
         | _ \<Rightarrow> ps1)"

definition apply_conflict_plan ::
  "write_env \<Rightarrow> bool \<Rightarrow> conflict_write_plan \<Rightarrow> particle \<Rightarrow> rat list option \<Rightarrow> pass_state
     \<Rightarrow> store_error + particle option \<times> pass_state" where
  "apply_conflict_plan env observer plan existing emb ps =
     andthen (apply_insert env (insert_p plan) emb (ps_store ps)) (\<lambda>st1.
     andthen (apply_demote env (demote plan) st1) (\<lambda>st2.
     andthen (apply_wrapper env (wrapper plan) (wrapper_domain_hint plan) st2) (\<lambda>st3.
       let st4 = fold (record_planned env) [update_event plan, retirement_event plan, dropped_event plan] st3;
           st5 = (case insert_p plan of
                    Some p \<Rightarrow> if record_divergence plan \<and> observer
                              then record_observer_divergence (p_id p) (p_id existing) st4 else st4
                  | None \<Rightarrow> st4)
       in Inr (plan_result plan, apply_cache plan existing emb (ps\<lparr>ps_store := st5\<rparr>)))))"

definition trigger_ref_for :: "particle \<Rightarrow> string \<times> string \<times> ref_type" where
  "trigger_ref_for p =
     (case source_ref p of
        Some r \<Rightarrow> (ref_entry r, case ref_snapshot r of None \<Rightarrow> [] | Some s \<Rightarrow> s, SOURCE)
      | None \<Rightarrow> (p_id p, [], PARTICLE))"

definition hold_retired_reassertion ::
  "write_env \<Rightarrow> record_builder \<Rightarrow> particle \<Rightarrow> rat list option \<Rightarrow> particle \<Rightarrow> string \<Rightarrow> string \<Rightarrow> ref_type \<Rightarrow> string option
     \<Rightarrow> pass_state \<Rightarrow> store_error + particle option \<times> pass_state" where
  "hold_retired_reassertion env build p emb twin entry_id snapshot_id trigger domain ps =
     (if is_pending_hold twin
      then Inr (Some twin, ps\<lparr>ps_store := fold (\<lambda>r st. snd (append_provenance_ref (p_id twin) r st)) (p_provenance p) (ps_store ps)\<rparr>)
      else map_sum id (\<lambda>(held, ps'). (held, ps\<lparr>ps_store := ps_store ps'\<rparr>))
             (apply_conflict_plan env False (plan_retired_hold build twin p entry_id snapshot_id trigger domain) twin emb
                (ps\<lparr>ps_cache := None, ps_retired := None\<rparr>)))"

definition RESTATEMENT_ROUTE :: string where
  "RESTATEMENT_ROUTE = ''generation''"

definition apply_restatement_lineage ::
  "write_env \<Rightarrow> string option \<Rightarrow> string \<Rightarrow> string \<Rightarrow> store \<Rightarrow> store_error + bool \<times> store" where
  "apply_restatement_lineage env decided_by earlier_id new_id st =
     (if new_id = earlier_id then Inr (False, st)
      else
        (case (get_particle st earlier_id, get_particle st new_id) of
           (Some earlier, Some new) \<Rightarrow>
             if p_status earlier \<noteq> ACTIVE \<or> p_status new \<noteq> ACTIVE then Inr (False, st)
             else if p_supersedes new \<noteq> None then Inr (False, st)
             else
               andthen (update_particle_status (we_rules env) (we_now env) earlier_id PROVENANCE_STALE
                          (Some SUPERSEDED_BY_UPDATE) None st) (\<lambda>st1.
                 Inr (True, record_planned env (Some (plan_update_event earlier_id new_id RESTATEMENT_ROUTE decided_by))
                              (snd (set_supersedes_if_unset new_id earlier_id st1))))
         | _ \<Rightarrow> Inr (False, st)))"

fun apply_extras ::
  "write_env \<Rightarrow> string option \<Rightarrow> (string \<times> string) list \<Rightarrow> store \<times> string list \<Rightarrow> store_error + store \<times> string list" where
  "apply_extras env decided_by [] acc = Inr acc"
| "apply_extras env decided_by ((loser, winner) # ds) (st, retired) =
     andthen (update_particle_status (we_rules env) (we_now env) loser PROVENANCE_STALE (Some SUPERSEDED_BY_UPDATE) None st)
       (\<lambda>st1. apply_extras env decided_by ds
          (record_planned env (Some (plan_update_event loser winner ''extra'' decided_by)) st1, List.insert loser retired))"

text \<open>The outer \<^const>\<open>None\<close> is \<^verbatim>\<open>update_order\<close> raising on a malformed URI.\<close>

definition apply_update_extras ::
  "'emb claim_lib \<Rightarrow> slot_lib \<Rightarrow> write_env \<Rightarrow> string option \<Rightarrow> particle \<Rightarrow> corpus_entry \<Rightarrow> string \<Rightarrow> particle list \<Rightarrow> string list
     \<Rightarrow> (string, corpus_entry option) dict \<Rightarrow> (string, precondition) dict \<Rightarrow> string list \<Rightarrow> string list \<Rightarrow> store
     \<Rightarrow> (store_error + store \<times> string list) option" where
  "apply_update_extras clib lib env decided_by winner winner_entry sid others retired entries pre upd revision st =
     map_option (\<lambda>ds. apply_extras env decided_by ds (st, retired))
       (plan_update_extras clib lib winner (Some winner_entry) sid others entries pre upd revision)"

section \<open>What a plan does to the beliefs held\<close>

text \<open>
  The specification of a verdict, on the beliefs alone: a partial map from ids to particles. A
  ruling keeps both claims, lets one retire the other, keeps the new one out, or holds it for review
  beside a record of the conflict.
\<close>

datatype ruling = Both | New_wins status_reason | Existing_wins status_reason | Dropped | Held

fun ruling_of :: "conflict_verdict \<Rightarrow> ruling" where
  "ruling_of CORROBORATES = Both"
| "ruling_of NO_CONFLICT = Both"
| "ruling_of SUPERSEDES = New_wins LOWER_TRUST_SOURCE"
| "ruling_of DOCUMENT_SUPERSEDES = New_wins DOCUMENT_SUPERSEDED"
| "ruling_of UPDATE_SUPERSEDES = New_wins SUPERSEDED_BY_UPDATE"
| "ruling_of DOCUMENT_SUPERSEDED_BY_EXISTING = Existing_wins DOCUMENT_SUPERSEDED"
| "ruling_of UPDATE_SUPERSEDED_BY_EXISTING = Existing_wins SUPERSEDED_BY_UPDATE"
| "ruling_of SUPERSEDED_BY_EXISTING = Dropped"
| "ruling_of INCONSISTENT = Held"

type_synonym beliefs = "string \<rightharpoonup> particle"

fun settle :: "ruling \<Rightarrow> particle \<Rightarrow> particle \<Rightarrow> particle \<Rightarrow> beliefs \<Rightarrow> beliefs" where
  "settle Both new old w B = B(p_id new \<mapsto> new)"
| "settle (New_wins reason) new old w B = B(p_id new \<mapsto> new, p_id old \<mapsto> demoted old reason)"
| "settle (Existing_wins reason) new old w B = B(p_id new \<mapsto> demoted new reason)"
| "settle Dropped new old w B = B"
| "settle Held new old w B = B(p_id new \<mapsto> demoted new CONFLICT_PENDING, p_id w \<mapsto> w)"

text \<open>The documented part of the transition table the plans rely on.\<close>

definition permits :: "status_rules \<Rightarrow> bool" where
  "permits rules = (allowed rules None ACTIVE \<and> allowed rules None PROVENANCE_STALE \<and> allowed rules None INCONSISTENCY
     \<and> allowed rules (Some ACTIVE) PROVENANCE_STALE)"

definition birth_ok :: "particle \<Rightarrow> bool" where
  "birth_ok p = (p_status p \<in> {ACTIVE, INCONSISTENCY} \<or> p_status p = PROVENANCE_STALE \<and> p_reason p = Some CONFLICT_PENDING)"

text \<open>
  The two writes a plan makes, as the client sees them: a birth adds a belief under a fresh id and a
  demotion retires one that is held. What a sequence of them leaves follows from these laws alone.
\<close>

locale write_seam =
  fixes beliefs :: "'s \<Rightarrow> string \<rightharpoonup> particle"
    and lawful :: "'env \<Rightarrow> bool"
    and bear :: "'env \<Rightarrow> particle \<Rightarrow> 'x \<Rightarrow> 's \<Rightarrow> 'e + 's"
    and demote_to :: "'env \<Rightarrow> string \<times> status_reason \<Rightarrow> 's \<Rightarrow> 'e + 's"
  assumes bear_ok: "lawful env \<Longrightarrow> birth_ok p \<Longrightarrow> beliefs s (p_id p) = None
      \<Longrightarrow> \<exists>s'. bear env p x s = Inr s' \<and> beliefs s' = (beliefs s)(p_id p \<mapsto> p)"
    and demote_ok: "lawful env \<Longrightarrow> beliefs s i = Some p \<Longrightarrow> p_status p = ACTIVE
      \<Longrightarrow> \<exists>s'. demote_to env (i, reason) s = Inr s' \<and> beliefs s' = (beliefs s)(i \<mapsto> demoted p reason)"
begin

lemma new_wins:
  assumes "lawful env" "birth_ok p" "beliefs s (p_id p) = None" "beliefs s i = Some q" "p_status q = ACTIVE"
  shows "\<exists>s1 s2. bear env p x s = Inr s1 \<and> demote_to env (i, reason) s1 = Inr s2
           \<and> beliefs s2 = (beliefs s)(p_id p \<mapsto> p, i \<mapsto> demoted q reason)"
proof -
  obtain s1 where s1: "bear env p x s = Inr s1" "beliefs s1 = (beliefs s)(p_id p \<mapsto> p)"
    using bear_ok assms(1-3) by blast
  have "beliefs s1 i = Some q" using s1(2) assms(3,4) by auto
  then show ?thesis using demote_ok [OF assms(1) _ assms(5)] s1 by fastforce
qed

lemma existing_wins:
  assumes "lawful env" "birth_ok p" "beliefs s (p_id p) = None" "p_status p = ACTIVE"
  shows "\<exists>s1 s2. bear env p x s = Inr s1 \<and> demote_to env (p_id p, reason) s1 = Inr s2
           \<and> beliefs s2 = (beliefs s)(p_id p \<mapsto> demoted p reason)"
proof -
  obtain s1 where s1: "bear env p x s = Inr s1" "beliefs s1 = (beliefs s)(p_id p \<mapsto> p)"
    using bear_ok assms(1-3) by blast
  then show ?thesis using demote_ok [OF assms(1) _ assms(4), of s1 "p_id p"] by fastforce
qed

lemma held:
  assumes "lawful env" "birth_ok p" "birth_ok w" "beliefs s (p_id p) = None" "beliefs s (p_id w) = None" "p_id p \<noteq> p_id w"
  shows "\<exists>s1 s2. bear env p x s = Inr s1 \<and> bear env w y s1 = Inr s2
           \<and> beliefs s2 = (beliefs s)(p_id p \<mapsto> p, p_id w \<mapsto> w)"
proof -
  obtain s1 where s1: "bear env p x s = Inr s1" "beliefs s1 = (beliefs s)(p_id p \<mapsto> p)"
    using bear_ok assms by blast
  have "beliefs s1 (p_id w) = None" using s1(2) assms(5,6) by auto
  then obtain s2 where "bear env w y s1 = Inr s2" "beliefs s2 = (beliefs s1)(p_id w \<mapsto> w)"
    using bear_ok [OF assms(1,3)] by blast
  with s1 show ?thesis by auto
qed

end

lemma get_particle_put [simp]: "get_particle (put_row i r st) = (get_particle st)(i \<mapsto> r_particle r)"
  by (auto simp: get_particle_def fun_eq_iff)

lemma get_particle_unchanged [simp]:
  "get_particle (st\<lparr>st_events := evs\<rparr>) = get_particle st" "get_particle (st\<lparr>st_relations := rs\<rparr>) = get_particle st"
  by (simp_all add: get_particle_def fun_eq_iff)

lemma get_particle_events [simp]:
  "get_particle (record_event http ev st) = get_particle st"
  "get_particle (record_planned env e st) = get_particle st"
  "get_particle (record_observer_divergence a b st) = get_particle st"
  by (simp_all add: record_event_def record_planned_def record_observer_divergence_def Let_def split: option.splits)

lemma demoted_row: "r_particle (moved_row now PROVENANCE_STALE (Some reason) None r) = demoted (r_particle r) reason"
  by (simp add: moved_row_def demoted_def)

lemma insert_particle_ok:
  assumes "birth_ok p" "get_particle st (p_id p) = None"
  shows "\<exists>st'. insert_particle rules p emb hint st = Inr st' \<and> get_particle st' = (get_particle st)(p_id p \<mapsto> p)"
proof -
  have ex: "\<exists>st'. insert_particle rules p emb hint st = Inr st'"
    using assms by (auto simp: insert_particle_def birth_ok_def get_particle_def row_of_def Let_def)
  then obtain st' where st': "insert_particle rules p emb hint st = Inr st'" by blast
  with insert_row [OF st'] show ?thesis
    by (auto simp: get_particle_def fun_eq_iff from_model_def Let_def)
qed

lemma permits_birth: "permits rules \<Longrightarrow> birth_ok p \<Longrightarrow> allowed rules None (p_status p)"
  by (auto simp: permits_def birth_ok_def)

text \<open>A birth after its check, with what the insertion stores beside the particle: an embedding or a domain hint.\<close>

definition bear_store :: "write_env \<Rightarrow> particle \<Rightarrow> rat list option \<times> string option \<Rightarrow> store \<Rightarrow> store_error + store" where
  "bear_store env p x st = andthen (born env (p_status p) st) (insert_particle (we_rules env) p (fst x) (snd x))"

interpretation plan_writes: write_seam get_particle "\<lambda>env. permits (we_rules env)" bear_store "\<lambda>env d. apply_demote env (Some d)"
proof
  fix env :: write_env and p x st
  assume a: "permits (we_rules env)" "birth_ok p" "get_particle st (p_id p) = None"
  show "\<exists>st'. bear_store env p x st = Inr st' \<and> get_particle st' = (get_particle st)(p_id p \<mapsto> p)"
    using insert_particle_ok [OF a(2,3)] permits_birth [OF a(1,2)] by (simp add: bear_store_def born_def)
next
  fix env :: write_env and st i p reason
  assume a: "permits (we_rules env)" "get_particle st i = Some p" "p_status p = ACTIVE"
  then obtain r where r: "row_of st i = Some r" "p = r_particle r"
    by (auto simp: get_particle_def)
  then show "\<exists>st'. apply_demote env (Some (i, reason)) st = Inr st' \<and> get_particle st' = (get_particle st)(i \<mapsto> demoted p reason)"
    using a by (simp add: apply_demote_def update_particle_status_eq permits_def demoted_row)
qed

lemma apply_bears:
  "apply_insert env (Some p) emb st = bear_store env p (emb, None) st"
  "p_status w = INCONSISTENCY \<Longrightarrow> apply_wrapper env (Some w) hint st = bear_store env w (None, hint) st"
  "apply_insert env None emb st = Inr st" "apply_wrapper env None hint st = Inr st" "apply_demote env None st = Inr st"
  by (simp_all add: apply_insert_def apply_wrapper_def bear_store_def apply_demote_def)

lemma apply_cache_store [simp]: "ps_store (apply_cache plan existing emb ps) = ps_store ps"
  by (auto simp: apply_cache_def Let_def split: option.splits)

section \<open>Running a plan\<close>

text \<open>The event row \<^verbatim>\<open>record_event\<close> appends.\<close>

definition event_row :: "(string \<times> string) option \<Rightarrow> op_event_row \<Rightarrow> op_event_row" where
  "event_row http ev = hd (st_events (record_event http ev empty_store))"

lemma record_event_eq: "record_event http ev st = st\<lparr>st_events := st_events st @ [event_row http ev]\<rparr>"
  by (simp add: event_row_def record_event_def empty_store_def Let_def split: option.splits)

lemma event_row_simps [simp]:
  "ev_type (event_row http ev) = ev_type ev" "ev_refs (event_row http ev) = fromkeys (ev_refs ev)"
  "ev_actor (event_row http ev) = ev_actor ev"
  by (simp_all add: event_row_def record_event_def empty_store_def Let_def split: option.splits)

lemma planned_refs [simp]:
  "ev_refs (plan_update_event a b route d) = [(E_PARTICLE, a), (E_PARTICLE, b)]"
  "ev_refs (plan_retirement_event a b ty route det) = [(E_PARTICLE, a), (E_PARTICLE, b)]"
  "ev_type (plan_update_event a b route d) = UPDATE_SUPERSESSION"
  "ev_type (plan_retirement_event a b ty route det) = ty"
  by (simp_all add: plan_update_event_def plan_retirement_event_def)

lemma record_planned_events:
  "st_events (fold (record_planned env) evs st) = st_events st @ map (event_row (we_http env)) (List.map_filter id evs)"
  by (induction evs arbitrary: st)
    (auto simp: record_planned_def record_event_eq map_filter_simps split: option.splits)

lemma record_planned_beliefs [simp]: "get_particle (fold (record_planned env) evs st) = get_particle st"
  by (induction evs arbitrary: st) auto

lemma insert_events: "insert_particle rules p emb hint st = Inr st' \<Longrightarrow> st_events st' = st_events st"
  by (auto simp: insert_particle_def link_particle_to_subjects_def link_particle_to_tags_def Let_def
      split: if_splits option.splits list.splits)

lemma divergence_events [simp]: "st_events (record_observer_divergence a b st) = st_events st"
  by (simp add: record_observer_divergence_def Let_def)

lemma andthen_Inr: "andthen r f = Inr y \<longleftrightarrow> (\<exists>x. r = Inr x \<and> f x = Inr y)"
  by (cases r) auto

lemma apply_steps_events:
  "apply_insert env p emb st = Inr st' \<Longrightarrow> st_events st' = st_events st"
  "apply_wrapper env w hint st = Inr st' \<Longrightarrow> st_events st' = st_events st"
  "apply_demote env d st = Inr st' \<Longrightarrow> st_events st' = st_events st"
  by (auto simp: apply_insert_def apply_wrapper_def apply_demote_def andthen_Inr born_def insert_events
      split: option.splits if_splits elim: update_row)

lemma apply_conflict_plan_Inr:
  assumes "apply_conflict_plan env obs plan existing emb ps = Inr (res, ps')"
  obtains st1 st2 st3 where "apply_insert env (insert_p plan) emb (ps_store ps) = Inr st1"
    "apply_demote env (demote plan) st1 = Inr st2"
    "apply_wrapper env (wrapper plan) (wrapper_domain_hint plan) st2 = Inr st3"
    "res = plan_result plan" "get_particle (ps_store ps') = get_particle st3"
    "st_events (ps_store ps') = st_events (ps_store ps) @ map (event_row (we_http env))
       (List.map_filter id [update_event plan, retirement_event plan, dropped_event plan])"
proof -
  have "\<exists>st1 st2 st3. apply_insert env (insert_p plan) emb (ps_store ps) = Inr st1 \<and>
    apply_demote env (demote plan) st1 = Inr st2 \<and>
    apply_wrapper env (wrapper plan) (wrapper_domain_hint plan) st2 = Inr st3 \<and>
    res = plan_result plan \<and> get_particle (ps_store ps') = get_particle st3 \<and>
    st_events (ps_store ps') = st_events st3 @ map (event_row (we_http env))
       (List.map_filter id [update_event plan, retirement_event plan, dropped_event plan])"
    using assms unfolding apply_conflict_plan_def andthen_Inr Let_def record_planned_events [symmetric]
    by (force split: option.splits if_splits simp del: fold_simps)
  with apply_steps_events that show thesis by metis
qed

lemma apply_conflict_plan_runs:
  assumes "apply_insert env (insert_p plan) emb (ps_store ps) = Inr st1" "apply_demote env (demote plan) st1 = Inr st2"
    "apply_wrapper env (wrapper plan) (wrapper_domain_hint plan) st2 = Inr st3"
  shows "\<exists>ps'. apply_conflict_plan env obs plan existing emb ps = Inr (plan_result plan, ps')
           \<and> get_particle (ps_store ps') = get_particle st3"
  using assms by (simp add: apply_conflict_plan_def Let_def split: option.splits)

text \<open>The claim a verdict stores for the candidate: an update names the claim it replaces.\<close>

definition minted :: "conflict_verdict option \<Rightarrow> particle \<Rightarrow> particle \<Rightarrow> particle" where
  "minted v new existing =
     (if v = Some UPDATE_SUPERSEDES \<and> p_supersedes new = None then new\<lparr>p_supersedes := Some (p_id existing)\<rparr> else new)"

definition outcome_ruling :: "ladder_outcome \<Rightarrow> ruling" where
  "outcome_ruling outcome = (case verdict outcome of None \<Rightarrow> Both | Some v \<Rightarrow> ruling_of v)"

lemma minted_simps [simp]:
  "p_id (minted v new existing) = p_id new" "p_status (minted v new existing) = p_status new"
  by (simp_all add: minted_def)

lemma plan_quarantine_fst: "fst (plan_quarantine build old new e s t tw rd d) = demoted new CONFLICT_PENDING"
  by (simp add: plan_quarantine_def demoted_def Let_def)

text \<open>What the plan of an outcome writes, by its ruling.\<close>

lemma plan_by_ruling:
  fixes plan w
  assumes "plan = plan_conflict_writes build vname outcome new existing e s trigger scores domain rd d"
    and "w = snd (plan_quarantine build existing new e s trigger False rd d)"
  shows "case outcome_ruling outcome of
       Both \<Rightarrow> insert_p plan = Some (minted (verdict outcome) new existing) \<and> demote plan = None \<and> wrapper plan = None
         \<and> plan_result plan = insert_p plan \<and> update_event plan = None \<and> retirement_event plan = None
     | New_wins reason \<Rightarrow> insert_p plan = Some (minted (verdict outcome) new existing)
         \<and> demote plan = Some (p_id existing, reason) \<and> wrapper plan = None \<and> plan_result plan = insert_p plan
         \<and> (\<exists>ev. List.map_filter id [update_event plan, retirement_event plan, dropped_event plan] = [ev]
              \<and> ev_refs ev = [(E_PARTICLE, p_id existing), (E_PARTICLE, p_id new)])
     | Existing_wins reason \<Rightarrow> insert_p plan = Some (minted (verdict outcome) new existing)
         \<and> minted (verdict outcome) new existing = new
         \<and> demote plan = Some (p_id new, reason) \<and> wrapper plan = None \<and> plan_result plan = Some (demoted new reason)
         \<and> (\<exists>ev. List.map_filter id [update_event plan, retirement_event plan, dropped_event plan] = [ev]
              \<and> ev_refs ev = [(E_PARTICLE, p_id new), (E_PARTICLE, p_id existing)])
     | Dropped \<Rightarrow> insert_p plan = None \<and> demote plan = None \<and> wrapper plan = None \<and> plan_result plan = None
     | Held \<Rightarrow> minted (verdict outcome) new existing = new \<and> insert_p plan = Some (demoted new CONFLICT_PENDING) \<and> demote plan = None \<and> wrapper plan = Some w
         \<and> plan_result plan = Some w"
proof (cases "verdict outcome")
  case None
  then show ?thesis
    by (simp add: assms plan_conflict_writes_def no_writes_def outcome_ruling_def minted_def)
next
  case (Some v)
  show ?thesis
    by (cases v) (simp_all add: assms Some plan_conflict_writes_def no_writes_def outcome_ruling_def minted_def
        map_filter_simps plan_quarantine_fst [symmetric] Let_def split: prod.splits,
        simp_all add: plan_quarantine_def demoted_def Let_def)
qed

lemma settles_steps:
  assumes "permits (we_rules env)" "p_status new = ACTIVE" "get_particle st (p_id new) = None"
    and "get_particle st (p_id existing) = Some cur" "p_id cur = p_id existing" "p_status cur = ACTIVE"
    and "w = snd (plan_quarantine build existing new e s trigger False rd d)" "p_status w = INCONSISTENCY"
    and "get_particle st (p_id w) = None" "p_id w \<noteq> p_id new"
    and plan: "plan = plan_conflict_writes build vname outcome new existing e s trigger scores domain rd d"
  shows "\<exists>st1 st2 st3. apply_insert env (insert_p plan) emb st = Inr st1 \<and> apply_demote env (demote plan) st1 = Inr st2
     \<and> apply_wrapper env (wrapper plan) (wrapper_domain_hint plan) st2 = Inr st3
     \<and> get_particle st3 = settle (outcome_ruling outcome) (minted (verdict outcome) new existing) cur w (get_particle st)"
proof -
  let ?new = "minted (verdict outcome) new existing" and ?held = "demoted new CONFLICT_PENDING"
  note shape = plan_by_ruling [OF plan assms(7)]
  have ok: "birth_ok ?new" "birth_ok ?held" "birth_ok w"
    using assms(2,8) by (auto simp: birth_ok_def demoted_def)
  have ids: "p_id ?held = p_id new" by (simp add: demoted_def)
  show ?thesis
  proof (cases "outcome_ruling outcome")
    case Both
    then show ?thesis
      using shape plan_writes.bear_ok [OF assms(1) ok(1), of st "(emb, None)"] assms(3) by (simp add: apply_bears)
  next
    case (New_wins reason)
    then show ?thesis
      using shape plan_writes.new_wins [OF assms(1) ok(1) _ assms(4,6), of "(emb, None)" reason] assms(3,5)
      by (simp add: apply_bears)
  next
    case (Existing_wins reason)
    then show ?thesis
      using shape plan_writes.existing_wins [OF assms(1) ok(1), of st "(emb, None)" reason] assms(2,3)
      by (simp add: apply_bears)
  next
    case Dropped
    then show ?thesis using shape by (simp add: apply_bears)
  next
    case Held
    then show ?thesis
      using shape plan_writes.held [OF assms(1) ok(2,3), of st "(emb, None)" "(None, wrapper_domain_hint plan)"] assms(3,8-10) ids
      by (simp add: apply_bears demoted_def)
  qed
qed

lemma settled_result:
  assumes "plan = plan_conflict_writes build vname outcome new existing e s trigger scores domain rd d"
    and "w = snd (plan_quarantine build existing new e s trigger False rd d)" "p_id cur \<noteq> p_id new"
  shows "case plan_result plan of None \<Rightarrow> outcome_ruling outcome = Dropped
    | Some p \<Rightarrow> settle (outcome_ruling outcome) (minted (verdict outcome) new existing) cur w B (p_id p) = Some p"
  using plan_by_ruling [OF assms(1,2)] assms(3)
  by (cases "outcome_ruling outcome") (auto simp: demoted_def)

text \<open>
  C1. A verdict is carried out as ruled. When the transition table admits the moves, the existing claim
  is believed, the candidate and the conflict record have fresh ids, applying the plan of an outcome
  never fails; it leaves exactly the beliefs the ruling specifies (both claims, one retired under its
  reason, the candidate kept out, or the candidate quarantined beside the record), every other belief
  as it was; and the particle returned is the one stored, with none returned exactly for a dropped
  candidate.
\<close>

theorem plan_settles:
  assumes "permits (we_rules env)" "p_status new = ACTIVE" "get_particle (ps_store ps) (p_id new) = None"
    and "get_particle (ps_store ps) (p_id existing) = Some cur" "p_id cur = p_id existing" "p_status cur = ACTIVE"
    and "w = snd (plan_quarantine build existing new e s trigger False rd d)" "p_status w = INCONSISTENCY"
    and "get_particle (ps_store ps) (p_id w) = None" "p_id w \<noteq> p_id new"
  shows "\<exists>res ps'. apply_conflict_plan env observer
       (plan_conflict_writes build vname outcome new existing e s trigger scores domain rd d) existing emb ps = Inr (res, ps')
     \<and> get_particle (ps_store ps') =
         settle (outcome_ruling outcome) (minted (verdict outcome) new existing) cur w (get_particle (ps_store ps))
     \<and> (case res of None \<Rightarrow> outcome_ruling outcome = Dropped | Some p \<Rightarrow> get_particle (ps_store ps') (p_id p) = Some p)"
proof -
  define plan where "plan = plan_conflict_writes build vname outcome new existing e s trigger scores domain rd d"
  obtain st1 st2 st3 where steps: "apply_insert env (insert_p plan) emb (ps_store ps) = Inr st1"
      "apply_demote env (demote plan) st1 = Inr st2"
      "apply_wrapper env (wrapper plan) (wrapper_domain_hint plan) st2 = Inr st3"
    and beliefs: "get_particle st3 =
      settle (outcome_ruling outcome) (minted (verdict outcome) new existing) cur w (get_particle (ps_store ps))"
    using settles_steps [OF assms plan_def, of emb] by blast
  have "p_id cur \<noteq> p_id new" using assms(3-5) by auto
  then show ?thesis
    unfolding plan_def [symmetric] using apply_conflict_plan_runs [OF steps] settled_result [OF plan_def assms(7)]
    by (metis beliefs)
qed

lemma bear_beliefs:
  assumes "bear_store env p x st = Inr st'"
  shows "get_particle st (p_id p) = None" "get_particle st' = (get_particle st)(p_id p \<mapsto> p)"
    "p_status p = PROVENANCE_STALE \<Longrightarrow> p_reason p = Some CONFLICT_PENDING"
proof -
  have "insert_particle (we_rules env) p (fst x) (snd x) st = Inr st'"
    using assms by (auto simp: bear_store_def born_def split: if_splits)
  note row = insert_row [OF this]
  show "get_particle st (p_id p) = None" "p_status p = PROVENANCE_STALE \<Longrightarrow> p_reason p = Some CONFLICT_PENDING"
    using row by (auto simp: get_particle_def)
  show "get_particle st' = (get_particle st)(p_id p \<mapsto> p)"
    using row by (auto simp: get_particle_def fun_eq_iff from_model_def Let_def)
qed

lemma demote_beliefs:
  assumes "apply_demote env (Some (i, reason)) st = Inr st'"
  obtains p where "get_particle st i = Some p" "get_particle st' = (get_particle st)(i \<mapsto> demoted p reason)"
proof -
  have "update_particle_status (we_rules env) (we_now env) i PROVENANCE_STALE (Some reason) None st = Inr st'"
    using assms by (simp add: apply_demote_def)
  then show thesis
    by (rule update_row) (use that in \<open>auto simp: get_particle_def fun_eq_iff demoted_row\<close>)
qed

lemma wrapper_beliefs:
  assumes "apply_wrapper env (Some w) hint st = Inr st'"
  shows "get_particle st' = (get_particle st)(p_id w \<mapsto> w)"
    "p_status w = PROVENANCE_STALE \<Longrightarrow> p_reason w = Some CONFLICT_PENDING"
proof -
  have "insert_particle (we_rules env) w None hint st = Inr st'"
    using assms by (auto simp: apply_wrapper_def born_def split: if_splits)
  from insert_row [OF this]
  show "get_particle st' = (get_particle st)(p_id w \<mapsto> w)" "p_status w = PROVENANCE_STALE \<Longrightarrow> p_reason w = Some CONFLICT_PENDING"
    by (auto simp: get_particle_def fun_eq_iff from_model_def Let_def)
qed

text \<open>A ruling with no loser retires nothing but what waits for a review.\<close>

lemma no_loser_no_retirement:
  assumes "plan = plan_conflict_writes build vname outcome new existing e s trigger scores domain rd d"
    and "w = snd (plan_quarantine build existing new e s trigger False rd d)"
    and steps: "apply_insert env (insert_p plan) emb st = Inr st1" "apply_demote env (demote plan) st1 = Inr st2"
      "apply_wrapper env (wrapper plan) (wrapper_domain_hint plan) st2 = Inr st3"
    and "p_status new = ACTIVE" "get_particle st3 i = Some q" "get_particle st i \<noteq> Some q"
    and "p_status q = PROVENANCE_STALE" "p_reason q \<noteq> Some CONFLICT_PENDING"
  shows "outcome_ruling outcome \<notin> {Both, Dropped, Held}"
proof
  note shape = plan_by_ruling [OF assms(1,2)]
  assume "outcome_ruling outcome \<in> {Both, Dropped, Held}"
  then consider "outcome_ruling outcome = Both" | "outcome_ruling outcome = Dropped" | "outcome_ruling outcome = Held" by blast
  then show False
  proof cases
    case 1
    then have st1: "bear_store env (minted (verdict outcome) new existing) (emb, None) st = Inr st1" and "st3 = st1"
      using shape steps by (auto simp: apply_bears)
    then show False using bear_beliefs(2) [OF st1] assms(6-10) by (auto split: if_splits)
  next
    case 2
    then have "st3 = st" using shape steps by (auto simp: apply_bears)
    then show False using assms(7,8) by simp
  next
    case 3
    then have st2: "bear_store env (demoted new CONFLICT_PENDING) (emb, None) st = Inr st2"
      and st3: "apply_wrapper env (Some w) (wrapper_domain_hint plan) st2 = Inr st3"
      using shape steps by (auto simp: apply_bears)
    show False
      using bear_beliefs(2) [OF st2] wrapper_beliefs [OF st3] assms(7-10) by (auto simp: demoted_def split: if_splits)
  qed
qed

text \<open>
  C8. No claim leaves belief unrecorded. Whatever verdict is applied, a claim that is retired by it
  (stale for any reason but a pending review) is named by the one event the run appends, as the loser,
  together with the claim that replaces it, which is believed afterwards.
\<close>

theorem every_retirement_is_recorded:
  assumes "apply_conflict_plan env observer
      (plan_conflict_writes build vname outcome new existing e s trigger scores domain rd d) existing emb ps = Inr (res, ps')"
    and "p_status new = ACTIVE" "get_particle (ps_store ps) (p_id existing) = Some cur" "p_status cur = ACTIVE"
    and "get_particle (ps_store ps') i = Some q" "get_particle (ps_store ps) i \<noteq> Some q"
    and "p_status q = PROVENANCE_STALE" "p_reason q \<noteq> Some CONFLICT_PENDING"
  shows "\<exists>ev j p. st_events (ps_store ps') = st_events (ps_store ps) @ [ev]
     \<and> ev_refs ev = [(E_PARTICLE, i), (E_PARTICLE, j)]
     \<and> get_particle (ps_store ps') j = Some p \<and> p_status p = ACTIVE"
proof -
  define plan where "plan = plan_conflict_writes build vname outcome new existing e s trigger scores domain rd d"
  define w where "w = snd (plan_quarantine build existing new e s trigger False rd d)"
  let ?new = "minted (verdict outcome) new existing"
  note shape = plan_by_ruling [OF plan_def w_def]
  obtain st1 st2 st3 where steps: "apply_insert env (insert_p plan) emb (ps_store ps) = Inr st1"
      "apply_demote env (demote plan) st1 = Inr st2" "apply_wrapper env (wrapper plan) (wrapper_domain_hint plan) st2 = Inr st3"
    and final: "get_particle (ps_store ps') = get_particle st3"
      "st_events (ps_store ps') = st_events (ps_store ps) @ map (event_row (we_http env))
         (List.map_filter id [update_event plan, retirement_event plan, dropped_event plan])"
    using apply_conflict_plan_Inr [OF assms(1) [folded plan_def]] by blast
  note bear = bear_beliefs [of env ?new "(emb, None)" "ps_store ps" st1]
  have no_loser: "outcome_ruling outcome \<notin> {Both, Dropped, Held}"
    using no_loser_no_retirement [OF plan_def w_def steps assms(2)] final(1) assms(5-8) by simp
  show ?thesis
  proof (cases "outcome_ruling outcome")
    case (New_wins reason)
    then have st1: "bear_store env ?new (emb, None) (ps_store ps) = Inr st1"
      and dem: "apply_demote env (Some (p_id existing, reason)) st1 = Inr st2" and "st3 = st2"
      using shape steps by (auto simp: apply_bears)
    from dem obtain p where "get_particle st2 = (get_particle st1)(p_id existing \<mapsto> demoted p reason)"
      by (rule demote_beliefs)
    with bear [OF st1] assms(2-8) final(1) \<open>st3 = st2\<close> have "i = p_id existing" "p_id new \<noteq> p_id existing"
      "get_particle (ps_store ps') (p_id new) = Some ?new" by (auto split: if_splits)
    then show ?thesis using shape New_wins final(2) assms(2) by auto
  next
    case (Existing_wins reason)
    then have st1: "bear_store env new (emb, None) (ps_store ps) = Inr st1"
      and dem: "apply_demote env (Some (p_id new, reason)) st1 = Inr st2" and "st3 = st2"
      using shape steps by (auto simp: apply_bears)
    from dem obtain p where "get_particle st2 = (get_particle st1)(p_id new \<mapsto> demoted p reason)"
      by (rule demote_beliefs)
    with bear_beliefs [OF st1] assms(2-8) final(1) \<open>st3 = st2\<close> have "i = p_id new" "p_id new \<noteq> p_id existing"
      "get_particle (ps_store ps') (p_id existing) = Some cur" by (auto split: if_splits)
    then show ?thesis using shape Existing_wins final(2) assms(4) by auto
  qed (use no_loser in simp_all)
qed

section \<open>Concrete runs\<close>

definition demo_env :: write_env where
  "demo_env = \<lparr>we_rules = demo_rules, we_now = 7, we_http = None\<rparr>"

definition demo_build :: record_builder where
  "demo_build old q e s who t tw d = (demo_particle ''w'' ''conflict'')\<lparr>p_status := INCONSISTENCY\<rparr>"

definition demo_pass :: pass_state where
  "demo_pass = \<lparr>ps_store = demo_store, ps_cache = None, ps_retired = Some []\<rparr>"

definition demo_outcome :: ladder_outcome where
  "demo_outcome = \<lparr>verdict = Some UPDATE_SUPERSEDES, outcome_divergence = False\<rparr>"

definition demo_plan :: conflict_write_plan where
  "demo_plan = plan_conflict_writes demo_build (\<lambda>v. ''v'') demo_outcome (demo_particle ''b'' ''new'') (demo_particle ''a'' ''old'')
     ''e'' ''s'' SOURCE (JNull, JNull) None None None"

lemma demo_permits: "permits (we_rules demo_env)"
  by (simp add: permits_def demo_env_def demo_rules_def)

lemma demo_beliefs: "get_particle demo_store = [''a'' \<mapsto> demo_particle ''a'' ''old'']"
  by (auto simp: get_particle_def fun_eq_iff demo_store_simps Let_def)

lemma demo_plan_w: "snd (plan_quarantine demo_build (demo_particle ''a'' ''old'') (demo_particle ''b'' ''new'') ''e'' ''s'' SOURCE False None None)
    = (demo_particle ''w'' ''conflict'')\<lparr>p_status := INCONSISTENCY\<rparr>"
  by (simp add: plan_quarantine_def demo_build_def Let_def)

theorem plan_settles_witness:
  "\<exists>res ps'. apply_conflict_plan demo_env False demo_plan (demo_particle ''a'' ''old'') None demo_pass = Inr (res, ps')
     \<and> get_particle (ps_store ps') ''a'' = Some (demoted (demo_particle ''a'' ''old'') SUPERSEDED_BY_UPDATE)
     \<and> get_particle (ps_store ps') ''b'' = Some ((demo_particle ''b'' ''new'')\<lparr>p_supersedes := Some ''a''\<rparr>)"
  using plan_settles [OF demo_permits, of "demo_particle ''b'' ''new''" demo_pass "demo_particle ''a'' ''old''"
      "demo_particle ''a'' ''old''" "(demo_particle ''w'' ''conflict'')\<lparr>p_status := INCONSISTENCY\<rparr>" demo_build
      "''e''" "''s''" SOURCE None None False "\<lambda>v. ''v''" demo_outcome "(JNull, JNull)" None None, unfolded demo_plan_w]
  unfolding demo_plan_def [symmetric]
  by (auto simp: demo_pass_def demo_beliefs demo_particle_def demo_outcome_def outcome_ruling_def minted_def)

theorem every_retirement_is_recorded_witness:
  "\<exists>res ps' ev j. apply_conflict_plan demo_env False demo_plan (demo_particle ''a'' ''old'') None demo_pass = Inr (res, ps')
     \<and> st_events (ps_store ps') = [ev] \<and> ev_refs ev = [(E_PARTICLE, ''a''), (E_PARTICLE, j)]"
proof -
  have "\<exists>res ps'. apply_conflict_plan demo_env False demo_plan (demo_particle ''a'' ''old'') None demo_pass = Inr (res, ps')
      \<and> get_particle (ps_store ps') ''a'' = Some (demoted (demo_particle ''a'' ''old'') SUPERSEDED_BY_UPDATE)"
    using settles_steps [OF demo_permits, of "demo_particle ''b'' ''new''" demo_store "demo_particle ''a'' ''old''"
      "demo_particle ''a'' ''old''" "(demo_particle ''w'' ''conflict'')\<lparr>p_status := INCONSISTENCY\<rparr>" demo_build
      "''e''" "''s''" SOURCE None None demo_plan "\<lambda>v. ''v''" demo_outcome "(JNull, JNull)" None None, unfolded demo_plan_w]
      apply_conflict_plan_runs [of demo_env demo_plan None demo_pass _ _ _ False "demo_particle ''a'' ''old''"]
    by (fastforce simp: demo_pass_def demo_beliefs demo_particle_def demo_outcome_def outcome_ruling_def minted_def demo_plan_def)
  then obtain res ps' where run: "apply_conflict_plan demo_env False demo_plan (demo_particle ''a'' ''old'') None demo_pass = Inr (res, ps')"
      "get_particle (ps_store ps') ''a'' = Some (demoted (demo_particle ''a'' ''old'') SUPERSEDED_BY_UPDATE)" by blast
  have "st_events demo_store = []"
    by (simp add: demo_store_simps Let_def)
  then show ?thesis
    using every_retirement_is_recorded [OF run(1) [unfolded demo_plan_def] _ _ _ run(2)] run(1)
    by (auto simp: demo_pass_def demo_beliefs demo_particle_def demoted_def demo_plan_def)
qed

section \<open>Holds and further pairs\<close>

lemma append_ref_beliefs:
  "get_particle (snd (append_provenance_ref i ref st)) j =
     (if j = i then map_option (\<lambda>p. if ref \<in> set (p_provenance p) then p else p\<lparr>p_provenance := p_provenance p @ [ref]\<rparr>) (get_particle st i)
      else get_particle st j)"
  by (auto simp: append_provenance_ref_def get_particle_def Let_def split: option.splits)

text \<open>The refs a hold ends with: its own, then each new one once.\<close>

definition merge_refs :: "provenance_ref list \<Rightarrow> provenance_ref list \<Rightarrow> provenance_ref list" where
  "merge_refs old new = fold (\<lambda>r refs. if r \<in> set refs then refs else refs @ [r]) new old"

lemma merge_refs_simps [simp]:
  "merge_refs old [] = old" "merge_refs old (r # rs) = merge_refs (if r \<in> set old then old else old @ [r]) rs"
  by (simp_all add: merge_refs_def)

lemma append_refs_beliefs:
  "get_particle st i = Some p \<Longrightarrow>
     get_particle (fold (\<lambda>r st. snd (append_provenance_ref i r st)) rs st) =
       (get_particle st)(i \<mapsto> p\<lparr>p_provenance := merge_refs (p_provenance p) rs\<rparr>)"
proof (induction rs arbitrary: st p)
  case Nil
  then show ?case by (simp add: fun_upd_idem)
next
  case (Cons r rs)
  let ?p = "if r \<in> set (p_provenance p) then p else p\<lparr>p_provenance := p_provenance p @ [r]\<rparr>"
  let ?st = "snd (append_provenance_ref i r st)"
  have step: "get_particle ?st = (get_particle st)(i \<mapsto> ?p)"
    using Cons.prems by (simp add: append_ref_beliefs fun_eq_iff)
  then have "get_particle (fold (\<lambda>r st. snd (append_provenance_ref i r st)) rs ?st) =
      (get_particle ?st)(i \<mapsto> ?p\<lparr>p_provenance := merge_refs (p_provenance ?p) rs\<rparr>)"
    by (intro Cons.IH) simp
  then show ?case unfolding step by (cases "r \<in> set (p_provenance p)") simp_all
qed

lemma append_refs_events [simp]: "st_events (fold (\<lambda>r st. snd (append_provenance_ref i r st)) rs st) = st_events st"
  by (induction rs arbitrary: st) (auto simp: append_provenance_ref_def Let_def put_row_def split: option.splits)

lemma retired_hold_plan:
  fixes plan
  assumes "plan = plan_retired_hold build twin p e s trigger domain"
  shows "insert_p plan = Some (demoted p CONFLICT_PENDING)" "demote plan = None"
    "wrapper plan = Some (snd (plan_quarantine build twin p e s trigger True None None))" "update_event plan = None"
    "retirement_event plan = None" "dropped_event plan = None"
  unfolding assms plan_retired_hold_def plan_quarantine_fst [of build twin p e s trigger True None None, symmetric]
  by (simp_all add: no_writes_def split: prod.splits)

lemma hold_on_hold:
  assumes "is_pending_hold twin" "get_particle (ps_store ps) (p_id twin) = Some twin"
  shows "\<exists>ps'. hold_retired_reassertion env build p emb twin e s trigger domain ps = Inr (Some twin, ps')
     \<and> get_particle (ps_store ps') = (get_particle (ps_store ps))
         (p_id twin \<mapsto> twin\<lparr>p_provenance := merge_refs (p_provenance twin) (p_provenance p)\<rparr>)
     \<and> st_events (ps_store ps') = st_events (ps_store ps) \<and> ps_cache ps' = ps_cache ps \<and> ps_retired ps' = ps_retired ps"
  using assms by (simp add: hold_retired_reassertion_def append_refs_beliefs)

lemma hold_on_retired:
  fixes env :: write_env
  assumes "\<not> is_pending_hold twin" "permits (we_rules env)" "get_particle (ps_store ps) (p_id p) = None"
    and "w = build twin (demoted p CONFLICT_PENDING) e s PIPELINE_ACTOR trigger True None"
    and "p_status w = INCONSISTENCY" "get_particle (ps_store ps) (p_id w) = None" "p_id w \<noteq> p_id p"
  shows "\<exists>ps'. hold_retired_reassertion env build p emb twin e s trigger domain ps = Inr (Some w, ps')
     \<and> get_particle (ps_store ps') = (get_particle (ps_store ps))(p_id p \<mapsto> demoted p CONFLICT_PENDING, p_id w \<mapsto> w)
     \<and> st_events (ps_store ps') = st_events (ps_store ps) \<and> ps_cache ps' = ps_cache ps \<and> ps_retired ps' = ps_retired ps"
proof -
  define plan where "plan = plan_retired_hold build twin p e s trigger domain"
  let ?held = "demoted p CONFLICT_PENDING" and ?ps = "ps\<lparr>ps_cache := None, ps_retired := None\<rparr>"
  have w: "w = snd (plan_quarantine build twin p e s trigger True None None)"
    unfolding assms(4) by (simp add: plan_quarantine_def demoted_def Let_def)
  note plan = retired_hold_plan [OF plan_def, folded w]
  have result: "plan_result plan = Some w"
    unfolding plan_def plan_retired_hold_def w by (simp split: prod.splits)
  have held: "p_id ?held = p_id p" by (simp add: demoted_def)
  have "\<exists>s1 s2. bear_store env ?held (emb, None) (ps_store ps) = Inr s1
      \<and> bear_store env w (None, wrapper_domain_hint plan) s1 = Inr s2
      \<and> get_particle s2 = (get_particle (ps_store ps))(p_id ?held \<mapsto> ?held, p_id w \<mapsto> w)"
    by (rule plan_writes.held) (use assms held in \<open>simp_all add: birth_ok_def demoted_def\<close>)
  then obtain s1 s2 where steps: "bear_store env ?held (emb, None) (ps_store ps) = Inr s1"
      "bear_store env w (None, wrapper_domain_hint plan) s1 = Inr s2"
      "get_particle s2 = (get_particle (ps_store ps))(p_id p \<mapsto> ?held, p_id w \<mapsto> w)"
    unfolding held by blast
  have "\<exists>ps'. apply_conflict_plan env False plan twin emb ?ps = Inr (plan_result plan, ps')
      \<and> get_particle (ps_store ps') = get_particle s2"
    using steps plan assms(5) by (intro apply_conflict_plan_runs [of _ _ _ _ s1 s1]) (simp_all add: apply_bears)
  then obtain ps1 where run: "apply_conflict_plan env False plan twin emb ?ps = Inr (Some w, ps1)"
      "get_particle (ps_store ps1) = get_particle s2" unfolding result by blast
  have "st_events (ps_store ps1) = st_events (ps_store ps)"
    using run(1) by (elim apply_conflict_plan_Inr) (simp add: plan map_filter_simps)
  then show ?thesis
    using run steps(3) assms(1) by (simp add: hold_retired_reassertion_def plan_def)
qed

text \<open>What the index of retired values returns is a stored claim that a judgment retired, or an open hold on one.\<close>

lemma retired_index_twin:
  assumes "store_reach rules st" "hash_of_key klib" "content_digest rules = content_hash klib"
    and "build_retired_value_index lib klib st contents excluded = Inr ix"
    and "p_content p \<in> set contents" "find_duplicate lib klib ix p = Some twin"
  shows "get_particle st (p_id twin) = Some twin" "particle_key klib twin = particle_key klib p"
    "is_judgment_retired twin \<or> is_pending_hold twin"
proof -
  have eligible: "is_suppression_eligible lib p" using assms(6) by (auto simp: find_duplicate_def split: if_splits)
  obtain ix' where "build_retired_value_index lib klib st contents excluded = Inr ix'"
    and found: "case find_duplicate lib klib ix' p of
         Some q \<Rightarrow> (\<exists>r. retired_twin_row lib klib st excluded p r \<and> q = r_particle r) \<and>
                    (is_pending_hold q \<longleftrightarrow> (\<exists>r. retired_twin_row lib klib st excluded p r \<and> is_pending_hold (r_particle r)))
       | None \<Rightarrow> \<nexists>r. retired_twin_row lib klib st excluded p r"
    by (rule retired_row_found [OF reach_well_hashed [OF assms(1-3)], of lib contents excluded]) (use assms(5) eligible in blast)
  then have "ix' = ix" using assms(4) by simp
  then obtain r where "retired_twin_row lib klib st excluded p r" "twin = r_particle r"
    using found assms(6) by auto
  then show "get_particle st (p_id twin) = Some twin" "particle_key klib twin = particle_key klib p"
      "is_judgment_retired twin \<or> is_pending_hold twin"
    by (auto simp: retired_twin_row_def twin_row_def get_particle_def)
qed

definition believed_ids :: "store \<Rightarrow> string set" where
  "believed_ids st = {i. \<exists>q. get_particle st i = Some q \<and> p_status q = ACTIVE}"

text \<open>
  C9. A claim that a judgment retired, or that already waits for review, is held and not believed when it is
  asserted again. Whatever the index of retired values returns for a candidate, the hold succeeds: on an open
  hold, the observation's refs are added to it, each once, and nothing else changes; otherwise the
  candidate is stored PROVENANCE_STALE / CONFLICT_PENDING together with the INCONSISTENCY record built from the twin
  and the candidate, which is returned. The beliefs held, the event log, the pass's candidate cache and its retired
  set are as before.
\<close>

theorem reassertion_is_held:
  fixes env :: write_env
  assumes "permits (we_rules env)" "store_reach (we_rules env) (ps_store ps)"
    and "hash_of_key klib" "content_digest (we_rules env) = content_hash klib"
    and "build_retired_value_index lib klib (ps_store ps) contents excluded = Inr ix"
    and "p_content p \<in> set contents" "find_duplicate lib klib ix p = Some twin"
    and "get_particle (ps_store ps) (p_id p) = None"
    and "w = build twin (demoted p CONFLICT_PENDING) e s PIPELINE_ACTOR trigger True None"
    and "p_status w = INCONSISTENCY" "get_particle (ps_store ps) (p_id w) = None" "p_id w \<noteq> p_id p"
  shows "particle_key klib twin = particle_key klib p \<and> (is_judgment_retired twin \<or> is_pending_hold twin) \<and>
    (\<exists>ps'. hold_retired_reassertion env build p emb twin e s trigger domain ps =
        Inr (Some (if is_pending_hold twin then twin else w), ps')
     \<and> get_particle (ps_store ps') =
         (if is_pending_hold twin
          then (get_particle (ps_store ps))(p_id twin \<mapsto> twin\<lparr>p_provenance := merge_refs (p_provenance twin) (p_provenance p)\<rparr>)
          else (get_particle (ps_store ps))(p_id p \<mapsto> demoted p CONFLICT_PENDING, p_id w \<mapsto> w))
     \<and> believed_ids (ps_store ps') = believed_ids (ps_store ps)
     \<and> st_events (ps_store ps') = st_events (ps_store ps) \<and> ps_cache ps' = ps_cache ps \<and> ps_retired ps' = ps_retired ps)"
proof -
  note twin = retired_index_twin [OF assms(2-7)]
  show ?thesis
  proof (cases "is_pending_hold twin")
    case True
    have "p_status twin \<noteq> ACTIVE" using True by (auto simp: is_pending_hold_def in_states_iff PENDING_HOLD_def)
    then show ?thesis
      using hold_on_hold [OF True twin(1), of env build p emb e s trigger domain] twin True
      by (auto simp: believed_ids_def)
  next
    case False
    have "p_id p \<notin> believed_ids (ps_store ps)" "p_id w \<notin> believed_ids (ps_store ps)"
      using assms(8,11) by (simp_all add: believed_ids_def)
    then show ?thesis
      using hold_on_retired [of twin env ps p w build e s trigger emb domain] twin(2,3) False assms(1,8-12)
      by (auto simp: believed_ids_def demoted_def)
  qed
qed

text \<open>A store with one retracted claim, and the claim asserted again.\<close>

lemma demo_events: "st_events demo_store = []"
  by (simp add: demo_store_simps Let_def)

definition demo_retracted :: store where
  "demo_retracted = projr (update_particle_status demo_rules 7 ''a'' RETRACTED (Some EXPLICIT_RETRACTION) None demo_store)"

theorem reassertion_is_held_witness:
  "\<exists>ix twin ps'. build_retired_value_index demo_lib demo_keys demo_retracted [''old''] [] = Inr ix
     \<and> find_duplicate demo_lib demo_keys ix (demo_particle ''b'' ''old'') = Some twin
     \<and> hold_retired_reassertion demo_env demo_build (demo_particle ''b'' ''old'') None twin ''e'' ''s'' SOURCE None
         (demo_pass\<lparr>ps_store := demo_retracted\<rparr>) = Inr (Some ((demo_particle ''w'' ''conflict'')\<lparr>p_status := INCONSISTENCY\<rparr>), ps')
     \<and> get_particle (ps_store ps') ''b'' = Some (demoted (demo_particle ''b'' ''old'') CONFLICT_PENDING)"
proof -
  let ?p = "demo_particle ''b'' ''old''" and ?ps = "demo_pass\<lparr>ps_store := demo_retracted\<rparr>"
  let ?w = "(demo_particle ''w'' ''conflict'')\<lparr>p_status := INCONSISTENCY\<rparr>"
  have reach: "store_reach demo_rules demo_retracted"
    by (rule store_reach.wrote [OF demo_reach, of "SetStatus 7 ''a'' RETRACTED (Some EXPLICIT_RETRACTION) None"])
      (simp add: demo_retracted_def demo_store_simps update_particle_status_def Let_def)
  have "\<exists>ix twin. build_retired_value_index demo_lib demo_keys demo_retracted [''old''] [] = Inr ix
      \<and> find_duplicate demo_lib demo_keys ix ?p = Some twin \<and> \<not> is_pending_hold twin"
    by (simp add: demo_retracted_def demo_store_simps update_particle_status_def put_row_def retire_stamp_def Let_def
        build_retired_value_index_def get_particles_by_content_hashes_and_state_def chunks.simps rows_where_def hash_among_def
        demo_keys_def PENDING_HOLD_def JUDGMENT_RETIREMENTS_def status_came_with_a_bundle_def IMPORTED_BY_def
        init_index_def add_to_index_def find_duplicate_def is_suppression_eligible_def demo_lib_def particle_key_def
        is_pending_hold_def in_states_def remove_particle_from_relations_def)
  then obtain ix twin where found: "build_retired_value_index demo_lib demo_keys demo_retracted [''old''] [] = Inr ix"
      "find_duplicate demo_lib demo_keys ix ?p = Some twin" "\<not> is_pending_hold twin" by blast
  have fresh: "get_particle demo_retracted i = None" if "i \<noteq> ''a''" for i
    using that by (simp add: demo_retracted_def get_particle_def demo_store_simps update_particle_status_def put_row_def
        remove_particle_from_relations_def Let_def)
  have ids: "p_id ?p = ''b''" "p_id ?w = ''w''" "p_content ?p = ''old''" by (simp_all add: demo_particle_def)
  have "\<exists>ps'. hold_retired_reassertion demo_env demo_build ?p None twin ''e'' ''s'' SOURCE None ?ps = Inr (Some ?w, ps')
      \<and> get_particle (ps_store ps') = (get_particle demo_retracted)(p_id ?p \<mapsto> demoted ?p CONFLICT_PENDING, p_id ?w \<mapsto> ?w)"
    using reassertion_is_held [of demo_env ?ps demo_keys demo_lib "[''old'']" "[]" ix ?p twin ?w demo_build "''e''" "''s''" SOURCE
        None None] demo_permits demo_keys_law found(2) ids
      reach found(1,3) fresh demo_digest by (simp add: demo_env_def demo_build_def) blast
  then show ?thesis using found ids by auto
qed

section \<open>Further pairs\<close>

text \<open>A list of demotions over the ids of one slot: none twice, none by itself, one claim left standing.\<close>

definition slot_demotions :: "string \<Rightarrow> string list \<Rightarrow> (string \<times> string) list \<Rightarrow> bool" where
  "slot_demotions w is ds =
     (distinct (map fst ds) \<and> set (map fst ds) \<subseteq> insert w (set is)
      \<and> (w \<notin> set (map fst ds) \<or> (\<exists>i \<in> set is. i \<notin> set (map fst ds))) \<and> (\<forall>d \<in> set ds. fst d \<noteq> snd d))"

lemma slot_demotions_steps:
  "slot_demotions w [] []"
  "slot_demotions w is ds \<Longrightarrow> slot_demotions w (q # is) ds"
  "w \<noteq> q \<Longrightarrow> slot_demotions w (q # is) [(w, q)]"
  by (auto simp: slot_demotions_def)

lemma slot_demotions_retire:
  assumes "slot_demotions w is ds" "q \<notin> set is" "q \<noteq> w"
  shows "slot_demotions w (q # is) ((q, w) # ds)"
proof -
  have "q \<notin> set (map fst ds)" using assms unfolding slot_demotions_def by blast
  then show ?thesis using assms unfolding slot_demotions_def by fastforce
qed

lemma extras_slot_demotions:
  "plan_update_extras clib lib winner entry sid others entries pre upd revision = Some ds \<Longrightarrow>
   distinct (map p_id (winner # others)) \<Longrightarrow> slot_demotions (p_id winner) (map p_id others) ds"
proof (induction others arbitrary: ds)
  case Nil
  then show ?case by (simp add: slot_demotions_steps)
next
  case (Cons q others)
  have d: "distinct (map p_id (winner # others))" "p_id q \<notin> set (map p_id others)" "p_id q \<noteq> p_id winner"
    using Cons.prems(2) by auto
  consider (skip) "extra_order clib lib winner entry sid entries pre upd revision q = Some None"
    | (order) k where "extra_order clib lib winner entry sid entries pre upd revision q = Some (Some k)"
    using Cons.prems(1) by (cases "extra_order clib lib winner entry sid entries pre upd revision q") (auto split: option.splits)
  then show ?case
  proof cases
    case skip
    then show ?thesis using Cons.prems(1) Cons.IH [OF _ d(1)] slot_demotions_steps(2) by simp
  next
    case (order k)
    show ?thesis
    proof (cases "k > 0")
      case True
      then obtain ds1 where "plan_update_extras clib lib winner entry sid others entries pre upd revision = Some ds1"
          "ds = (p_id q, p_id winner) # ds1"
        using order Cons.prems(1) by auto
      then show ?thesis using slot_demotions_retire [OF Cons.IH [OF _ d(1)] d(2,3)] by simp
    next
      case False
      then have "ds = [(p_id winner, p_id q)]" using order Cons.prems(1) by auto
      then show ?thesis using slot_demotions_steps(3) [of "p_id winner" "p_id q"] d(3) by simp
    qed
  qed
qed

text \<open>The beliefs with every claim of a set of ids retired for one reason.\<close>

definition retire_all :: "status_reason \<Rightarrow> string set \<Rightarrow> beliefs \<Rightarrow> beliefs" where
  "retire_all reason ls B = (\<lambda>i. if i \<in> ls then map_option (\<lambda>p. demoted p reason) (B i) else B i)"

lemma retire_all_none [simp]: "retire_all reason {} B = B"
  by (simp add: retire_all_def)

lemma apply_extras_runs:
  assumes "permits (we_rules env)" "distinct (map fst ds)" "\<forall>d \<in> set ds. fst d \<noteq> snd d"
    and "\<And>i. i \<in> fst ` set ds \<Longrightarrow> \<exists>p. get_particle st i = Some p \<and> p_status p = ACTIVE"
  shows "\<exists>st' ret'. apply_extras env d ds (st, retired) = Inr (st', ret') \<and> set ret' = set retired \<union> fst ` set ds
     \<and> get_particle st' = retire_all SUPERSEDED_BY_UPDATE (fst ` set ds) (get_particle st)
     \<and> map ev_refs (st_events st') = map ev_refs (st_events st) @ map (\<lambda>(l, w). [(E_PARTICLE, l), (E_PARTICLE, w)]) ds"
  using assms(2-4)
proof (induction ds arbitrary: st retired)
  case (Cons x ds)
  obtain l w where x: "x = (l, w)" by (cases x)
  obtain p where p: "get_particle st l = Some p" "p_status p = ACTIVE"
    using Cons.prems(3) [of l] x by auto
  obtain st1 where st1: "apply_demote env (Some (l, SUPERSEDED_BY_UPDATE)) st = Inr st1"
      "get_particle st1 = (get_particle st)(l \<mapsto> demoted p SUPERSEDED_BY_UPDATE)"
    using plan_writes.demote_ok [OF assms(1) p] by blast
  define st2 where "st2 = record_planned env (Some (plan_update_event l w ''extra'' d)) st1"
  have st2: "get_particle st2 = get_particle st1" "map ev_refs (st_events st2) = map ev_refs (st_events st) @ [[(E_PARTICLE, l), (E_PARTICLE, w)]]"
    using apply_steps_events(3) [OF st1(1)] Cons.prems(2) x by (auto simp: st2_def record_planned_def record_event_eq)
  have run: "apply_extras env d (x # ds) (st, retired) = apply_extras env d ds (st2, List.insert l retired)"
    using st1(1) by (simp add: x apply_demote_def st2_def)
  have "\<exists>p. get_particle st2 i = Some p \<and> p_status p = ACTIVE" if "i \<in> fst ` set ds" for i
    using Cons.prems(1) Cons.prems(3) [of i] that by (auto simp: st2(1) st1(2) x)
  then obtain st' ret' where IH: "apply_extras env d ds (st2, List.insert l retired) = Inr (st', ret')"
      "set ret' = set (List.insert l retired) \<union> fst ` set ds"
      "get_particle st' = retire_all SUPERSEDED_BY_UPDATE (fst ` set ds) (get_particle st2)"
      "map ev_refs (st_events st') = map ev_refs (st_events st2) @ map (\<lambda>(l, w). [(E_PARTICLE, l), (E_PARTICLE, w)]) ds"
    using Cons.IH [of st2 "List.insert l retired"] Cons.prems(1,2) by auto
  have "l \<notin> fst ` set ds" using Cons.prems(1) x by auto
  then have "get_particle st' = retire_all SUPERSEDED_BY_UPDATE (fst ` set (x # ds)) (get_particle st)"
    unfolding IH(3) st2(1) st1(2) by (auto simp: retire_all_def fun_eq_iff x p)
  then show ?case
    unfolding run IH(1) using IH(2,4) st2(2) by (auto simp: x)
qed simp

text \<open>
  C10. Resolving further pairs by rung 2.5 cannot fail and cannot empty the slot. When the winner and
  the other claims are distinct and believed, and their entries' URIs can be read, each planned loser,
  and nothing else, is retired as superseded by an update, is added to the retired set, and has one
  event naming it and the claim that replaces it, in plan order; at least one of the claims stays
  believed.
\<close>

theorem extras_keep_the_slot_filled:
  assumes "permits (we_rules env)" "distinct (map p_id (winner # others))"
    and "plan_update_extras clib lib winner (Some winner_entry) sid others entries pre upd revision = Some ds"
    and "\<And>p. p \<in> set (winner # others) \<Longrightarrow> get_particle st (p_id p) = Some p \<and> p_status p = ACTIVE"
  shows "\<exists>st' ret'. apply_update_extras clib lib env d winner winner_entry sid others retired entries pre upd revision st
       = Some (Inr (st', ret'))
     \<and> set ret' = set retired \<union> fst ` set ds
     \<and> get_particle st' = retire_all SUPERSEDED_BY_UPDATE (fst ` set ds) (get_particle st)
     \<and> map ev_refs (st_events st') = map ev_refs (st_events st) @ map (\<lambda>(l, w). [(E_PARTICLE, l), (E_PARTICLE, w)]) ds
     \<and> (\<exists>p \<in> set (winner # others). get_particle st' (p_id p) = Some p)"
proof -
  have slot: "slot_demotions (p_id winner) (map p_id others) ds"
    by (rule extras_slot_demotions [OF assms(3,2)])
  have believed: "\<exists>p. get_particle st i = Some p \<and> p_status p = ACTIVE" if "i \<in> fst ` set ds" for i
  proof -
    have "i \<in> p_id ` set (winner # others)" using slot that by (auto simp: slot_demotions_def)
    then obtain p where "p \<in> set (winner # others)" "i = p_id p" by blast
    then show ?thesis using assms(4) [of p] by blast
  qed
  have losers: "\<forall>d \<in> set ds. fst d \<noteq> snd d" "distinct (map fst ds)"
    using slot by (simp_all add: slot_demotions_def)
  obtain st' ret' where run: "apply_extras env d ds (st, retired) = Inr (st', ret')"
      "set ret' = set retired \<union> fst ` set ds"
      "get_particle st' = retire_all SUPERSEDED_BY_UPDATE (fst ` set ds) (get_particle st)"
      "map ev_refs (st_events st') = map ev_refs (st_events st) @ map (\<lambda>(l, w). [(E_PARTICLE, l), (E_PARTICLE, w)]) ds"
    using apply_extras_runs [OF assms(1) losers(2,1) believed, where d = d and retired = retired] by blast
  obtain p where p: "p \<in> set (winner # others)" "p_id p \<notin> fst ` set ds"
    using slot by (auto simp: slot_demotions_def)
  then have "get_particle st' (p_id p) = Some p" unfolding run(3) retire_all_def using assms(4) by simp
  moreover have "apply_update_extras clib lib env d winner winner_entry sid others retired entries pre upd revision st
      = Some (Inr (st', ret'))"
    using run(1) assms(3) by (simp add: apply_update_extras_def)
  ultimately show ?thesis using p(1) run(2-4) by (intro exI conjI bexI)
qed

definition demo_slot_store :: store where
  "demo_slot_store = projr (insert_particle demo_rules (demo_claim ''o'' ''e'') None None
     (projr (insert_particle demo_rules (demo_claim ''w'' ''e'') None None empty_store)))"

lemma demo_slot_beliefs:
  "get_particle demo_slot_store ''w'' = Some (demo_claim ''w'' ''e'')" "get_particle demo_slot_store ''o'' = Some (demo_claim ''o'' ''e'')"
  by (simp_all add: demo_slot_store_def get_particle_def demo_store_simps demo_claim_def Let_def)

theorem extras_keep_the_slot_filled_witness:
  "\<exists>st' ret'. apply_update_extras demo_lib demo_slots demo_env None (demo_claim ''w'' ''e'') (demo_file ''e'' ''x'' [] 2) ''s''
       [demo_claim ''o'' ''e''] [] [(''e'', Some (demo_file ''e'' ''x'' [] 1))] [] [''o''] [] demo_slot_store = Some (Inr (st', ret'))
     \<and> get_particle st' ''o'' = Some (demoted (demo_claim ''o'' ''e'') SUPERSEDED_BY_UPDATE)
     \<and> get_particle st' ''w'' = Some (demo_claim ''w'' ''e'')"
proof -
  have plan: "plan_update_extras demo_lib demo_slots (demo_claim ''w'' ''e'') (Some (demo_file ''e'' ''x'' [] 2)) ''s''
       [demo_claim ''o'' ''e''] [(''e'', Some (demo_file ''e'' ''x'' [] 1))] [] [''o''] [] = Some [(''o'', ''w'')]"
    by (simp add: extra_order_def source_ref_def lookup_or_def demo_slots_def demo_claim_simps)
  have id_of: "p_id (demo_claim i e) = i" "p_status (demo_claim i e) = ACTIVE" for i e by (simp_all add: demo_claim_def)
  have believed: "get_particle demo_slot_store (p_id p) = Some p \<and> p_status p = ACTIVE"
    if "p \<in> set [demo_claim ''w'' ''e'', demo_claim ''o'' ''e'']" for p
    using that by (auto simp: id_of demo_slot_beliefs)
  have "distinct (map p_id [demo_claim ''w'' ''e'', demo_claim ''o'' ''e''])" by (simp add: id_of)
  from extras_keep_the_slot_filled [OF demo_permits this plan believed, where d = None and retired = "[]"]
  obtain st' ret' where run: "apply_update_extras demo_lib demo_slots demo_env None (demo_claim ''w'' ''e'') (demo_file ''e'' ''x'' [] 2) ''s''
       [demo_claim ''o'' ''e''] [] [(''e'', Some (demo_file ''e'' ''x'' [] 1))] [] [''o''] [] demo_slot_store = Some (Inr (st', ret'))"
      and beliefs: "get_particle st' = retire_all SUPERSEDED_BY_UPDATE (fst ` set [(''o'', ''w'')]) (get_particle demo_slot_store)" by blast
  have "get_particle st' ''o'' = Some (demoted (demo_claim ''o'' ''e'') SUPERSEDED_BY_UPDATE)"
    "get_particle st' ''w'' = Some (demo_claim ''w'' ''e'')"
    unfolding beliefs by (simp_all add: retire_all_def demo_slot_beliefs)
  with run show ?thesis by blast
qed

end
