(* ===== verification/Reconcile_Sweep.thy ===== *)
theory Reconcile_Sweep
  imports Conflict_Plan
begin

text \<open>
  The document sweep: \<^verbatim>\<open>reconcile_supersession\<close> of \<^verbatim>\<open>src/particles/operations/reconcile.py\<close>. It retires
  claims of documents that another document supersedes: it pairs each claim with the most similar one of
  the superseding document, probes the pairs best first under a cap, and writes one retirement and its
  event per transaction.

  Not under \<^verbatim>\<open>src/\<close>, and so parameters: the verdict functions of \<^verbatim>\<open>particles.core\<close> and the cosine. Parameters
  of the surroundings too: a model's answers (the \<open>n\<close>-th question asked in the run), the attribution
  pre-filter, the schema guard, the configuration and the JSON of a rounded score. The stored claims are
  read from the table; that the cached read the code makes gives the same rows is a property of
  \<open>Candidate_Cache\<close>. Progress lines and logging are left out.
\<close>

section \<open>Surroundings\<close>

datatype probe_kind = RECONCILE_CONTRADICTION | UPDATE_SLOT

datatype sweep_act = KEEP | REVIEW | DEMOTE

record resolve_inputs =
  ri_signal :: bool
  ri_new_supersedes :: bool
  ri_existing_supersedes :: bool
  ri_update_order :: "int option"
  ri_single :: bool
  ri_same_slot :: bool

record sweep_lib =
  resolve_conflict :: "particle \<Rightarrow> particle \<Rightarrow> resolve_inputs \<Rightarrow> conflict_verdict"
  sweep_action :: "slot option \<Rightarrow> sweep_act"
  sweep_action_first :: "slot option \<Rightarrow> sweep_act option"
  is_generic_instance_pair :: "particle \<Rightarrow> particle \<Rightarrow> bool"
  remembered_clear :: "bool option \<Rightarrow> bool option \<Rightarrow> bool"
  verdict_key :: "probe_kind \<Rightarrow> string \<Rightarrow> string \<Rightarrow> string \<times> string"
  prompt_hash :: "probe_kind \<Rightarrow> string"
  is_attribution_paraphrase :: "string \<Rightarrow> string \<Rightarrow> bool"
  rounded :: "rat \<Rightarrow> json"
  infer_domain :: "string \<Rightarrow> string option"

record model_answers =
  ask_contradiction :: "nat \<Rightarrow> string \<Rightarrow> string \<Rightarrow> bool option"
  ask_slot :: "nat \<Rightarrow> string \<Rightarrow> string \<Rightarrow> slot option"

record sweep_config =
  document_enabled :: bool
  update_enabled :: bool
  store_single :: bool
  similarity_threshold :: rat
  subject_floor :: rat
  max_reconcile_probes :: nat
  max_update_probes :: nat
  same_slot_admits :: bool

datatype sweep_error = SCHEMA_STALE | BAD_URI | STORE store_error

section \<open>The document sweep\<close>

definition source_entry_id :: "particle \<Rightarrow> string option" where
  "source_entry_id p = map_option ref_entry (source_ref p)"

type_synonym doc_candidate = "rat \<times> particle \<times> particle \<times> string \<times> string"

definition group_by_entry :: "string list \<Rightarrow> (particle \<times> 'emb) list \<Rightarrow> (string, (particle \<times> 'emb) list) dict" where
  "group_by_entry relevant active =
     fold (\<lambda>(p, e) d. case source_entry_id p of
              Some eid \<Rightarrow> if eid \<in> set relevant then setdefault_append eid (p, e) d else d
            | None \<Rightarrow> d) active []"

fun best_match :: "('emb \<Rightarrow> 'emb \<Rightarrow> rat) \<Rightarrow> 'emb \<Rightarrow> (particle \<times> 'emb) list \<Rightarrow> rat \<times> particle option \<Rightarrow> rat \<times> particle option" where
  "best_match sim sub [] acc = acc"
| "best_match sim sub ((p, e) # ps) (best_sim, best) =
     (let s = sim e sub in best_match sim sub ps (if s > best_sim then (s, Some p) else (best_sim, best)))"

definition pair_candidates ::
  "('emb \<Rightarrow> 'emb \<Rightarrow> rat) \<Rightarrow> rat \<Rightarrow> (string, (particle \<times> 'emb) list) dict \<Rightarrow> string \<times> string \<Rightarrow> doc_candidate list" where
  "pair_candidates sim threshold by_entry pair =
     (let sups = indexed by_entry (fst pair); subs = indexed by_entry (snd pair)
      in if sups = [] \<or> subs = [] then []
         else concat (map (\<lambda>(sub_p, sub_emb).
                case best_match sim sub_emb sups (0, None) of
                  (_, None) \<Rightarrow> []
                | (best_sim, Some best) \<Rightarrow>
                    if best_sim < threshold then [] else [(best_sim, sub_p, best, fst pair, snd pair)]) subs))"

definition supersession_candidates ::
  "('emb \<Rightarrow> 'emb \<Rightarrow> rat) \<Rightarrow> (particle \<times> 'emb) list \<Rightarrow> (string \<times> string) list \<Rightarrow> rat \<Rightarrow> doc_candidate list" where
  "supersession_candidates sim active pairs threshold =
     (let relevant = concat (map (\<lambda>(a, b). [a, b]) pairs); by_entry = group_by_entry relevant active
      in concat (map (pair_candidates sim threshold by_entry) pairs))"

definition active_candidates :: "write_env \<Rightarrow> store \<Rightarrow> (particle \<times> rat list) list" where
  "active_candidates env st = get_active_particles_with_embeddings (we_rules env) (table_of st) (st_subjects st) 0 None"

definition count_supersession_candidates ::
  "rat list claim_lib \<Rightarrow> sweep_config \<Rightarrow> write_env \<Rightarrow> set_order \<Rightarrow> corpus_row list \<Rightarrow> store \<Rightarrow> sweep_error + nat" where
  "count_supersession_candidates clib cfg env ord docs st =
     (if \<not> document_enabled cfg \<or> \<not> store_single cfg then Inr 0
      else
        (case iter_supersession_entry_pairs ord docs of
           None \<Rightarrow> Inl BAD_URI
         | Some pairs \<Rightarrow>
             if pairs = [] then Inr 0
             else Inr (length (supersession_candidates (cosine_similarity clib) (active_candidates env st) pairs
                                 (similarity_threshold cfg)))))"

record demotion =
  dm_loser :: string
  dm_winner :: string
  dm_entries :: "(string \<times> string) option" \<comment> \<open>superseded and superseding entry, in the document sweep\<close>
  dm_similarity :: rat

record doc_sweep =
  ds_store :: store
  ds_probed :: nat
  ds_asked :: nat
  ds_demoted :: "string list"
  ds_demotions :: "demotion list"
  ds_error :: "store_error option"

text \<open>The replacement probe: the attribution pre-filter answers without a question.\<close>

definition has_contradiction_signal ::
  "sweep_lib \<Rightarrow> model_answers \<Rightarrow> nat \<Rightarrow> string \<Rightarrow> string \<Rightarrow> bool option \<times> nat" where
  "has_contradiction_signal lib ans n a b =
     (if is_attribution_paraphrase lib a b then (Some False, n) else (ask_contradiction ans n a b, Suc n))"

definition sweep_retirement :: "sweep_lib \<Rightarrow> doc_candidate \<Rightarrow> op_event_row" where
  "sweep_retirement lib c =
     (case c of (sim, sub_p, best, sup_entry, sub_entry) \<Rightarrow>
        plan_retirement_event (p_id sub_p) (p_id best) DOCUMENT_SUPERSESSION ''sweep''
          [(''superseded_entry_id'', JStr sub_entry), (''superseding_entry_id'', JStr sup_entry), (''similarity'', rounded lib sim)])"

fun doc_sweep_loop ::
  "sweep_lib \<Rightarrow> model_answers \<Rightarrow> sweep_config \<Rightarrow> write_env \<Rightarrow> bool \<Rightarrow> doc_candidate list \<Rightarrow> doc_sweep \<Rightarrow> doc_sweep" where
  "doc_sweep_loop lib ans cfg env dry [] s = s"
| "doc_sweep_loop lib ans cfg env dry (c # cs) s =
     (case c of (sim, sub_p, best, sup_entry, sub_entry) \<Rightarrow>
        if ds_probed s \<ge> max_reconcile_probes cfg then s
        else if p_id sub_p \<in> set (ds_demoted s) then doc_sweep_loop lib ans cfg env dry cs s
        else
          let (probe, n) = has_contradiction_signal lib ans (ds_asked s) (p_content best) (p_content sub_p);
              s1 = s\<lparr>ds_probed := Suc (ds_probed s), ds_asked := n\<rparr>;
              v = resolve_conflict lib sub_p best
                    \<lparr>ri_signal = (probe = Some True), ri_new_supersedes = True, ri_existing_supersedes = False,
                     ri_update_order = None, ri_single = store_single cfg, ri_same_slot = False\<rparr>
          in if v \<noteq> DOCUMENT_SUPERSEDES then doc_sweep_loop lib ans cfg env dry cs s1
             else
               let s2 = s1\<lparr>ds_demotions := ds_demotions s1 @ [\<lparr>dm_loser = p_id sub_p, dm_winner = p_id best,
                              dm_entries = Some (sub_entry, sup_entry), dm_similarity = sim\<rparr>],
                            ds_demoted := p_id sub_p # ds_demoted s1\<rparr>
               in if dry then doc_sweep_loop lib ans cfg env dry cs s2
                  else
                    (case update_particle_status (we_rules env) (we_now env) (p_id sub_p) PROVENANCE_STALE
                            (Some DOCUMENT_SUPERSEDED) None (ds_store s2) of
                       Inl err \<Rightarrow> s2\<lparr>ds_error := Some err\<rparr>
                     | Inr st \<Rightarrow>
                         doc_sweep_loop lib ans cfg env dry cs
                           (s2\<lparr>ds_store := record_event (we_http env) (sweep_retirement lib c) st\<rparr>)))"

record sweep_summary =
  sm_scope_pairs :: nat
  sm_candidates :: nat
  sm_probed :: nat
  sm_demotions :: "demotion list"

definition reconcile_supersession ::
  "rat list claim_lib \<Rightarrow> sweep_lib \<Rightarrow> model_answers \<Rightarrow> sweep_config \<Rightarrow> write_env \<Rightarrow> set_order \<Rightarrow> corpus_row list \<Rightarrow> bool \<Rightarrow> bool \<Rightarrow> store
     \<Rightarrow> (sweep_error + sweep_summary) \<times> store" where
  "reconcile_supersession clib lib ans cfg env ord docs schema_current dry st =
     (if \<not> schema_current then (Inl SCHEMA_STALE, st)
      else if \<not> document_enabled cfg \<or> \<not> store_single cfg
      then (Inr \<lparr>sm_scope_pairs = 0, sm_candidates = 0, sm_probed = 0, sm_demotions = []\<rparr>, st)
      else
        (case iter_supersession_entry_pairs ord docs of
           None \<Rightarrow> (Inl BAD_URI, st)
         | Some pairs \<Rightarrow>
             if pairs = [] then (Inr \<lparr>sm_scope_pairs = 0, sm_candidates = 0, sm_probed = 0, sm_demotions = []\<rparr>, st)
             else
               let cands = sort_key (\<lambda>c. - fst c) (supersession_candidates (cosine_similarity clib) (active_candidates env st)
                             pairs (similarity_threshold cfg));
                   s = doc_sweep_loop lib ans cfg env dry cands
                         \<lparr>ds_store = st, ds_probed = 0, ds_asked = 0, ds_demoted = [], ds_demotions = [], ds_error = None\<rparr>
               in (case ds_error s of
                     Some err \<Rightarrow> Inl (STORE err)
                   | None \<Rightarrow> Inr \<lparr>sm_scope_pairs = length pairs, sm_candidates = length cands, sm_probed = ds_probed s,
                                  sm_demotions = ds_demotions s\<rparr>,
                   ds_store s)))"

section \<open>What the document sweep gathers\<close>

lemma best_match_spec:
  "best_match sim sub ps (b, q) = (b', q') \<Longrightarrow>
   b \<le> b' \<and> (\<forall>(p, e) \<in> set ps. sim e sub \<le> b')
     \<and> ((b', q') = (b, q) \<or> (\<exists>p e. (p, e) \<in> set ps \<and> q' = Some p \<and> b' = sim e sub \<and> b < b'))"
proof (induction ps arbitrary: b q)
  case (Cons pe ps)
  obtain p e where pe: "pe = (p, e)" by (cases pe)
  show ?case
  proof (cases "sim e sub > b")
    case True
    then show ?thesis using Cons.IH [of "sim e sub" "Some p"] Cons.prems by (auto simp: pe)
  next
    case False
    then show ?thesis using Cons.IH [of b q] Cons.prems by (auto simp: pe)
  qed
qed simp

lemma set_group_by_entry:
  "k \<in> set relevant \<Longrightarrow> set (indexed (group_by_entry relevant active) k) = {(p, e). (p, e) \<in> set active \<and> source_entry_id p = Some k}"
proof -
  let ?f = "\<lambda>(p, e) d. case source_entry_id p of
      Some eid \<Rightarrow> if eid \<in> set relevant then setdefault_append eid (p, e) d else d | None \<Rightarrow> d"
  assume k: "k \<in> set relevant"
  have "set (indexed (fold ?f xs d) k) = set (indexed d k) \<union> {(p, e). (p, e) \<in> set xs \<and> source_entry_id p = Some k}" for xs d
    using k by (induction xs arbitrary: d) (auto split: option.splits if_splits)
  from this [of active "[]"] show ?thesis by (simp add: group_by_entry_def indexed_def)
qed

lemma candidate_sound:
  assumes "(s, sub_p, best, sup_e, sub_e) \<in> set (supersession_candidates sim active pairs threshold)"
  shows "(sup_e, sub_e) \<in> set pairs \<and> threshold \<le> s \<and>
     (\<exists>e_sub e_best. (sub_p, e_sub) \<in> set active \<and> source_entry_id sub_p = Some sub_e \<and> (best, e_best) \<in> set active
        \<and> source_entry_id best = Some sup_e \<and> s = sim e_best e_sub
        \<and> (\<forall>(q, e) \<in> set active. source_entry_id q = Some sup_e \<longrightarrow> sim e e_sub \<le> s))"
proof -
  let ?rel = "concat (map (\<lambda>(a, b). [a, b]) pairs)"
  let ?by = "group_by_entry ?rel active"
  obtain pr where pr: "pr \<in> set pairs" "(s, sub_p, best, sup_e, sub_e) \<in> set (pair_candidates sim threshold ?by pr)"
    using assms by (auto simp: supersession_candidates_def Let_def)
  then obtain e_sub b q where sub: "(sub_p, e_sub) \<in> set (indexed ?by (snd pr))" "pr = (sup_e, sub_e)"
      "best_match sim e_sub (indexed ?by (fst pr)) (0, None) = (b, q)" "q = Some best" "b = s" "threshold \<le> s"
    by (auto simp: pair_candidates_def Let_def not_less split: prod.splits option.splits if_splits)
  have rel: "sup_e \<in> set ?rel" "sub_e \<in> set ?rel" using pr(1) sub(2) by force+
  note best = best_match_spec [OF sub(3)]
  obtain e_best where "(best, e_best) \<in> set (indexed ?by sup_e)" "s = sim e_best e_sub"
    using best sub(2,4,5) by auto
  then show ?thesis
    using pr(1) sub best set_group_by_entry [OF rel(1), of active] set_group_by_entry [OF rel(2), of active]
    by (intro conjI exI [of _ e_sub] exI [of _ e_best]) auto
qed

lemma active_candidate_stored:
  assumes "store_reach rules st" "(p, e) \<in> set (get_active_particles_with_embeddings rules (table_of st) links c subj)"
  shows "get_particle st (p_id p) = Some p \<and> p_status p = ACTIVE"
proof -
  obtain k r where "(k, r) \<in> set (st_rows st)" "p = r_particle r" "p_status p = ACTIVE"
    using assms(2) by (auto simp: get_active_particles_with_embeddings_def table_of_def Let_def dest!: set_zip_rightD)
  moreover have "row_of st k = Some r"
    using calculation(1) store_reach_distinct [OF assms(1)] by (simp add: row_of_def)
  moreover have "p_id (r_particle r) = k"
    using rows_invD [OF _ calculation(4)] store_reach_inv [OF assms(1)] by blast
  ultimately show ?thesis by (simp add: get_particle_def)
qed

section \<open>What the document sweep writes\<close>

definition demotion_refs :: "demotion \<Rightarrow> (event_ref \<times> string) list" where
  "demotion_refs d = [(E_PARTICLE, dm_loser d), (E_PARTICLE, dm_winner d)]"

definition doc_inv :: "sweep_config \<Rightarrow> bool \<Rightarrow> store \<Rightarrow> doc_sweep \<Rightarrow> bool" where
  "doc_inv cfg dry st0 s =
     (ds_error s = None \<and> ds_probed s \<le> max_reconcile_probes cfg \<and> length (ds_demotions s) \<le> ds_probed s
      \<and> set (ds_demoted s) = dm_loser ` set (ds_demotions s) \<and> distinct (map dm_loser (ds_demotions s))
      \<and> get_particle (ds_store s) =
          retire_all DOCUMENT_SUPERSEDED (if dry then {} else set (ds_demoted s)) (get_particle st0)
      \<and> map ev_refs (st_events (ds_store s)) =
          map ev_refs (st_events st0) @ (if dry then [] else map demotion_refs (ds_demotions s)))"

definition confirms :: "sweep_lib \<Rightarrow> model_answers \<Rightarrow> particle \<Rightarrow> particle \<Rightarrow> bool" where
  "confirms lib ans best sub_p =
     (\<not> is_attribution_paraphrase lib (p_content best) (p_content sub_p)
      \<and> (\<exists>n. ask_contradiction ans n (p_content best) (p_content sub_p) = Some True))"

definition doc_record :: "doc_candidate \<Rightarrow> demotion" where
  "doc_record c = (case c of (sim, sub_p, best, sup_entry, sub_entry) \<Rightarrow>
     \<lparr>dm_loser = p_id sub_p, dm_winner = p_id best, dm_entries = Some (sub_entry, sup_entry), dm_similarity = sim\<rparr>)"

text \<open>The documented rule of the ladder: no document supersession without the replacement signal.\<close>

definition needs_signal :: "sweep_lib \<Rightarrow> bool" where
  "needs_signal lib = (\<forall>e n i. resolve_conflict lib e n i = DOCUMENT_SUPERSEDES \<longrightarrow> ri_signal i)"

definition doc_ready :: "store \<Rightarrow> doc_candidate \<Rightarrow> bool" where
  "doc_ready st c = (case c of (sim, sub_p, best, sup_entry, sub_entry) \<Rightarrow>
     get_particle st (p_id sub_p) = Some sub_p \<and> p_status sub_p = ACTIVE \<and> p_id sub_p \<noteq> p_id best)"

definition doc_found :: "sweep_lib \<Rightarrow> model_answers \<Rightarrow> doc_candidate list \<Rightarrow> demotion \<Rightarrow> bool" where
  "doc_found lib ans cands d =
     (\<exists>sim sub_p best sup_entry sub_entry. (sim, sub_p, best, sup_entry, sub_entry) \<in> set cands
        \<and> d = doc_record (sim, sub_p, best, sup_entry, sub_entry) \<and> confirms lib ans best sub_p)"

lemma signal_confirms: "fst (has_contradiction_signal lib ans n (p_content best) (p_content sub_p)) = Some True \<Longrightarrow> confirms lib ans best sub_p"
  by (auto simp: has_contradiction_signal_def confirms_def split: if_splits)

lemma doc_found_mono: "doc_found lib ans cs d \<Longrightarrow> doc_found lib ans (c # cs) d"
  unfolding doc_found_def by (elim exE, rule exI, rule exI, rule exI, rule exI, rule exI, elim conjE, intro conjI) auto

lemma retire_one:
  assumes "B i = Some p" "i \<notin> ls"
  shows "(retire_all reason ls B)(i \<mapsto> demoted p reason) = retire_all reason (insert i ls) B"
  using assms by (auto simp: retire_all_def fun_eq_iff)

text \<open>One confirmed pair: its loser is retired, and one event says by what.\<close>

lemma doc_demote:
  fixes env :: write_env
  assumes "permits (we_rules env)" "doc_inv cfg dry st0 s" "doc_ready st0 c" "ds_probed s < max_reconcile_probes cfg"
    and "dm_loser (doc_record c) \<notin> set (ds_demoted s)" "\<not> dry"
  shows "\<exists>st. update_particle_status (we_rules env) (we_now env) (dm_loser (doc_record c)) PROVENANCE_STALE (Some DOCUMENT_SUPERSEDED) None (ds_store s) = Inr st
     \<and> doc_inv cfg dry st0 (s\<lparr>ds_probed := Suc (ds_probed s), ds_asked := n, ds_demotions := ds_demotions s @ [doc_record c],
          ds_demoted := dm_loser (doc_record c) # ds_demoted s, ds_store := record_event (we_http env) (sweep_retirement lib c) st\<rparr>)"
proof -
  obtain sim sub_p best sup_entry sub_entry where c: "c = (sim, sub_p, best, sup_entry, sub_entry)" by (cases c)
  let ?i = "p_id sub_p"
  have loser: "dm_loser (doc_record c) = ?i" by (simp add: c doc_record_def)
  have start: "get_particle st0 ?i = Some sub_p" "p_status sub_p = ACTIVE" "?i \<noteq> p_id best"
    using assms(3) by (simp_all add: doc_ready_def c)
  have now: "get_particle (ds_store s) = retire_all DOCUMENT_SUPERSEDED (set (ds_demoted s)) (get_particle st0)"
    using assms(2,6) by (simp add: doc_inv_def)
  then have "get_particle (ds_store s) ?i = Some sub_p"
    using start(1) assms(5) by (simp add: retire_all_def loser)
  then obtain st where st: "apply_demote env (Some (?i, DOCUMENT_SUPERSEDED)) (ds_store s) = Inr st"
      "get_particle st = (get_particle (ds_store s))(?i \<mapsto> demoted sub_p DOCUMENT_SUPERSEDED)"
    using plan_writes.demote_ok [OF assms(1) _ start(2)] by blast
  have beliefs: "get_particle st = retire_all DOCUMENT_SUPERSEDED (insert ?i (set (ds_demoted s))) (get_particle st0)"
    unfolding st(2) now by (rule retire_one [where B = "get_particle st0", OF start(1)]) (use assms(5) loser in simp)
  have "fromkeys (ev_refs (sweep_retirement lib c)) = demotion_refs (doc_record c)"
    using start(3) by (auto simp: sweep_retirement_def c doc_record_def demotion_refs_def)
  then show ?thesis
    using st(1) assms(2,4,5,6) beliefs apply_steps_events(3) [OF st(1)]
    by (auto simp: apply_demote_def loser doc_inv_def record_event_eq)
qed

lemma doc_skip:
  "doc_inv cfg dry st0 s \<Longrightarrow> ds_probed s < max_reconcile_probes cfg \<Longrightarrow> doc_inv cfg dry st0 (s\<lparr>ds_probed := Suc (ds_probed s), ds_asked := n\<rparr>)"
  by (auto simp: doc_inv_def)

lemma doc_note:
  assumes "doc_inv cfg True st0 s" "ds_probed s < max_reconcile_probes cfg" "dm_loser (doc_record c) \<notin> set (ds_demoted s)"
  shows "doc_inv cfg True st0 (s\<lparr>ds_probed := Suc (ds_probed s), ds_asked := n, ds_demotions := ds_demotions s @ [doc_record c],
           ds_demoted := dm_loser (doc_record c) # ds_demoted s\<rparr>)"
  using assms by (auto simp: doc_inv_def)

lemma doc_loop_inv:
  assumes "permits (we_rules env)" "needs_signal lib" "\<forall>c \<in> set cands. doc_ready st0 c" "doc_inv cfg dry st0 s"
  shows "doc_inv cfg dry st0 (doc_sweep_loop lib ans cfg env dry cands s)
     \<and> (\<forall>d \<in> set (ds_demotions (doc_sweep_loop lib ans cfg env dry cands s)).
          d \<in> set (ds_demotions s) \<or> doc_found lib ans cands d)"
  using assms(3,4)
proof (induction cands arbitrary: s)
  case (Cons c cs)
  obtain sim sub_p best sup_entry sub_entry where c: "c = (sim, sub_p, best, sup_entry, sub_entry)" by (cases c)
  obtain probe n where probe: "has_contradiction_signal lib ans (ds_asked s) (p_content best) (p_content sub_p) = (probe, n)" by fastforce
  define v where "v = resolve_conflict lib sub_p best
      \<lparr>ri_signal = (probe = Some True), ri_new_supersedes = True, ri_existing_supersedes = False,
       ri_update_order = None, ri_single = store_single cfg, ri_same_slot = False\<rparr>"
  define s2 where "s2 = s\<lparr>ds_probed := Suc (ds_probed s), ds_asked := n, ds_demotions := ds_demotions s @ [doc_record c],
          ds_demoted := dm_loser (doc_record c) # ds_demoted s\<rparr>"
  have IH: "doc_inv cfg dry st0 (doc_sweep_loop lib ans cfg env dry cs t)
     \<and> (\<forall>d \<in> set (ds_demotions (doc_sweep_loop lib ans cfg env dry cs t)). d \<in> set (ds_demotions t) \<or> doc_found lib ans (c # cs) d)"
    if "doc_inv cfg dry st0 t" for t
    using Cons.IH [OF _ that] Cons.prems(1) doc_found_mono [of lib ans cs _ c] by auto
  have ready: "doc_ready st0 c" using Cons.prems(1) by simp
  have loser: "dm_loser (doc_record c) = p_id sub_p" by (simp add: c doc_record_def)
  consider (stop) "ds_probed s \<ge> max_reconcile_probes cfg"
    | (seen) "ds_probed s < max_reconcile_probes cfg" "p_id sub_p \<in> set (ds_demoted s)"
    | (declined) "ds_probed s < max_reconcile_probes cfg" "p_id sub_p \<notin> set (ds_demoted s)" "v \<noteq> DOCUMENT_SUPERSEDES"
    | (act) "ds_probed s < max_reconcile_probes cfg" "p_id sub_p \<notin> set (ds_demoted s)" "v = DOCUMENT_SUPERSEDES"
    by fastforce
  then show ?case
  proof cases
    case stop
    then show ?thesis using Cons.prems(2) by (simp add: c)
  next
    case seen
    then show ?thesis using IH [OF Cons.prems(2)] by (simp add: c)
  next
    case declined
    then show ?thesis
      using IH [OF doc_skip [OF Cons.prems(2) declined(1), of n]] by (simp add: c probe Let_def flip: v_def)
  next
    case act
    then have "probe = Some True" using assms(2) unfolding needs_signal_def v_def by fastforce
    then have "confirms lib ans best sub_p" using signal_confirms [of lib ans "ds_asked s" best sub_p] probe by simp
    then have found: "doc_found lib ans (c # cs) (doc_record c)" unfolding doc_found_def c by (intro exI conjI) auto
    show ?thesis
    proof (cases dry)
      case True
      have "doc_sweep_loop lib ans cfg env dry (c # cs) s = doc_sweep_loop lib ans cfg env dry cs s2"
        using act True by (simp add: c probe Let_def s2_def doc_record_def flip: v_def)
      then show ?thesis
        using IH [of s2] doc_note [of cfg st0 s c n] Cons.prems(2) act True loser found by (auto simp: s2_def)
    next
      case False
      obtain st where st: "update_particle_status (we_rules env) (we_now env) (p_id sub_p) PROVENANCE_STALE (Some DOCUMENT_SUPERSEDED) None (ds_store s) = Inr st"
          "doc_inv cfg dry st0 (s2\<lparr>ds_store := record_event (we_http env) (sweep_retirement lib c) st\<rparr>)"
        using doc_demote [OF assms(1) Cons.prems(2) ready act(1) _ False, where n = n and lib = lib] act(2) loser by (auto simp: s2_def)
      have "doc_sweep_loop lib ans cfg env dry (c # cs) s =
            doc_sweep_loop lib ans cfg env dry cs (s2\<lparr>ds_store := record_event (we_http env) (sweep_retirement lib c) st\<rparr>)"
        using act False st(1) by (simp add: c probe Let_def s2_def doc_record_def flip: v_def)
      then show ?thesis using IH [OF st(2)] found by (auto simp: s2_def)
    qed
  qed
qed simp

lemma sweep_pairs:
  assumes "visits_all ord" "distinct (ids docs)" "relation_rows docs = Some rows"
  obtains pairs where "iter_supersession_entry_pairs ord docs = Some pairs"
    "\<And>a b. (a, b) \<in> set pairs \<Longrightarrow> entry_supersedes ord docs a b = Some True \<and> a \<noteq> b"
proof -
  obtain pairs where pairs: "iter_supersession_entry_pairs ord docs = Some pairs"
    using pairs_rows [OF assms] by (cases "iter_supersession_entry_pairs ord docs") auto
  have "map_option set (iter_supersession_entry_pairs ord docs) = Some {(a, b). entry_supersedes ord docs a b = Some True}"
    unfolding pairs_rows [OF assms] entry_supersedes_rows [OF assms] by simp
  then have all: "set pairs = {(a, b). entry_supersedes ord docs a b = Some True}" unfolding pairs by simp
  have irrefl: "entry_supersedes ord docs a a \<noteq> Some True" for a
    unfolding entry_supersedes_rows [OF assms] by simp
  have related: "entry_supersedes ord docs a b = Some True \<and> a \<noteq> b" if "(a, b) \<in> set pairs" for a b
    using that irrefl unfolding all by blast
  show thesis by (rule that [OF pairs related])
qed

lemma gathered_ready:
  assumes "store_reach (we_rules env) st"
    and "\<And>a b. (a, b) \<in> set pairs \<Longrightarrow> a \<noteq> b"
    and "(s, sub_p, best, sup_e, sub_e) \<in> set (supersession_candidates sim (active_candidates env st) pairs threshold)"
  shows "doc_ready st (s, sub_p, best, sup_e, sub_e)"
    "get_particle st (p_id best) = Some best" "p_status best = ACTIVE"
proof -
  note sound = candidate_sound [OF assms(3)]
  have stored: "get_particle st (p_id p) = Some p \<and> p_status p = ACTIVE" if "(p, e) \<in> set (active_candidates env st)" for p e
    using active_candidate_stored [OF assms(1)] that unfolding active_candidates_def by blast
  then have both: "get_particle st (p_id sub_p) = Some sub_p" "p_status sub_p = ACTIVE"
      "get_particle st (p_id best) = Some best" "p_status best = ACTIVE"
    using sound by blast+
  have "source_entry_id sub_p \<noteq> source_entry_id best" using sound assms(2) by auto
  moreover have "sub_p = best" if "p_id sub_p = p_id best"
  proof -
    have "Some sub_p = Some best" using both(1,3) unfolding that by (rule trans [OF sym])
    then show ?thesis by simp
  qed
  ultimately have "p_id sub_p \<noteq> p_id best" by blast
  with both show "doc_ready st (s, sub_p, best, sup_e, sub_e)" "get_particle st (p_id best) = Some best" "p_status best = ACTIVE"
    by (simp_all add: doc_ready_def)
qed

lemma gathered_all:
  assumes "store_reach (we_rules env) st"
    and "\<And>a b. (a, b) \<in> set pairs \<Longrightarrow> a \<noteq> b"
  shows "\<forall>c \<in> set (supersession_candidates sim (active_candidates env st) pairs threshold). doc_ready st c"
proof
  fix c
  assume c: "c \<in> set (supersession_candidates sim (active_candidates env st) pairs threshold)"
  obtain s sub_p best sup_e sub_e where parts: "c = (s, sub_p, best, sup_e, sub_e)" by (cases c) auto
  show "doc_ready st c" unfolding parts by (rule gathered_ready(1) [OF assms(1) _ c [unfolded parts]]) (rule assms(2))
qed

section \<open>A sweep over three decisions\<close>

definition demo_cosine :: "rat list claim_lib" where
  "demo_cosine =
     \<lparr>is_truth_apt = (\<lambda>_. True), stance_holder = (\<lambda>_. None), is_excluded_document_meta = (\<lambda>_. False),
      is_non_asserted = (\<lambda>_. False), is_generic_claim = (\<lambda>_. False), is_reanchor_restatement = (\<lambda>_. False),
      cosine_similarity = (\<lambda>a b. sum_list (map2 (*) a b))\<rparr>"

definition demo_sweep :: sweep_lib where
  "demo_sweep =
     \<lparr>resolve_conflict = (\<lambda>_ _ i. if ri_signal i then DOCUMENT_SUPERSEDES else NO_CONFLICT),
      sweep_action = (\<lambda>_. KEEP), sweep_action_first = (\<lambda>_. None), is_generic_instance_pair = (\<lambda>_ _. False),
      remembered_clear = (\<lambda>_ _. False), verdict_key = (\<lambda>_ a b. (a, b)), prompt_hash = (\<lambda>_. ''h''),
      is_attribution_paraphrase = (=), rounded = (\<lambda>_. JNull), infer_domain = (\<lambda>_. None)\<rparr>"

definition demo_answers :: model_answers where
  "demo_answers = \<lparr>ask_contradiction = (\<lambda>_ _ _. Some True), ask_slot = (\<lambda>_ _ _. None)\<rparr>"

definition demo_config :: sweep_config where
  "demo_config = \<lparr>document_enabled = True, update_enabled = True, store_single = True, similarity_threshold = 1 / 2,
     subject_floor = 1 / 2, max_reconcile_probes = 5, max_update_probes = 5, same_slot_admits = True\<rparr>"

definition demo_said :: "string \<Rightarrow> string \<Rightarrow> particle" where
  "demo_said i e = (demo_particle i i)\<lparr>p_provenance := [demo_ref e ''s'']\<rparr>"

text \<open>The oldest decision says \<open>a\<close>, the newest says \<open>b\<close>.\<close>

definition demo_first :: store where
  "demo_first = projr (insert_particle demo_rules (demo_said ''a'' ''o'') (Some [1]) None empty_store)"

definition demo_both :: store where
  "demo_both = projr (insert_particle demo_rules (demo_said ''b'' ''n'') (Some [1]) None demo_first)"

lemma demo_needs_signal: "needs_signal demo_sweep"
  by (simp add: needs_signal_def demo_sweep_def)

lemmas demo_said_simps = demo_said_def demo_first_def demo_both_def demo_store_simps

lemma demo_both_reach: "store_reach (we_rules demo_env) demo_both"
proof -
  have "run_command demo_rules (Insert (demo_said ''a'' ''o'') (Some [1]) None) empty_store = Inr demo_first"
    by (simp add: demo_said_simps Let_def)
  then have "store_reach demo_rules demo_first" by (rule store_reach.wrote [OF store_reach.fresh])
  moreover have "run_command demo_rules (Insert (demo_said ''b'' ''n'') (Some [1]) None) demo_first = Inr demo_both"
    by (simp add: demo_said_simps Let_def)
  ultimately have "store_reach demo_rules demo_both" by (rule store_reach.wrote)
  then show ?thesis by (simp add: demo_env_def)
qed

lemma demo_swept:
  "fst (reconcile_supersession demo_cosine demo_sweep demo_answers demo_config demo_env rev (demo_docs @ [demo_foreign]) True False demo_both)
     = Inr \<lparr>sm_scope_pairs = 3, sm_candidates = 1, sm_probed = 1,
            sm_demotions = [\<lparr>dm_loser = ''a'', dm_winner = ''b'', dm_entries = Some (''o'', ''n''), dm_similarity = 1\<rparr>]\<rparr>"
  by code_simp

section \<open>The properties\<close>

text \<open>
  C7. The document sweep does what it says and no more. On any reachable store and any readable corpus it
  completes, asks at most the configured number of probes and retires at most one claim per probe. Every
  claim it retires was believed and comes from a document that the winner's document supersedes, directly
  or through others; the winner was believed, is at least as similar as the threshold, and a model
  confirmed that it replaces the claim. Nothing else changes: every other belief is as it was, and the
  events appended are one per retirement, naming loser and winner; a dry run changes nothing at all.
\<close>

theorem document_sweep_sound:
  assumes "permits (we_rules env)" "store_reach (we_rules env) st" "needs_signal lib"
    and "visits_all ord" "distinct (ids docs)" "relation_rows docs = Some rows"
  shows "\<exists>sm st'. reconcile_supersession clib lib ans cfg env ord docs True dry st = (Inr sm, st')
     \<and> sm_probed sm \<le> max_reconcile_probes cfg \<and> length (sm_demotions sm) \<le> sm_probed sm
     \<and> get_particle st' = retire_all DOCUMENT_SUPERSEDED (if dry then {} else dm_loser ` set (sm_demotions sm)) (get_particle st)
     \<and> map ev_refs (st_events st') = map ev_refs (st_events st) @ (if dry then [] else map demotion_refs (sm_demotions sm))
     \<and> (\<forall>d \<in> set (sm_demotions sm). \<exists>loser winner sub_e sup_e.
          get_particle st (dm_loser d) = Some loser \<and> p_status loser = ACTIVE \<and> source_entry_id loser = Some sub_e
        \<and> get_particle st (dm_winner d) = Some winner \<and> p_status winner = ACTIVE \<and> source_entry_id winner = Some sup_e
        \<and> entry_supersedes ord docs sup_e sub_e = Some True
        \<and> similarity_threshold cfg \<le> dm_similarity d \<and> confirms lib ans winner loser)"
proof -
  obtain pairs where pairs: "iter_supersession_entry_pairs ord docs = Some pairs"
      "\<And>a b. (a, b) \<in> set pairs \<Longrightarrow> entry_supersedes ord docs a b = Some True \<and> a \<noteq> b"
    using sweep_pairs [OF assms(4-6)] by metis
  let ?raw = "supersession_candidates (cosine_similarity clib) (active_candidates env st) pairs (similarity_threshold cfg)"
  let ?cands = "sort_key (\<lambda>c. - fst c) ?raw"
  let ?init = "\<lparr>ds_store = st, ds_probed = 0, ds_asked = 0, ds_demoted = [], ds_demotions = [], ds_error = None\<rparr>"
  define s where "s = doc_sweep_loop lib ans cfg env dry ?cands ?init"
  have init: "doc_inv cfg dry st ?init" by (simp add: doc_inv_def)
  have ready: "\<forall>c \<in> set ?cands. doc_ready st c"
    unfolding set_sort by (rule gathered_all [OF assms(2)]) (use pairs(2) in simp)
  note loop = doc_loop_inv [OF assms(1,3) ready init, where ans = ans, folded s_def]
  have found: "\<exists>loser winner sub_e sup_e.
          get_particle st (dm_loser d) = Some loser \<and> p_status loser = ACTIVE \<and> source_entry_id loser = Some sub_e
        \<and> get_particle st (dm_winner d) = Some winner \<and> p_status winner = ACTIVE \<and> source_entry_id winner = Some sup_e
        \<and> entry_supersedes ord docs sup_e sub_e = Some True
        \<and> similarity_threshold cfg \<le> dm_similarity d \<and> confirms lib ans winner loser" if "d \<in> set (ds_demotions s)" for d
  proof -
    have "doc_found lib ans ?cands d" using loop that by auto
    then obtain sim sub_p best sup_e sub_e where c: "(sim, sub_p, best, sup_e, sub_e) \<in> set ?raw"
        "d = doc_record (sim, sub_p, best, sup_e, sub_e)" "confirms lib ans best sub_p"
      unfolding doc_found_def by auto
    note sound = candidate_sound [OF c(1)] and there = gathered_ready [OF assms(2) _ c(1)]
    have "doc_ready st (sim, sub_p, best, sup_e, sub_e)" "get_particle st (p_id best) = Some best" "p_status best = ACTIVE"
      using there pairs(2) by blast+
    then show ?thesis
      using sound c(2,3) pairs(2) by (intro exI [of _ sub_p] exI [of _ best]) (auto simp: doc_record_def doc_ready_def)
  qed
  show ?thesis
  proof (cases "document_enabled cfg \<and> store_single cfg \<and> pairs \<noteq> []")
    case True
    have inv: "doc_inv cfg dry st s" using loop by blast
    then have "reconcile_supersession clib lib ans cfg env ord docs True dry st =
        (Inr \<lparr>sm_scope_pairs = length pairs, sm_candidates = length ?cands, sm_probed = ds_probed s, sm_demotions = ds_demotions s\<rparr>, ds_store s)"
      using True pairs(1) by (simp add: reconcile_supersession_def doc_inv_def s_def Let_def)
    then show ?thesis using inv found by (auto simp: doc_inv_def)
  next
    case False
    then show ?thesis using pairs(1) by (auto simp: reconcile_supersession_def)
  qed
qed

theorem document_sweep_sound_witness:
  "\<exists>sm st' loser winner. reconcile_supersession demo_cosine demo_sweep demo_answers demo_config demo_env rev (demo_docs @ [demo_foreign])
       True False demo_both = (Inr sm, st')
     \<and> get_particle st' = retire_all DOCUMENT_SUPERSEDED {''a''} (get_particle demo_both)
     \<and> get_particle demo_both ''a'' = Some loser \<and> get_particle demo_both ''b'' = Some winner
     \<and> p_status loser = ACTIVE \<and> p_status winner = ACTIVE"
proof -
  note sweep = document_sweep_sound [OF demo_permits demo_both_reach demo_needs_signal demo_order(1) demo_distinct
      demo_relation_rows, of demo_cosine demo_answers demo_config False]
  then obtain sm st' where run: "reconcile_supersession demo_cosine demo_sweep demo_answers demo_config demo_env rev
        (demo_docs @ [demo_foreign]) True False demo_both = (Inr sm, st')"
      and beliefs: "get_particle st' = retire_all DOCUMENT_SUPERSEDED (dm_loser ` set (sm_demotions sm)) (get_particle demo_both)"
      and each: "\<And>d. d \<in> set (sm_demotions sm) \<Longrightarrow> \<exists>loser winner sub_e sup_e.
          get_particle demo_both (dm_loser d) = Some loser \<and> p_status loser = ACTIVE \<and> source_entry_id loser = Some sub_e
        \<and> get_particle demo_both (dm_winner d) = Some winner \<and> p_status winner = ACTIVE \<and> source_entry_id winner = Some sup_e"
    by (simp only: if_False) blast
  have "sm_demotions sm = [\<lparr>dm_loser = ''a'', dm_winner = ''b'', dm_entries = Some (''o'', ''n''), dm_similarity = 1\<rparr>]"
    using demo_swept unfolding run by simp
  then show ?thesis using run beliefs each by auto
qed

text \<open>
  Two documents that each declare the other superseded: the document sweep skips a pair whose loser is
  retired already but not one whose winner is, so it retires both claims and none is left believed. The
  update sweep skips both.
\<close>

definition demo_cycle :: "corpus_row list" where
  "demo_cycle =
     [demo_row ''n'' ''me'' ''file:///r/a/n.md'' ''adr:2'' [''adr:1''],
      demo_row ''o'' ''me'' ''file:///r/s/o.md'' ''adr:1'' [''adr:2'']]"

lemma cyclic_declarations_retire_both:
  "map_option (map (\<lambda>d. (dm_loser d, dm_winner d)) \<circ> sm_demotions)
     (case fst (reconcile_supersession demo_cosine demo_sweep demo_answers demo_config demo_env rev demo_cycle True False demo_both) of
        Inl _ \<Rightarrow> None | Inr sm \<Rightarrow> Some sm)
   = Some [(''a'', ''b''), (''b'', ''a'')]"
  by code_simp

end
