(* ===== verification/Update_Sweep.thy ===== *)
theory Update_Sweep
  imports Reconcile_Sweep
begin

text \<open>
  The update sweep: \<^verbatim>\<open>reconcile_updates\<close> of \<^verbatim>\<open>src/particles/operations/reconcile.py\<close>, with the probe ledger it
  reads and writes. It pairs the believed claims of one subject that the update order ranks, drops the
  pairs the ledger cleared, asks the slot and contradiction questions best first under a cap, retires the
  older value of a changing slot, and opens a review of a fixed slot given two values.

  Parameters besides those of \<open>Reconcile_Sweep\<close>: the observer gate's verdict on a pair, \<^verbatim>\<open>infer_domain\<close>, and
  the builder of a review record.
\<close>

section \<open>The probe ledger\<close>

text \<open>Rows of \<^verbatim>\<open>probe_verdicts\<close> in id order: kind, prompt hash, key, verdict.\<close>

type_synonym ledger = "(probe_kind \<times> string \<times> (string \<times> string) \<times> bool) list"

definition lookup_verdict :: "ledger \<Rightarrow> probe_kind \<Rightarrow> string \<Rightarrow> string \<times> string \<Rightarrow> bool option" where
  "lookup_verdict led kind prompt key =
     map_option (\<lambda>(_, _, _, v). v) (List.find (\<lambda>(k, p, y, _). k = kind \<and> p = prompt \<and> y = key) (rev led))"

definition record_verdict :: "ledger \<Rightarrow> probe_kind \<Rightarrow> string \<Rightarrow> string \<times> string \<Rightarrow> bool \<Rightarrow> ledger" where
  "record_verdict led kind prompt key v =
     (if lookup_verdict led kind prompt key = Some v then led else led @ [(kind, prompt, key, v)])"

section \<open>The update sweep: the qualifying pairs\<close>

definition source_ref_pair :: "particle \<Rightarrow> (string \<times> string option) option" where
  "source_ref_pair p = map_option (\<lambda>r. (ref_entry r, ref_snapshot r)) (source_ref p)"

text \<open>The outer \<^const>\<open>None\<close> is \<^verbatim>\<open>update_order\<close> raising on a malformed URI.\<close>

definition pair_update_order ::
  "'emb claim_lib \<Rightarrow> (string \<Rightarrow> corpus_entry option) \<Rightarrow> bool \<Rightarrow> particle \<Rightarrow> particle \<Rightarrow> entry_cache
     \<Rightarrow> int option option \<times> entry_cache" where
  "pair_update_order clib get_entry require_attribution a b cache =
     (case (source_ref_pair a, source_ref_pair b) of
        (Some (a_id, a_snap), Some (b_id, b_snap)) \<Rightarrow>
          let (a_entry, c1) = cached_entry get_entry a_id cache;
              (b_entry, c2) = cached_entry get_entry b_id c1;
              (a_date, c3) = latest_source_date get_entry a c2;
              (b_date, c4) = latest_source_date get_entry b c3
          in (update_order clib a a_entry a_snap b b_entry b_snap require_attribution a_date b_date, c4)
      | _ \<Rightarrow> (Some None, cache))"

record gather_state =
  g_seen :: "(string \<times> string) list"
  g_cache :: entry_cache
  g_candidates :: "(rat \<times> particle \<times> particle) list"
  g_declined :: nat

fun pairs_after :: "'a list \<Rightarrow> ('a \<times> 'a) list" where
  "pairs_after [] = []"
| "pairs_after (x # xs) = map (Pair x) xs @ pairs_after xs"

record gate =
  engaged :: bool
  gate_verdict :: "particle \<Rightarrow> particle \<Rightarrow> precondition" \<comment> \<open>the would-be winner's scope against the older claim\<close>

definition gather_pair ::
  "'emb claim_lib \<Rightarrow> sweep_lib \<Rightarrow> gate \<Rightarrow> (string \<Rightarrow> corpus_entry option) \<Rightarrow> string list option \<Rightarrow> rat \<Rightarrow> bool
     \<Rightarrow> (particle \<times> 'emb) \<times> particle \<times> 'emb \<Rightarrow> gather_state \<Rightarrow> gather_state option" where
  "gather_pair clib lib obs get_entry scope floor_sim require_attribution ab g =
     (case ab of ((a, a_emb), (b, b_emb)) \<Rightarrow>
        let key = (if p_id a < p_id b then (p_id a, p_id b) else (p_id b, p_id a));
            g1 = g\<lparr>g_seen := key # g_seen g\<rparr>;
            sim = cosine_similarity clib a_emb b_emb
        in if key \<in> set (g_seen g) then Some g
           else if (case scope of None \<Rightarrow> False | Some is \<Rightarrow> p_id a \<notin> set is \<and> p_id b \<notin> set is) then Some g1
           else if sim < floor_sim then Some g1
           else if is_generic_instance_pair lib a b then Some g1
           else
             (case pair_update_order clib get_entry require_attribution a b (g_cache g1) of
                (None, _) \<Rightarrow> None
              | (Some None, c) \<Rightarrow> Some (g1\<lparr>g_cache := c\<rparr>)
              | (Some (Some k), c) \<Rightarrow>
                  let (newer, older) = (if k > 0 then (a, b) else (b, a)); g2 = g1\<lparr>g_cache := c\<rparr>
                  in if engaged obs \<and> gate_verdict obs newer older \<noteq> RECONCILE
                     then Some (g2\<lparr>g_declined := Suc (g_declined g2)\<rparr>)
                     else Some (g2\<lparr>g_candidates := g_candidates g2 @ [(sim, newer, older)]\<rparr>)))"

fun fold_option :: "('a \<Rightarrow> 's \<Rightarrow> 's option) \<Rightarrow> 'a list \<Rightarrow> 's \<Rightarrow> 's option" where
  "fold_option f [] s = Some s"
| "fold_option f (x # xs) s = (case f x s of None \<Rightarrow> None | Some s' \<Rightarrow> fold_option f xs s')"

definition update_candidates ::
  "rat list claim_lib \<Rightarrow> sweep_lib \<Rightarrow> gate \<Rightarrow> (string \<Rightarrow> corpus_entry option) \<Rightarrow> speaker_key option \<Rightarrow> write_env \<Rightarrow> string list option
     \<Rightarrow> rat \<Rightarrow> bool \<Rightarrow> store \<Rightarrow> (nat \<times> gather_state) option" where
  "update_candidates clib lib obs get_entry speaker env scope floor_sim require_attribution st =
     (let index = build_index clib (map (\<lambda>(p, e). (p, Some e)) (active_candidates env st)) speaker []
      in map_option (Pair (length (by_subject index)))
           (fold_option (gather_pair clib lib obs get_entry scope floor_sim require_attribution)
              (concat (map (\<lambda>(_, members). pairs_after members) (by_subject index)))
              \<lparr>g_seen = [], g_cache = [], g_candidates = [], g_declined = 0\<rparr>))"

definition asked_first :: "sweep_config \<Rightarrow> slot_lib \<Rightarrow> particle \<Rightarrow> bool" where
  "asked_first cfg slib older = (same_slot_admits cfg \<and> admits_update_first slib (p_content older))"

definition contradiction_key :: "sweep_lib \<Rightarrow> particle \<Rightarrow> particle \<Rightarrow> string \<times> string" where
  "contradiction_key lib newer older = verdict_key lib RECONCILE_CONTRADICTION (p_content newer) (p_content older)"

definition slot_key :: "sweep_lib \<Rightarrow> particle \<Rightarrow> particle \<Rightarrow> string \<times> string" where
  "slot_key lib older newer = verdict_key lib UPDATE_SLOT (p_content older) (p_content newer)"

definition cleared :: "sweep_lib \<Rightarrow> slot_lib \<Rightarrow> sweep_config \<Rightarrow> ledger \<Rightarrow> rat \<times> particle \<times> particle \<Rightarrow> bool" where
  "cleared lib slib cfg led c =
     (case c of (_, newer, older) \<Rightarrow>
        remembered_clear lib
          (if asked_first cfg slib older then None
           else lookup_verdict led RECONCILE_CONTRADICTION (prompt_hash lib RECONCILE_CONTRADICTION) (contradiction_key lib newer older))
          (lookup_verdict led UPDATE_SLOT (prompt_hash lib UPDATE_SLOT) (slot_key lib older newer)))"

definition drop_cleared_updates ::
  "sweep_lib \<Rightarrow> slot_lib \<Rightarrow> sweep_config \<Rightarrow> ledger \<Rightarrow> (rat \<times> particle \<times> particle) list \<Rightarrow> (rat \<times> particle \<times> particle) list \<times> nat" where
  "drop_cleared_updates lib slib cfg led cands =
     (let kept = filter (\<lambda>c. \<not> cleared lib slib cfg led c) cands in (kept, length cands - length kept))"

section \<open>The update sweep: probes and writes\<close>

record upd_sweep =
  us_store :: store
  us_ledger :: ledger
  us_asked :: nat
  us_probed :: nat
  us_update_probed :: nat
  us_different :: nat
  us_reviews :: "(string \<times> string) list"
  us_open :: "(string \<times> string) list option"
  us_demoted :: "string list"
  us_demotions :: "demotion list"
  us_not_reached :: "nat option" \<comment> \<open>set when the cap stopped the sweep\<close>
  us_error :: "store_error option"

text \<open>\<open>recording\<close> is false inside \<^verbatim>\<open>recording_suspended\<close>, where the ledger is only read.\<close>

definition remember :: "bool \<Rightarrow> probe_kind \<Rightarrow> string \<Rightarrow> string \<times> string \<Rightarrow> bool \<Rightarrow> upd_sweep \<Rightarrow> upd_sweep" where
  "remember recording kind prompt key v s =
     (if recording then s\<lparr>us_ledger := record_verdict (us_ledger s) kind prompt key v\<rparr> else s)"

definition sweep_contradiction ::
  "sweep_lib \<Rightarrow> model_answers \<Rightarrow> bool \<Rightarrow> particle \<Rightarrow> particle \<Rightarrow> upd_sweep \<Rightarrow> bool option \<times> upd_sweep" where
  "sweep_contradiction lib ans recording newer older s =
     (let (probe, n) = has_contradiction_signal lib ans (us_asked s) (p_content newer) (p_content older);
          s1 = s\<lparr>us_asked := n\<rparr>
      in (probe,
          case probe of
            Some v \<Rightarrow> if is_attribution_paraphrase lib (p_content newer) (p_content older) then s1
                      else remember recording RECONCILE_CONTRADICTION (prompt_hash lib RECONCILE_CONTRADICTION)
                             (contradiction_key lib newer older) v s1
          | None \<Rightarrow> s1))"

definition sweep_slot ::
  "sweep_lib \<Rightarrow> slot_lib \<Rightarrow> model_answers \<Rightarrow> bool \<Rightarrow> particle \<Rightarrow> particle \<Rightarrow> upd_sweep \<Rightarrow> slot option \<times> upd_sweep" where
  "sweep_slot lib slib ans recording older newer s =
     (let sl = ask_slot ans (us_asked s) (p_content older) (p_content newer); s1 = s\<lparr>us_asked := Suc (us_asked s)\<rparr>
      in (sl,
          case sl of
            Some v \<Rightarrow> remember recording UPDATE_SLOT (prompt_hash lib UPDATE_SLOT) (slot_key lib older newer)
                        (admits_update slib (Some v)) s1
          | None \<Rightarrow> s1))"

text \<open>The action for one pair; \<^const>\<open>None\<close> is a pair the contradiction probe did not confirm, which counts as nothing.\<close>

definition pair_action ::
  "sweep_lib \<Rightarrow> slot_lib \<Rightarrow> model_answers \<Rightarrow> bool \<Rightarrow> bool \<Rightarrow> particle \<Rightarrow> particle \<Rightarrow> upd_sweep \<Rightarrow> sweep_act option \<times> upd_sweep" where
  "pair_action lib slib ans recording first newer older s =
     (if first
      then
        let (sl, s1) = sweep_slot lib slib ans recording older newer (s\<lparr>us_update_probed := Suc (us_update_probed s)\<rparr>)
        in (case sweep_action_first lib sl of
              Some act \<Rightarrow> (Some act, s1)
            | None \<Rightarrow>
                let (probe, s2) = sweep_contradiction lib ans recording newer older s1
                in (Some (if probe = Some True then sweep_action lib sl else KEEP), s2))
      else
        let (probe, s1) = sweep_contradiction lib ans recording newer older s
        in if probe \<noteq> Some True then (None, s1)
           else let (sl, s2) = sweep_slot lib slib ans recording older newer (s1\<lparr>us_update_probed := Suc (us_update_probed s1)\<rparr>)
                in (Some (sweep_action lib sl), s2))"

definition UPDATE_SWEEP_ACTOR :: string where
  "UPDATE_SWEEP_ACTOR = ''update-sweep''"

definition FIXED_SLOT_ORIGIN :: string where
  "FIXED_SLOT_ORIGIN = ''update_sweep_fixed_slot''"

definition ORIGIN_KEY :: string where
  "ORIGIN_KEY = ''conflict:origin''"

definition open_record_pairs :: "store \<Rightarrow> (string \<times> string) list" where
  "open_record_pairs st =
     concat (map (\<lambda>p. filter (\<lambda>(x, y). x \<noteq> y)
               (pairs_after (map ref_entry (filter (\<lambda>r. ref_kind r = PARTICLE) (p_provenance p)))))
             (rows_where (\<lambda>r. p_status (r_particle r) = INCONSISTENCY) st))"

definition open_fixed_slot_review ::
  "sweep_lib \<Rightarrow> record_builder \<Rightarrow> (string \<Rightarrow> corpus_entry option) \<Rightarrow> string option \<Rightarrow> write_env \<Rightarrow> particle \<Rightarrow> particle \<Rightarrow> store
     \<Rightarrow> store_error + store" where
  "open_fixed_slot_review lib build get_entry stamp env older newer st =
     (let (entry_id, snapshot_id, ref_type) = trigger_ref_for newer;
          entry = (if ref_type = SOURCE then get_entry entry_id else None);
          rec = build older newer entry_id snapshot_id UPDATE_SWEEP_ACTOR ref_type False stamp;
          marked = rec\<lparr>p_properties := Some (AList.update ORIGIN_KEY (JStr FIXED_SLOT_ORIGIN)
                     (case p_properties rec of None \<Rightarrow> [] | Some d \<Rightarrow> d))\<rparr>
      in andthen (born env INCONSISTENCY st)
           (insert_particle (we_rules env) marked None
              (case entry of None \<Rightarrow> None | Some e \<Rightarrow> infer_domain lib (e_source_type e))))"

definition review_pair ::
  "sweep_lib \<Rightarrow> record_builder \<Rightarrow> (string \<Rightarrow> corpus_entry option) \<Rightarrow> string option \<Rightarrow> write_env \<Rightarrow> bool \<Rightarrow> particle \<Rightarrow> particle
     \<Rightarrow> upd_sweep \<Rightarrow> upd_sweep" where
  "review_pair lib build get_entry stamp env dry older newer s =
     (let opened = (case us_open s of None \<Rightarrow> open_record_pairs (us_store s) | Some ps \<Rightarrow> ps);
          known = (p_id older, p_id newer) \<in> set opened \<or> (p_id newer, p_id older) \<in> set opened;
          s1 = s\<lparr>us_open := Some ((p_id older, p_id newer) # opened), us_reviews := us_reviews s @ [(p_id older, p_id newer)]\<rparr>
      in if known \<or> dry then s1
         else (case open_fixed_slot_review lib build get_entry stamp env older newer (us_store s) of
                 Inl err \<Rightarrow> s\<lparr>us_open := Some opened, us_error := Some err\<rparr>
               | Inr st \<Rightarrow> s1\<lparr>us_store := st\<rparr>))"

definition demote_pair ::
  "string option \<Rightarrow> write_env \<Rightarrow> bool \<Rightarrow> rat \<Rightarrow> particle \<Rightarrow> particle \<Rightarrow> upd_sweep \<Rightarrow> upd_sweep" where
  "demote_pair decided_by env dry sim newer older s =
     (let s1 = s\<lparr>us_demotions := us_demotions s @ [\<lparr>dm_loser = p_id older, dm_winner = p_id newer, dm_entries = None,
                    dm_similarity = sim\<rparr>],
                 us_demoted := p_id older # us_demoted s\<rparr>
      in if dry then s1
         else (case update_particle_status (we_rules env) (we_now env) (p_id older) PROVENANCE_STALE
                      (Some SUPERSEDED_BY_UPDATE) None (us_store s1) of
                 Inl err \<Rightarrow> s1\<lparr>us_error := Some err\<rparr>
               | Inr st \<Rightarrow> s1\<lparr>us_store := record_event (we_http env) (plan_update_event (p_id older) (p_id newer) ''sweep'' decided_by)
                             (snd (set_supersedes_if_unset (p_id newer) (p_id older) st))\<rparr>))"

record sweep_tools =
  st_build :: record_builder
  st_get_entry :: "string \<Rightarrow> corpus_entry option"
  st_stamp :: "string option"
  st_decided_by :: "string option"
  st_recording :: bool

fun upd_sweep_loop ::
  "sweep_lib \<Rightarrow> slot_lib \<Rightarrow> model_answers \<Rightarrow> sweep_tools \<Rightarrow> sweep_config \<Rightarrow> write_env \<Rightarrow> bool
     \<Rightarrow> (rat \<times> particle \<times> particle) list \<Rightarrow> upd_sweep \<Rightarrow> upd_sweep" where
  "upd_sweep_loop lib slib ans tools cfg env dry [] s = s"
| "upd_sweep_loop lib slib ans tools cfg env dry ((sim, newer, older) # cs) s =
     (if us_error s \<noteq> None then s
      else if us_probed s \<ge> max_update_probes cfg then s\<lparr>us_not_reached := Some (Suc (length cs))\<rparr>
      else if p_id newer \<in> set (us_demoted s) \<or> p_id older \<in> set (us_demoted s)
      then upd_sweep_loop lib slib ans tools cfg env dry cs s
      else
        let first = asked_first cfg slib older;
            (act, s1) = pair_action lib slib ans (st_recording tools) first newer older (s\<lparr>us_probed := Suc (us_probed s)\<rparr>)
        in upd_sweep_loop lib slib ans tools cfg env dry cs
             (case act of
                None \<Rightarrow> s1
              | Some KEEP \<Rightarrow> s1\<lparr>us_different := Suc (us_different s1)\<rparr>
              | Some REVIEW \<Rightarrow> review_pair lib (st_build tools) (st_get_entry tools) (st_stamp tools) env dry older newer s1
              | Some DEMOTE \<Rightarrow>
                  if resolve_conflict lib older newer
                       \<lparr>ri_signal = (\<not> first), ri_new_supersedes = False, ri_existing_supersedes = False,
                        ri_update_order = Some 1, ri_single = store_single cfg, ri_same_slot = first\<rparr> \<noteq> UPDATE_SUPERSEDES
                  then s1
                  else demote_pair (st_decided_by tools) env dry sim newer older s1))"

definition reconcile_updates ::
  "rat list claim_lib \<Rightarrow> sweep_lib \<Rightarrow> slot_lib \<Rightarrow> model_answers \<Rightarrow> sweep_tools \<Rightarrow> gate \<Rightarrow> speaker_key option \<Rightarrow> sweep_config
     \<Rightarrow> write_env \<Rightarrow> bool \<Rightarrow> bool \<Rightarrow> string list option \<Rightarrow> store \<times> ledger
     \<Rightarrow> (sweep_error + upd_sweep option) \<times> store \<times> ledger" where
  "reconcile_updates clib lib slib ans tools obs speaker cfg env schema_current dry scope sl =
     (if \<not> schema_current then (Inl SCHEMA_STALE, sl)
      else if \<not> update_enabled cfg then (Inr None, sl)
      else
        (case update_candidates clib lib obs (st_get_entry tools) speaker env scope (subject_floor cfg)
                (\<not> store_single cfg) (fst sl) of
           None \<Rightarrow> (Inl BAD_URI, sl)
         | Some (groups, g) \<Rightarrow>
             let cands = sort_key (\<lambda>c. - fst c) (fst (drop_cleared_updates lib slib cfg (snd sl) (g_candidates g)));
                 s = upd_sweep_loop lib slib ans tools cfg env dry cands
                       \<lparr>us_store = fst sl, us_ledger = snd sl, us_asked = 0, us_probed = 0, us_update_probed = 0,
                        us_different = 0, us_reviews = [], us_open = None, us_demoted = [], us_demotions = [],
                        us_not_reached = None, us_error = None\<rparr>
             in (case us_error s of Some err \<Rightarrow> Inl (STORE err) | None \<Rightarrow> Inr (Some s), us_store s, us_ledger s)))"

definition count_update_candidates ::
  "rat list claim_lib \<Rightarrow> sweep_lib \<Rightarrow> sweep_tools \<Rightarrow> gate \<Rightarrow> speaker_key option \<Rightarrow> sweep_config \<Rightarrow> write_env \<Rightarrow> string list option
     \<Rightarrow> store \<Rightarrow> sweep_error + nat" where
  "count_update_candidates clib lib tools obs speaker cfg env scope st =
     (if \<not> update_enabled cfg then Inr 0
      else (case update_candidates clib lib obs (st_get_entry tools) speaker env scope (subject_floor cfg) (\<not> store_single cfg) st of
              None \<Rightarrow> Inl BAD_URI
            | Some (_, g) \<Rightarrow> Inr (length (g_candidates g))))"

section \<open>The cached update order\<close>

definition cache_ok :: "(string \<Rightarrow> corpus_entry option) \<Rightarrow> entry_cache \<Rightarrow> bool" where
  "cache_ok get_entry cache = (\<forall>k e. map_of cache k = Some e \<longrightarrow> e = get_entry k)"

lemma cached_entry_ok:
  "cache_ok ge c \<Longrightarrow> \<exists>c'. cached_entry ge i c = (ge i, c') \<and> cache_ok ge c'"
  by (auto simp: cached_entry_def cache_ok_def update_conv split: option.splits)

lemma source_dates_ok:
  "cache_ok ge c \<Longrightarrow> \<exists>c'. source_dates ge rs c =
     (concat (map (\<lambda>r. ref_date r (ge (ref_entry r))) (filter (\<lambda>r. ref_kind r = SOURCE) rs)), c') \<and> cache_ok ge c'"
proof (induction rs arbitrary: c)
  case (Cons r rs)
  show ?case
  proof (cases "ref_kind r = SOURCE")
    case True
    obtain c1 where c1: "cached_entry ge (ref_entry r) c = (ge (ref_entry r), c1)" "cache_ok ge c1"
      using cached_entry_ok [OF Cons.prems] by blast
    then show ?thesis using Cons.IH [OF c1(2)] True by auto
  qed (use Cons in auto)
qed simp

lemma cache_ok_Nil: "cache_ok ge []"
  by (simp add: cache_ok_def)

lemma latest_source_date_ok:
  assumes "cache_ok ge c"
  shows "\<exists>c'. latest_source_date ge p c = (fst (latest_source_date ge p []), c') \<and> cache_ok ge c'"
  using source_dates_ok [OF assms, of "p_provenance p"] source_dates_ok [OF cache_ok_Nil, of ge "p_provenance p"]
  by (auto simp: latest_source_date_def)

text \<open>The order of a pair, whatever entries the sweep has read before.\<close>

definition pair_order :: "'emb claim_lib \<Rightarrow> (string \<Rightarrow> corpus_entry option) \<Rightarrow> bool \<Rightarrow> particle \<Rightarrow> particle \<Rightarrow> int option option" where
  "pair_order clib ge req a b = fst (pair_update_order clib ge req a b [])"

lemma pair_update_order_ok:
  assumes "cache_ok ge c"
  shows "\<exists>c'. pair_update_order clib ge req a b c =
     (case (source_ref_pair a, source_ref_pair b) of
        (Some (a_id, a_snap), Some (b_id, b_snap)) \<Rightarrow>
          update_order clib a (ge a_id) a_snap b (ge b_id) b_snap req
            (fst (latest_source_date ge a [])) (fst (latest_source_date ge b []))
      | _ \<Rightarrow> Some None, c') \<and> cache_ok ge c'"
proof (cases "source_ref_pair a = None \<or> source_ref_pair b = None")
  case True
  then show ?thesis using assms by (auto simp: pair_update_order_def split: option.splits)
next
  case False
  then obtain ai as bi bs where refs: "source_ref_pair a = Some (ai, as)" "source_ref_pair b = Some (bi, bs)" by auto
  obtain c1 where c1: "cached_entry ge ai c = (ge ai, c1)" "cache_ok ge c1" using cached_entry_ok [OF assms] by blast
  obtain c2 where c2: "cached_entry ge bi c1 = (ge bi, c2)" "cache_ok ge c2" using cached_entry_ok [OF c1(2)] by blast
  obtain c3 where c3: "latest_source_date ge a c2 = (fst (latest_source_date ge a []), c3)" "cache_ok ge c3"
    using latest_source_date_ok [OF c2(2)] by blast
  obtain c4 where c4: "latest_source_date ge b c3 = (fst (latest_source_date ge b []), c4)" "cache_ok ge c4"
    using latest_source_date_ok [OF c3(2)] by blast
  show ?thesis unfolding pair_update_order_def by (simp add: refs c1(1) c2(1) c3(1) c4)
qed

lemma pair_order_eq:
  "pair_order clib ge req a b =
     (case (source_ref_pair a, source_ref_pair b) of
        (Some (a_id, a_snap), Some (b_id, b_snap)) \<Rightarrow>
          update_order clib a (ge a_id) a_snap b (ge b_id) b_snap req
            (fst (latest_source_date ge a [])) (fst (latest_source_date ge b []))
      | _ \<Rightarrow> Some None)"
  using pair_update_order_ok [OF cache_ok_Nil, of clib ge req a b] by (auto simp: pair_order_def)

lemma pair_update_order_cached:
  "cache_ok ge c \<Longrightarrow> \<exists>c'. pair_update_order clib ge req a b c = (pair_order clib ge req a b, c') \<and> cache_ok ge c'"
  unfolding pair_order_eq by (rule pair_update_order_ok)

lemma pair_order_swap: "pair_order clib ge req b a = map_option (map_option uminus) (pair_order clib ge req a b)"
  unfolding pair_order_eq by (auto simp: update_order_swap [of clib b] split: option.splits)

lemma pair_order_values: "pair_order clib ge req a b = Some (Some k) \<Longrightarrow> k = 1 \<or> k = - 1"
  unfolding pair_order_eq by (auto split: option.splits elim!: update_order_Some dest: date_order_values)

lemma pair_order_irrefl: "pair_order clib ge req a a \<noteq> Some (Some k)"
proof
  assume some: "pair_order clib ge req a a = Some (Some k)"
  then have "k = - k" using pair_order_swap [of clib ge req a a] by simp
  then show False using pair_order_values [OF some] by auto
qed

section \<open>What the update sweep gathers\<close>

definition newer_than :: "'emb claim_lib \<Rightarrow> (string \<Rightarrow> corpus_entry option) \<Rightarrow> bool \<Rightarrow> particle \<Rightarrow> particle \<Rightarrow> bool" where
  "newer_than clib ge req newer older = (pair_order clib ge req newer older = Some (Some 1))"

lemma gather_pair_ok:
  assumes "gather_pair clib lib obs ge scope flr req ((a, ae), (b, be)) g = Some g'" "cache_ok ge (g_cache g)"
  shows "cache_ok ge (g_cache g')"
    "(sim, newer, older) \<in> set (g_candidates g') \<Longrightarrow> (sim, newer, older) \<notin> set (g_candidates g)
       \<Longrightarrow> newer_than clib ge req newer older \<and> {newer, older} = {a, b}"
proof -
  obtain c where c: "pair_update_order clib ge req a b (g_cache g) = (pair_order clib ge req a b, c)" "cache_ok ge c"
    using pair_update_order_cached [OF assms(2)] by blast
  show "cache_ok ge (g_cache g')"
    using assms c by (auto simp: gather_pair_def Let_def split: if_splits option.splits)
  assume new: "(sim, newer, older) \<in> set (g_candidates g')" "(sim, newer, older) \<notin> set (g_candidates g)"
  then obtain k where k: "pair_order clib ge req a b = Some (Some k)" "(newer, older) = (if k > 0 then (a, b) else (b, a))"
    using assms c by (auto simp: gather_pair_def Let_def split: if_splits option.splits)
  show "newer_than clib ge req newer older \<and> {newer, older} = {a, b}"
    using k pair_order_values [OF k(1)] pair_order_swap [of clib ge req b a] by (auto simp: newer_than_def split: if_splits)
qed

lemma gather_fold:
  assumes "fold_option (gather_pair clib lib obs ge scope flr req) pairs g = Some g'" "cache_ok ge (g_cache g)"
    and "(sim, newer, older) \<in> set (g_candidates g')" "(sim, newer, older) \<notin> set (g_candidates g)"
  shows "newer_than clib ge req newer older \<and> (\<exists>a ae b be. ((a, ae), (b, be)) \<in> set pairs \<and> {newer, older} = {a, b})"
  using assms
proof (induction pairs arbitrary: g)
  case (Cons ab pairs)
  obtain a ae b be where ab: "ab = ((a, ae), (b, be))" by (metis prod.collapse)
  obtain g1 where g1: "gather_pair clib lib obs ge scope flr req ab g = Some g1"
      "fold_option (gather_pair clib lib obs ge scope flr req) pairs g1 = Some g'"
    using Cons.prems(1) by (auto split: option.splits)
  note step = gather_pair_ok [OF g1(1) [unfolded ab] Cons.prems(2)]
  show ?case
  proof (cases "(sim, newer, older) \<in> set (g_candidates g1)")
    case True
    then show ?thesis using step(2) Cons.prems(4) ab by (metis list.set_intros(1))
  next
    case False
    then show ?thesis using Cons.IH [OF g1(2) step(1) Cons.prems(3)] by (meson list.set_intros(2))
  qed
qed simp

definition held :: "('k, 'v list) dict \<Rightarrow> 'v set" where
  "held d = (\<Union>(k, vs) \<in> set d. set vs)"

lemma held_update: "held (AList.update k vs d) \<subseteq> set vs \<union> held d"
  by (induction d) (auto simp: held_def)

lemma held_append: "held (setdefault_append k v d) \<subseteq> insert v (held d)"
proof -
  have "set (case map_of d k of None \<Rightarrow> [] | Some vs \<Rightarrow> vs) \<subseteq> held d"
    by (cases "map_of d k") (auto simp: held_def dest!: map_of_SomeD)
  then show ?thesis using held_update [of k _ d] unfolding setdefault_append_def by fastforce
qed

lemma held_index_particle:
  "held (index_particle clib speaker excluded pe d) \<subseteq> {(p, e). (p, Some e) = pe} \<union> held d"
proof -
  have "held (fold (\<lambda>key. setdefault_append key v) ks d) \<subseteq> insert v (held d)" for v :: "particle \<times> 'a" and ks d
    using held_append by (induction ks arbitrary: d) fastforce+
  then show ?thesis by (cases pe; cases "snd pe") (auto simp: index_particle_def dest!: subsetD)
qed

lemma held_build:
  "held (fold (index_particle clib speaker excluded) pairs d) \<subseteq> {(p, e). (p, Some e) \<in> set pairs} \<union> held d"
proof (induction pairs arbitrary: d)
  case (Cons pe pairs)
  then show ?case using held_index_particle [of clib speaker excluded pe d] by fastforce
qed simp

lemma pairs_after_members: "(x, y) \<in> set (pairs_after xs) \<Longrightarrow> x \<in> set xs \<and> y \<in> set xs"
  by (induction xs) auto

definition update_ready :: "'emb claim_lib \<Rightarrow> (string \<Rightarrow> corpus_entry option) \<Rightarrow> bool \<Rightarrow> store \<Rightarrow> particle \<Rightarrow> particle \<Rightarrow> bool" where
  "update_ready clib ge req st newer older =
     (newer_than clib ge req newer older \<and> get_particle st (p_id newer) = Some newer \<and> p_status newer = ACTIVE
      \<and> get_particle st (p_id older) = Some older \<and> p_status older = ACTIVE)"

lemma update_ready_ids:
  assumes "update_ready clib ge req st newer older"
  shows "p_id older \<noteq> p_id newer"
proof
  assume same: "p_id older = p_id newer"
  have "Some older = Some newer"
    using assms unfolding update_ready_def same by (metis (no_types))
  then show False
    using assms pair_order_irrefl [of clib ge req older 1] unfolding update_ready_def newer_than_def by blast
qed

lemma update_candidates_ready:
  assumes "store_reach (we_rules env) st"
    and "update_candidates clib lib obs ge speaker env scope flr req st = Some (n, g)" "(sim, newer, older) \<in> set (g_candidates g)"
  shows "update_ready clib ge req st newer older"
proof -
  let ?ix = "by_subject (build_index clib (map (\<lambda>(p, e). (p, Some e)) (active_candidates env st)) speaker [])"
  let ?pairs = "concat (map (\<lambda>(_, members). pairs_after members) ?ix)"
  have folded: "fold_option (gather_pair clib lib obs ge scope flr req) ?pairs
      \<lparr>g_seen = [], g_cache = [], g_candidates = [], g_declined = 0\<rparr> = Some g"
    using assms(2) unfolding update_candidates_def Let_def by blast
  have found: "newer_than clib ge req newer older \<and> (\<exists>a ae b be. ((a, ae), (b, be)) \<in> set ?pairs \<and> {newer, older} = {a, b})"
    by (rule gather_fold [OF folded _ assms(3)]) (simp_all add: cache_ok_Nil)
  then obtain a ae b be where pair: "newer_than clib ge req newer older" "{newer, older} = {a, b}"
      "((a, ae), (b, be)) \<in> set ?pairs" by blast
  then obtain k ms where ms: "(k, ms) \<in> set ?ix" "((a, ae), (b, be)) \<in> set (pairs_after ms)" by auto
  have "(p, e) \<in> set (active_candidates env st)" if "(p, e) \<in> set ms" for p e
    using held_build [of clib speaker "[]" "map (\<lambda>(p, e). (p, Some e)) (active_candidates env st)" "[]"] ms(1) that
    by (fastforce simp: build_index_def held_def)
  then have "(a, ae) \<in> set (active_candidates env st)" "(b, be) \<in> set (active_candidates env st)"
    using pairs_after_members [OF ms(2)] by blast+
  then have "get_particle st (p_id a) = Some a \<and> p_status a = ACTIVE" "get_particle st (p_id b) = Some b \<and> p_status b = ACTIVE"
    using active_candidate_stored [OF assms(1)] unfolding active_candidates_def by blast+
  with pair(1,2) show ?thesis unfolding update_ready_def doubleton_eq_iff by blast
qed

section \<open>Chains of winners\<close>

text \<open>A claim retired earlier in the run neither loses nor wins again.\<close>

definition retired_once :: "demotion list \<Rightarrow> bool" where
  "retired_once ds =
     (sorted_wrt (\<lambda>d d'. dm_loser d \<notin> {dm_loser d', dm_winner d'}) ds \<and> (\<forall>d \<in> set ds. dm_loser d \<noteq> dm_winner d))"

definition beaten_by :: "demotion list \<Rightarrow> (string \<times> string) set" where
  "beaten_by ds = (\<lambda>d. (dm_loser d, dm_winner d)) ` set ds"

lemma retired_once_snoc:
  "retired_once (ds @ [d]) \<longleftrightarrow>
     retired_once ds \<and> dm_loser d \<noteq> dm_winner d \<and> dm_loser d \<notin> dm_loser ` set ds \<and> dm_winner d \<notin> dm_loser ` set ds"
  unfolding retired_once_def sorted_wrt_append by (auto simp: image_iff)

lemma chains_end:
  "retired_once ds \<Longrightarrow> d \<in> set ds \<Longrightarrow> \<exists>w. (dm_loser d, w) \<in> (beaten_by ds)\<^sup>+ \<and> w \<notin> dm_loser ` set ds"
proof (induction ds arbitrary: d rule: rev_induct)
  case (snoc l ds)
  have fresh: "dm_winner l \<notin> dm_loser ` set (ds @ [l])" and once: "retired_once ds"
    using snoc.prems(1) by (auto simp: retired_once_snoc)
  have last: "(dm_loser l, dm_winner l) \<in> (beaten_by (ds @ [l]))\<^sup>+" by (auto simp: beaten_by_def)
  have grow: "(beaten_by ds)\<^sup>+ \<subseteq> (beaten_by (ds @ [l]))\<^sup>+" by (rule trancl_mono_subset) (auto simp: beaten_by_def)
  show ?case
  proof (cases "d = l")
    case True
    then show ?thesis using fresh last by blast
  next
    case False
    then have "d \<in> set ds" using snoc.prems(2) by simp
    then obtain w where w: "(dm_loser d, w) \<in> (beaten_by (ds @ [l]))\<^sup>+" "w \<notin> dm_loser ` set ds"
      using snoc.IH [OF once] grow by blast
    show ?thesis
    proof (cases "w = dm_loser l")
      case True
      then have "(dm_loser d, dm_winner l) \<in> (beaten_by (ds @ [l]))\<^sup>+" using w(1) last by (metis trancl_trans)
      then show ?thesis using fresh by blast
    next
      case False
      then show ?thesis using w by auto
    qed
  qed
qed simp

section \<open>What the update sweep writes\<close>

text \<open>The beliefs of \<open>st0\<close> as they stand in \<open>st\<close> once those named in \<open>ls\<close> are retired: none is lost or reworded.\<close>

definition survives :: "store \<Rightarrow> string set \<Rightarrow> store \<Rightarrow> bool" where
  "survives st0 ls st =
     (\<forall>i p. get_particle st0 i = Some p \<longrightarrow>
        (\<exists>q. get_particle st i = Some q \<and> p_content q = p_content p
           \<and> p_status q = (if i \<in> ls then PROVENANCE_STALE else p_status p)))"

lemma survives_start: "survives st0 {} st0"
  by (simp add: survives_def)

lemma survives_insert:
  assumes "insert_particle rules p emb hint st = Inr st'" "survives st0 ls st"
  shows "survives st0 ls st'"
proof -
  have "get_particle st (p_id p) = None" "get_particle st' i = get_particle st i" if "i \<noteq> p_id p" for i
    using insert_row [OF assms(1)] that by (auto simp: get_particle_def)
  moreover have "get_particle st (p_id p) = None" using insert_row [OF assms(1)] by (simp add: get_particle_def)
  ultimately show ?thesis using assms(2) unfolding survives_def by (metis option.distinct(1))
qed

lemma survives_supersedes:
  assumes "survives st0 ls st"
  shows "survives st0 ls (snd (set_supersedes_if_unset w l st))"
proof (cases "\<exists>row. row_of st w = Some row \<and> p_supersedes (r_particle row) = None")
  case True
  then obtain row where row: "row_of st w = Some row" "p_supersedes (r_particle row) = None" by blast
  have after: "get_particle (snd (set_supersedes_if_unset w l st)) =
      (get_particle st)(w \<mapsto> (r_particle row)\<lparr>p_supersedes := Some l\<rparr>)"
    using row by (simp add: set_supersedes_if_unset_def)
  have before: "get_particle st w = Some (r_particle row)" using row(1) by (simp add: get_particle_def)
  show ?thesis
    unfolding survives_def after
  proof (intro allI impI)
    fix i p
    assume "get_particle st0 i = Some p"
    then obtain q where q: "get_particle st i = Some q" "p_content q = p_content p"
        "p_status q = (if i \<in> ls then PROVENANCE_STALE else p_status p)"
      using assms unfolding survives_def by blast
    show "\<exists>q. ((get_particle st)(w \<mapsto> (r_particle row)\<lparr>p_supersedes := Some l\<rparr>)) i = Some q \<and> p_content q = p_content p
        \<and> p_status q = (if i \<in> ls then PROVENANCE_STALE else p_status p)"
      using q before by (cases "i = w") auto
  qed
next
  case False
  then have "snd (set_supersedes_if_unset w l st) = st"
    by (auto simp: set_supersedes_if_unset_def split: option.splits)
  then show ?thesis using assms by simp
qed

lemma supersedes_events: "st_events (snd (set_supersedes_if_unset w l st)) = st_events st"
  by (simp add: set_supersedes_if_unset_def put_row_def split: option.splits)

lemma survives_demote:
  fixes env :: write_env
  assumes "permits (we_rules env)" "survives st0 ls st" "get_particle st0 i = Some p" "p_status p = ACTIVE" "i \<notin> ls"
  shows "\<exists>st'. update_particle_status (we_rules env) (we_now env) i PROVENANCE_STALE (Some reason) None st = Inr st'
     \<and> survives st0 (insert i ls) st' \<and> st_events st' = st_events st"
proof -
  obtain q where q: "get_particle st i = Some q" "p_content q = p_content p" "p_status q = ACTIVE"
    using assms(2-5) unfolding survives_def by fastforce
  obtain st' where st': "apply_demote env (Some (i, reason)) st = Inr st'" "get_particle st' = (get_particle st)(i \<mapsto> demoted q reason)"
    using plan_writes.demote_ok [OF assms(1) q(1,3)] by blast
  have "survives st0 (insert i ls) st'"
    unfolding survives_def st'(2)
  proof (intro allI impI)
    fix j r
    assume j: "get_particle st0 j = Some r"
    show "\<exists>q'. ((get_particle st)(i \<mapsto> demoted q reason)) j = Some q' \<and> p_content q' = p_content r
        \<and> p_status q' = (if j \<in> insert i ls then PROVENANCE_STALE else p_status r)"
    proof (cases "j = i")
      case True
      with j assms(3) have "r = p" by simp
      then show ?thesis using True q(2) by (simp add: demoted_def)
    next
      case False
      then show ?thesis using assms(2) j unfolding survives_def by simp
    qed
  qed
  then show ?thesis using st'(1) apply_steps_events(3) [OF st'(1)] by (simp add: apply_demote_def)
qed

text \<open>The questions of a pair write nothing but the ledger and the counts.\<close>

definition asks_only :: "upd_sweep \<Rightarrow> upd_sweep \<Rightarrow> bool" where
  "asks_only s s' = (us_store s' = us_store s \<and> us_probed s' = us_probed s \<and> us_demoted s' = us_demoted s
     \<and> us_demotions s' = us_demotions s \<and> us_error s' = us_error s \<and> us_open s' = us_open s \<and> us_reviews s' = us_reviews s)"

lemma asks_only_trans: "asks_only s s' \<Longrightarrow> asks_only s' s'' \<Longrightarrow> asks_only s s''"
  by (simp add: asks_only_def)

lemma sweep_slot_asks: "sweep_slot lib slib ans rc older newer s = (sl, s') \<Longrightarrow> asks_only s s'"
  by (auto simp: sweep_slot_def remember_def asks_only_def Let_def split: option.splits)

lemma sweep_contradiction_asks: "sweep_contradiction lib ans rc newer older s = (probe, s') \<Longrightarrow> asks_only s s'"
  by (auto simp: sweep_contradiction_def remember_def asks_only_def Let_def split: option.splits prod.splits if_splits)

lemma counted_asks: "asks_only s (s\<lparr>us_update_probed := n\<rparr>)"
  by (simp add: asks_only_def)

lemma pair_action_asks:
  assumes "pair_action lib slib ans rc first newer older s = (act, s')"
  shows "asks_only s s'"
proof (cases first)
  case True
  obtain sl s1 where s1: "sweep_slot lib slib ans rc older newer (s\<lparr>us_update_probed := Suc (us_update_probed s)\<rparr>) = (sl, s1)" by fastforce
  obtain probe s2 where s2: "sweep_contradiction lib ans rc newer older s1 = (probe, s2)" by fastforce
  have "asks_only s s1" by (rule asks_only_trans [OF counted_asks sweep_slot_asks [OF s1]])
  then show ?thesis
    using assms True s1 s2 asks_only_trans [OF _ sweep_contradiction_asks [OF s2], of s]
    by (auto simp: pair_action_def Let_def split: option.splits)
next
  case False
  obtain probe s1 where s1: "sweep_contradiction lib ans rc newer older s = (probe, s1)" by fastforce
  obtain sl s2 where s2: "sweep_slot lib slib ans rc older newer (s1\<lparr>us_update_probed := Suc (us_update_probed s1)\<rparr>) = (sl, s2)" by fastforce
  have "asks_only s s1" by (rule sweep_contradiction_asks [OF s1])
  moreover have "asks_only s s2"
    by (rule asks_only_trans [OF calculation asks_only_trans [OF counted_asks sweep_slot_asks [OF s2]]])
  ultimately show ?thesis using assms False s1 s2 by (auto simp: pair_action_def Let_def split: if_splits)
qed

text \<open>What holds after every pair, and so also where the run stops: at its end, at the cap or at an error.\<close>

definition upd_inv :: "(particle \<Rightarrow> particle \<Rightarrow> bool) \<Rightarrow> sweep_config \<Rightarrow> bool \<Rightarrow> store \<Rightarrow> upd_sweep \<Rightarrow> bool" where
  "upd_inv ready cfg dry st0 s =
     (set (us_demoted s) = dm_loser ` set (us_demotions s) \<and> retired_once (us_demotions s)
      \<and> us_probed s \<le> max_update_probes cfg \<and> length (us_demotions s) \<le> us_probed s
      \<and> (dry \<longrightarrow> us_store s = st0) \<and> survives st0 (if dry then {} else set (us_demoted s)) (us_store s)
      \<and> map ev_refs (st_events (us_store s)) =
          map ev_refs (st_events st0) @ (if dry then [] else map demotion_refs (us_demotions s))
      \<and> (\<forall>d \<in> set (us_demotions s). \<exists>newer older. ready newer older \<and> dm_loser d = p_id older \<and> dm_winner d = p_id newer))"

lemma upd_inv_asks: "upd_inv ready cfg dry st0 s \<Longrightarrow> asks_only s s' \<Longrightarrow> upd_inv ready cfg dry st0 s'"
  by (cases dry) (auto simp: upd_inv_def asks_only_def)

lemma upd_inv_probe:
  "upd_inv ready cfg dry st0 s \<Longrightarrow> us_probed s < max_update_probes cfg \<Longrightarrow> upd_inv ready cfg dry st0 (s\<lparr>us_probed := Suc (us_probed s)\<rparr>)"
  by (cases dry) (auto simp: upd_inv_def)

lemma upd_inv_counts [simp]:
  "upd_inv ready cfg dry st0 (s\<lparr>us_different := n\<rparr>) = upd_inv ready cfg dry st0 s"
  "upd_inv ready cfg dry st0 (s\<lparr>us_not_reached := m\<rparr>) = upd_inv ready cfg dry st0 s"
  "upd_inv ready cfg dry st0 (s\<lparr>us_open := op, us_reviews := rv\<rparr>) = upd_inv ready cfg dry st0 s"
  "upd_inv ready cfg dry st0 (s\<lparr>us_open := op, us_error := er\<rparr>) = upd_inv ready cfg dry st0 s"
  by (simp_all add: upd_inv_def)

lemma upd_inv_store:
  "upd_inv ready cfg False st0 s \<Longrightarrow> survives st0 (set (us_demoted s)) st \<Longrightarrow> st_events st = st_events (us_store s)
     \<Longrightarrow> upd_inv ready cfg False st0 (s\<lparr>us_open := op, us_reviews := rv, us_store := st\<rparr>)"
  by (simp add: upd_inv_def)

lemma upd_inv_survives: "upd_inv ready cfg False st0 s \<Longrightarrow> survives st0 (set (us_demoted s)) (us_store s)"
  unfolding upd_inv_def if_False by blast

lemma upd_inv_review:
  assumes "upd_inv ready cfg dry st0 s"
  shows "upd_inv ready cfg dry st0 (review_pair lib build ge stamp env dry older newer s)"
proof (cases "\<not> dry \<and> (\<exists>st. open_fixed_slot_review lib build ge stamp env older newer (us_store s) = Inr st)")
  case True
  then obtain st where st: "open_fixed_slot_review lib build ge stamp env older newer (us_store s) = Inr st" "\<not> dry" by blast
  then obtain rules p emb hint where ins: "insert_particle rules p emb hint (us_store s) = Inr st"
    by (auto simp: open_fixed_slot_review_def Let_def andthen_Inr born_def split: prod.splits if_splits)
  have "survives st0 (set (us_demoted s)) st" "st_events st = st_events (us_store s)"
    using survives_insert [OF ins upd_inv_survives] insert_events [OF ins] assms st(2) by auto
  then show ?thesis using assms st upd_inv_store [of ready cfg st0 s st] by (simp add: review_pair_def Let_def)
next
  case False
  then show ?thesis
    using assms by (cases "open_fixed_slot_review lib build ge stamp env older newer (us_store s)")
      (auto simp: review_pair_def Let_def)
qed

lemma upd_inv_demote:
  fixes env :: write_env
  assumes "permits (we_rules env)" "upd_inv ready cfg dry st0 s" "ready newer older"
    and "get_particle st0 (p_id older) = Some older" "p_status older = ACTIVE" "p_id older \<noteq> p_id newer"
    and "p_id newer \<notin> set (us_demoted s)" "p_id older \<notin> set (us_demoted s)" "length (us_demotions s) < us_probed s"
  shows "upd_inv ready cfg dry st0 (demote_pair decided env dry sim newer older s)"
proof -
  let ?d = "\<lparr>dm_loser = p_id older, dm_winner = p_id newer, dm_entries = None, dm_similarity = sim\<rparr>"
  let ?s1 = "s\<lparr>us_demotions := us_demotions s @ [?d], us_demoted := p_id older # us_demoted s\<rparr>"
  have once: "retired_once (us_demotions s @ [?d])"
    unfolding retired_once_snoc using assms(2,6,7,8) by (simp add: upd_inv_def)
  show ?thesis
  proof (cases dry)
    case True
    then show ?thesis using assms once by (auto simp: demote_pair_def upd_inv_def)
  next
    case False
    then have "survives st0 (set (us_demoted s)) (us_store s)" using upd_inv_survives assms(2) by simp
    then obtain st where st: "update_particle_status (we_rules env) (we_now env) (p_id older) PROVENANCE_STALE
          (Some SUPERSEDED_BY_UPDATE) None (us_store s) = Inr st"
        "survives st0 (insert (p_id older) (set (us_demoted s))) st" "st_events st = st_events (us_store s)"
      using survives_demote [OF assms(1) _ assms(4,5,8)] by blast
    let ?st = "record_event (we_http env) (plan_update_event (p_id older) (p_id newer) ''sweep'' decided)
        (snd (set_supersedes_if_unset (p_id newer) (p_id older) st))"
    have "survives st0 (insert (p_id older) (set (us_demoted s))) ?st"
      using survives_supersedes [OF st(2)] by (simp add: survives_def)
    moreover have "map ev_refs (st_events ?st) = map ev_refs (st_events (us_store s)) @ [demotion_refs ?d]"
      using assms(6) by (simp add: record_event_eq supersedes_events st(3) demotion_refs_def)
    moreover have "demote_pair decided env dry sim newer older s = ?s1\<lparr>us_store := ?st\<rparr>"
      using False st(1) by (simp add: demote_pair_def Let_def)
    ultimately show ?thesis using assms(2,3,9) once False by (auto simp: upd_inv_def)
  qed
qed

lemma upd_loop_inv:
  fixes env :: write_env
  assumes "permits (we_rules env)"
    and ready: "\<And>newer older. ready newer older \<Longrightarrow> get_particle st0 (p_id older) = Some older \<and> p_status older = ACTIVE \<and> p_id older \<noteq> p_id newer"
    and "upd_inv ready cfg dry st0 s" "\<And>sim newer older. (sim, newer, older) \<in> set cands \<Longrightarrow> ready newer older"
  shows "upd_inv ready cfg dry st0 (upd_sweep_loop lib slib ans tools cfg env dry cands s)"
  using assms(3,4)
proof (induction cands arbitrary: s)
  case (Cons c cs)
  obtain sim newer older where c: "c = (sim, newer, older)" by (cases c)
  have rd: "ready newer older" using Cons.prems(2) by (auto simp: c)
  have IH: "upd_inv ready cfg dry st0 t \<Longrightarrow> upd_inv ready cfg dry st0 (upd_sweep_loop lib slib ans tools cfg env dry cs t)" for t
    by (rule Cons.IH) (use Cons.prems(2) in auto)
  show ?case
  proof (cases "us_error s \<noteq> None \<or> us_probed s \<ge> max_update_probes cfg
      \<or> p_id newer \<in> set (us_demoted s) \<or> p_id older \<in> set (us_demoted s)")
    case True
    then show ?thesis using Cons.prems(1) IH [OF Cons.prems(1)] by (auto simp: c)
  next
    case False
    let ?s0 = "s\<lparr>us_probed := Suc (us_probed s)\<rparr>"
    obtain act s1 where act: "pair_action lib slib ans (st_recording tools) (asked_first cfg slib older) newer older ?s0 = (act, s1)"
      by fastforce
    have asked: "asks_only ?s0 s1" by (rule pair_action_asks [OF act])
    have inv: "upd_inv ready cfg dry st0 s1"
      using upd_inv_probe [OF Cons.prems(1)] False asked by (auto intro: upd_inv_asks)
    have "length (us_demotions s1) < us_probed s1" "us_demoted s1 = us_demoted s"
      using asked Cons.prems(1) by (auto simp: asks_only_def upd_inv_def)
    then have demote: "upd_inv ready cfg dry st0 (demote_pair (st_decided_by tools) env dry sim newer older s1)"
      using upd_inv_demote [OF assms(1) inv rd] ready [OF rd] False by simp
    show ?thesis
      using False act IH inv demote upd_inv_review [OF inv] by (auto simp: c Let_def split: option.splits sweep_act.splits)
  qed
qed simp

section \<open>A page that changed its mind\<close>

definition demo_page :: corpus_entry where
  "demo_page = (demo_file ''e'' ''x'' [] 1)\<lparr>e_snapshots :=
     [\<lparr>s_id = ''s1'', s_author_id = None, s_published_at = Some (Aware 1)\<rparr>,
      \<lparr>s_id = ''s2'', s_author_id = None, s_published_at = Some (Aware 2)\<rparr>]\<rparr>"

definition demo_tools :: sweep_tools where
  "demo_tools = \<lparr>st_build = demo_build, st_get_entry = (\<lambda>i. if i = ''e'' then Some demo_page else None), st_stamp = None,
     st_decided_by = None, st_recording = True\<rparr>"

definition demo_updates :: sweep_lib where
  "demo_updates = demo_sweep\<lparr>resolve_conflict := (\<lambda>_ _ i. if ri_update_order i = Some 1 then UPDATE_SUPERSEDES else NO_CONFLICT),
     sweep_action := (\<lambda>_. DEMOTE)\<rparr>"

definition demo_value :: "string \<Rightarrow> string \<Rightarrow> particle" where
  "demo_value i snap = (demo_particle i i)\<lparr>p_provenance := [demo_ref ''e'' snap]\<rparr>"

definition demo_gate :: gate where
  "demo_gate = \<lparr>engaged = False, gate_verdict = (\<lambda>_ _. RECONCILE)\<rparr>"

definition demo_old_value :: store where
  "demo_old_value = projr (insert_particle demo_rules (demo_value ''a'' ''s1'') (Some [1]) None empty_store)"

definition demo_values :: store where
  "demo_values = projr (insert_particle demo_rules (demo_value ''b'' ''s2'') (Some [1]) None demo_old_value)"

lemmas demo_value_simps = demo_value_def demo_old_value_def demo_values_def demo_store_simps

lemma demo_values_reach: "store_reach (we_rules demo_env) demo_values"
proof -
  have "run_command demo_rules (Insert (demo_value ''a'' ''s1'') (Some [1]) None) empty_store = Inr demo_old_value"
    by (simp add: demo_value_simps Let_def)
  then have "store_reach demo_rules demo_old_value" by (rule store_reach.wrote [OF store_reach.fresh])
  moreover have "run_command demo_rules (Insert (demo_value ''b'' ''s2'') (Some [1]) None) demo_old_value = Inr demo_values"
    by (simp add: demo_value_simps Let_def)
  ultimately have "store_reach demo_rules demo_values" by (rule store_reach.wrote)
  then show ?thesis by (simp add: demo_env_def)
qed

lemma demo_updated:
  "case fst (reconcile_updates demo_cosine demo_updates demo_slots demo_answers demo_tools demo_gate None demo_config demo_env True False None
       (demo_values, [])) of
     Inr (Some s) \<Rightarrow> us_demotions s = [\<lparr>dm_loser = ''a'', dm_winner = ''b'', dm_entries = None, dm_similarity = 1\<rparr>]
   | _ \<Rightarrow> False"
  by code_simp

section \<open>The properties\<close>

text \<open>
  C6. The update sweep never leaves a subject without a value, at its end, at the cap or at an error. On a
  reachable store the claims it retires form a list, at most one per probe of the cap, such that the
  winner of each is later in the update order than the loser, both were believed when the run began, and
  following the winners from any retired claim ends in a claim the run did not retire. Every claim stored
  before is still there with its content, and its status is what it was unless it is on the list; the
  events appended are one per retirement, naming loser and winner. A dry run changes nothing.
\<close>

theorem update_sweep_keeps_a_value:
  assumes "permits (we_rules env)" "store_reach (we_rules env) st"
    and "reconcile_updates clib lib slib ans tools obs speaker cfg env current dry scope (st, led) = (r, st', led')"
  shows "\<exists>ds. length ds \<le> max_update_probes cfg \<and> (\<forall>s. r = Inr (Some s) \<longrightarrow> us_demotions s = ds) \<and> (dry \<longrightarrow> st' = st)
     \<and> (\<forall>d \<in> set ds. \<exists>newer older. update_ready clib (st_get_entry tools) (\<not> store_single cfg) st newer older
          \<and> dm_loser d = p_id older \<and> dm_winner d = p_id newer)
     \<and> (\<forall>d \<in> set ds. \<exists>w. (dm_loser d, w) \<in> (beaten_by ds)\<^sup>+ \<and> w \<notin> dm_loser ` set ds)
     \<and> survives st (if dry then {} else dm_loser ` set ds) st'
     \<and> map ev_refs (st_events st') = map ev_refs (st_events st) @ (if dry then [] else map demotion_refs ds)"
proof -
  let ?ge = "st_get_entry tools" and ?req = "\<not> store_single cfg"
  let ?ready = "update_ready clib ?ge ?req st"
  show ?thesis
  proof (cases "current \<and> update_enabled cfg \<and> update_candidates clib lib obs ?ge speaker env scope (subject_floor cfg) ?req st \<noteq> None")
    case True
    then obtain n g where g: "update_candidates clib lib obs ?ge speaker env scope (subject_floor cfg) ?req st = Some (n, g)" by auto
    let ?cands = "sort_key (\<lambda>c. - fst c) (fst (drop_cleared_updates lib slib cfg led (g_candidates g)))"
    let ?init = "\<lparr>us_store = st, us_ledger = led, us_asked = 0, us_probed = 0, us_update_probed = 0, us_different = 0,
        us_reviews = [], us_open = None, us_demoted = [], us_demotions = [], us_not_reached = None, us_error = None\<rparr>"
    define s where "s = upd_sweep_loop lib slib ans tools cfg env dry ?cands ?init"
    have ready: "?ready newer older" if "(sim, newer, older) \<in> set ?cands" for sim newer older
      using update_candidates_ready [OF assms(2) g] that by (auto simp: drop_cleared_updates_def Let_def)
    have inv: "upd_inv ?ready cfg dry st s"
      unfolding s_def
    proof (rule upd_loop_inv [OF assms(1)])
      show "upd_inv ?ready cfg dry st ?init" by (simp add: upd_inv_def retired_once_def survives_start)
      show "get_particle st (p_id older) = Some older \<and> p_status older = ACTIVE \<and> p_id older \<noteq> p_id newer"
        if "?ready newer older" for newer older
        using update_ready_ids [OF that] that unfolding update_ready_def by blast
    qed (rule ready)
    have result: "st' = us_store s" "\<forall>t. r = Inr (Some t) \<longrightarrow> us_demotions t = us_demotions s"
      using assms(3) True g by (auto simp: reconcile_updates_def s_def Let_def split: option.splits)
    show ?thesis
      using inv result(2) chains_end [of "us_demotions s"] unfolding upd_inv_def result(1)
      by (intro exI [of _ "us_demotions s"]) auto
  next
    case False
    then have "\<exists>q. reconcile_updates clib lib slib ans tools obs speaker cfg env current dry scope (st, led) = (q, st, led)
        \<and> q \<in> {Inl SCHEMA_STALE, Inl BAD_URI, Inr None}"
      by (auto simp: reconcile_updates_def simp del: not_None_eq)
    then have "st' = st" "\<forall>s. r \<noteq> Inr (Some s)" unfolding assms(3) by auto
    then show ?thesis by (intro exI [of _ "[]"]) (simp add: survives_start)
  qed
qed

theorem update_sweep_keeps_a_value_witness:
  "\<exists>r st' led'. reconcile_updates demo_cosine demo_updates demo_slots demo_answers demo_tools demo_gate None demo_config demo_env True False None
       (demo_values, []) = (r, st', led')
     \<and> survives demo_values {''a''} st' \<and> length (st_events st') = Suc (length (st_events demo_values))"
proof -
  obtain r st' led' where run: "reconcile_updates demo_cosine demo_updates demo_slots demo_answers demo_tools demo_gate None demo_config demo_env True False None
       (demo_values, []) = (r, st', led')" by (metis prod.collapse)
  obtain s where s: "r = Inr (Some s)" "us_demotions s = [\<lparr>dm_loser = ''a'', dm_winner = ''b'', dm_entries = None, dm_similarity = 1\<rparr>]"
    using demo_updated unfolding run by (auto split: sum.splits option.splits)
  obtain ds where ds: "\<forall>s. r = Inr (Some s) \<longrightarrow> us_demotions s = ds" "survives demo_values (dm_loser ` set ds) st'"
      "map ev_refs (st_events st') = map ev_refs (st_events demo_values) @ map demotion_refs ds"
    using update_sweep_keeps_a_value [OF demo_permits demo_values_reach run] unfolding if_False by blast
  have "ds = us_demotions s" using ds(1) s(1) by simp
  then have "survives demo_values {''a''} st'" using ds(2) s(2) by simp
  moreover have "length (st_events st') = Suc (length (st_events demo_values))"
    using arg_cong [OF ds(3), of length] \<open>ds = us_demotions s\<close> s(2) by simp
  ultimately show ?thesis using run by blast
qed

end
