(* ===== verification/Spec2Isabelle.thy ===== *)
theory Spec2Isabelle
  imports Key_Lock Middleware Rate_Limit Candidate_Cache Update_Sweep
begin

text \<open>
  A verification development of the Particles engine, the Python program under \<^verbatim>\<open>src/particles\<close>.

  \<^bold>\<open>The program.\<close> The engine keeps a store of claims (particles) extracted from source documents. A new claim is
  compared with the claims already believed: it may repeat one, contradict one, be an update of one, or
  come from a document that another document supersedes. A verdict is turned into a plan of writes, the
  plan into changes of the store, and every automatic retirement into an event. Two maintenance sweeps
  repeat the comparison over the stored claims. An HTTP interface serves the store behind per-client keys,
  request gates, a rate limiter and two middleware layers.

  \<^bold>\<open>The theories.\<close> Each opens with a note of its own; the order below is the order of dependence.

  \<^item> \<open>Py_Prelude\<close>: the pieces of Python's strings, lists and dictionaries the source uses, with the lemmas
    the components share.
  \<^item> \<open>Ip_Address\<close>: the part of the \<^verbatim>\<open>ipaddress\<close> module the gates and the limiter rely on.
  \<^item> \<open>Operator_Only\<close> (\<^verbatim>\<open>corpus/operator_only.py\<close>): whether only the operator can write a file. Name resolution is
    a function with a termination proof, at most 40 links deep as in the code, and records exactly what resolution by
    single steps (\<open>resolve_step\<close>) meets. The judge is shown equal to an abstract property of the facts gathered, and
    sound for the file system it was gathered from.
  \<^item> \<open>Key_Rules\<close>, \<open>Key_File\<close>, \<open>Key_Store\<close>, \<open>Key_Lock\<close> (\<^verbatim>\<open>api/_keys.py\<close>): the record and its rules; the cached, checked
    read of the key file, minting and revoking; the promises of a lookup; and commands of several processes
    interleaved step by step, with the history of what each wrote, where the locale \<open>locked_rewrite\<close> of \<open>Key_Lock\<close> carries
    the serialisation argument.
  \<^item> \<open>Request_Origin\<close>, \<open>Auth\<close>, \<open>Gate_Rules\<close>, \<open>Startup\<close> (\<^verbatim>\<open>api/auth.py\<close>): which host a request comes from, the gates, what
    they promise (locales \<open>capability_gate\<close> and \<open>key_reader\<close>, interpreted on the gates and the key file), and the checks before
    serving.
  \<^item> \<open>Rate_Limit\<close> (\<^verbatim>\<open>api/_rate_limit.py\<close>) and \<open>Middleware\<close> (\<^verbatim>\<open>api/_middleware.py\<close>): token buckets and the metering of model
    calls; the bound on hosts and on body sizes, the latter against a trace of the application run alone.
  \<^item> \<open>Document_Supersession\<close> (\<^verbatim>\<open>corpus/supersession.py\<close>): what a document declares, how it is stamped on its entry
    and read back, and the graph of declarations. Both queries are shown to be reachability.
  \<^item> \<open>Particle_Model\<close>: the vocabulary of particles, corpus entries and harvest marks (\<^verbatim>\<open>corpus/harvest_marks.py\<close>,
    \<^verbatim>\<open>corpus/rule_sources.py\<close>).
  \<^item> \<open>Particle_Store\<close> (\<^verbatim>\<open>store/particle_store.py\<close> and the link, relation and event tables it writes): one definition
    per write, and \<open>store_reach\<close>, the stores any sequence of these writes can reach from an empty one. An insertion takes a
    row in any status \<^verbatim>\<open>insert_particle\<close> itself takes, since a restore from a bundle brings retired rows. The locale \<open>row_history\<close> lifts what one
    write keeps of a row to a whole session.
  \<^item> \<open>Candidate_Cache\<close> (\<^verbatim>\<open>store/candidate_cache.py\<close>, \<^verbatim>\<open>store/change_journal.py\<close>): the cached read of the believed claims, with
    the triggers that journal every change. The locale \<open>change_log\<close> states what a cache needs of a journal; it is
    interpreted on the model's tables.
  \<^item> \<open>Update_Supersession\<close>, \<open>Pair_Selection\<close>, \<open>Duplicate_Suppression\<close> (\<^verbatim>\<open>ingest/update_supersession.py\<close>, \<^verbatim>\<open>ingest/pair_selection.py\<close>,
    \<^verbatim>\<open>ingest/duplicate_suppression.py\<close>): which stored claims a candidate meets, when one is an update of the other,
    which questions are asked, and whether the claim is held already. The lookups read the stored hash column,
    which may be NULL on rows older than it.
  \<^item> \<open>Conflict_Plan\<close> (\<^verbatim>\<open>ingest/conflict_plan.py\<close> and the writes of \<^verbatim>\<open>ingest/pipeline.py\<close>): the plan of a verdict and its
    application. The abstract specification is \<open>settle\<close>, what a ruling does to a map of beliefs; the locale \<open>write_seam\<close>
    states the two writes a plan makes as laws, interpreted on the store.
  \<^item> \<open>Reconcile_Sweep\<close> and \<open>Update_Sweep\<close> (\<^verbatim>\<open>operations/reconcile.py\<close>, \<^verbatim>\<open>store/probe_verdict_store.py\<close>,
    \<^verbatim>\<open>operations/probe_ledger.py\<close>): the two sweeps.

  \<^bold>\<open>What is shown.\<close> The store: every reachable store is well formed, no write of the particle store removes or rewords
  a claim, a claim that leaves belief is stamped, and a retired claim returns by one route only. A claim retired by
  judgment and asserted again is quarantined with a record for review. The cache answers what a direct read would, across any writes of
  any process, rollbacks and a pruned or recreated journal. Applying a plan settles the beliefs as the abstract
  ruling says; whatever a plan or a sweep retires is named by an event together with its winner, and a slot is
  never left without a believed value by the extra retirements or by the update sweep. The update order is
  antisymmetric, and a local file without a harvester's mark, an author or contributors takes no part in it against
  other entries. Declarations of one collection
  never act on another. The keys: a minted token is found, a revoked one never again, and concurrent commands
  behave as if run in the order they finished. The gates: who is admitted, that a keyless engine refuses writes and starts only where its command
  line or configuration proves a loopback bind, that the early refusal equals the gate's. The limiter: a bound on admissions, on memory, and that a client that waited is admitted.

  \<^bold>\<open>Parameters.\<close> Code outside the repository is an argument of the definitions that use it: the verdict functions,
  key functions, status table and schemas of \<^verbatim>\<open>particles.core\<close>, the configuration, YAML loading, hashing and
  embeddings. What a theorem needs of them is a named hypothesis stating their documented behaviour (for
  instance \<open>permits\<close> and \<open>returns_from_superseded_only\<close> of the status table, \<open>hash_of_key\<close> of the identity key, \<open>needs_signal\<close> of the conflict ladder), and each such theorem has
  a concrete instance beside it. A model's answers, a host's file system, clocks and random bytes are inputs.

  \<^bold>\<open>Bounds.\<close> Machine words are used where the width matters (addresses, file modes, journal tokens). Loops of
  the code are total functions, so no fuel appears: the graph walks recurse on the nodes not seen yet, name
  resolution on the links left. Amounts of the limiter and similarities are rationals in place of floats;
  embeddings are lists of rationals. Journal tokens are assumed fresh, which 64 random bits make likely and
  not certain.

  \<^bold>\<open>Not modelled.\<close> Routes, command line, exporters, benchmarks and reports are input and output. Consolidation,
  extraction and querying are schedules of model calls whose decisions lie in \<^verbatim>\<open>particles.core\<close>, which is not in
  the repository. Log lines, refusal texts and progress messages are left out everywhere. Merging subjects and
  deleting corpus entries write the particle table from other modules and are not among the modelled writes. A write transaction
  is one step: interleaving within one is SQLite's concern; that of the key file, which has no database under it,
  is modelled.
\<close>

end
